(* ===== verification/Relay_Prelude.thy ===== *)
theory Relay_Prelude
  imports Main "HOL-Library.Word" "HOL-Library.AList"
begin

text \<open>
  The shared vocabulary of the development: the names of the model's basic types, the
  result type of fallible code, Go maps as association lists with distinct keys, the
  rounding of Go's integer division, and the collections of rewrite rules the component
  theories fill.

  Go's \<^verbatim>\<open>string\<close> is a sequence of bytes and is modelled by \<^typ>\<open>string\<close>; binary
  \<^verbatim>\<open>[]byte\<close> data is modelled by \<open>byte list\<close>. An instant of the wall clock
  (\<^verbatim>\<open>time.Time\<close>) and a \<^verbatim>\<open>time.Duration\<close> are integers counting nanoseconds.
\<close>

section \<open>Basic types\<close>

type_synonym byte = "8 word"
type_synonym time = int
type_synonym duration = int

type_synonym ('e, 'a) result = "'e + 'a"

abbreviation microsecond :: duration where
  "microsecond \<equiv> 1000"

abbreviation millisecond :: duration where
  "millisecond \<equiv> 1000000"

abbreviation second :: duration where
  "second \<equiv> 1000000000"

named_theorems codec_simps \<open>encoders and decoders of the standard library\<close>
named_theorems addr_simps \<open>predicates on network addresses\<close>
named_theorems inv_intros \<open>an operation keeps the invariant of its component\<close>
named_theorems frame_simps \<open>fields an operation does not touch\<close>

section \<open>Go integer division\<close>

text \<open>Go truncates the quotient towards zero; \<open>div\<close> on \<^typ>\<open>int\<close> rounds down.\<close>

definition go_quot :: "int \<Rightarrow> int \<Rightarrow> int" where
  "go_quot a b = (if (0 \<le> a) = (0 < b) then \<bar>a\<bar> div \<bar>b\<bar> else - (\<bar>a\<bar> div \<bar>b\<bar>))"

lemma go_quot_nonneg [simp]: "0 \<le> a \<Longrightarrow> 0 < b \<Longrightarrow> go_quot a b = a div b"
  by (simp add: go_quot_def)

lemma go_quot_mono:
  assumes "a \<le> a'" and "0 < b"
  shows "go_quot a b \<le> go_quot a' b"
proof (cases "0 \<le> a")
  case True
  with assms show ?thesis by (simp add: go_quot_def zdiv_mono1)
next
  case neg: False
  show ?thesis
  proof (cases "0 \<le> a'")
    case True
    have "0 \<le> \<bar>a\<bar> div \<bar>b\<bar>" and "0 \<le> \<bar>a'\<bar> div \<bar>b\<bar>"
      using assms(2) by (simp_all add: pos_imp_zdiv_nonneg_iff)
    with neg True assms(2) show ?thesis by (simp add: go_quot_def)
  next
    case False
    with neg assms have "\<bar>a'\<bar> div \<bar>b\<bar> \<le> \<bar>a\<bar> div \<bar>b\<bar>" by (intro zdiv_mono1) auto
    with neg False assms(2) show ?thesis by (simp add: go_quot_def)
  qed
qed

section \<open>Go maps\<close>

text \<open>
  A Go map whose length, iteration or deletion the code uses is an association list with
  distinct keys; the order of the list stands for one of the iteration orders Go may take.
\<close>

type_synonym ('k, 'v) gomap = "('k \<times> 'v) list"

definition wf_map :: "('k, 'v) gomap \<Rightarrow> bool" where
  "wf_map m \<longleftrightarrow> distinct (map fst m)"

abbreviation get_map :: "('k, 'v) gomap \<Rightarrow> 'k \<Rightarrow> 'v option" where
  "get_map m k \<equiv> map_of m k"

abbreviation set_map :: "'k \<Rightarrow> 'v \<Rightarrow> ('k, 'v) gomap \<Rightarrow> ('k, 'v) gomap" where
  "set_map k v m \<equiv> AList.update k v m"

abbreviation del_map :: "'k \<Rightarrow> ('k, 'v) gomap \<Rightarrow> ('k, 'v) gomap" where
  "del_map k m \<equiv> AList.delete k m"

text \<open>Reading an absent key of a map into a number gives zero.\<close>

definition get_num :: "('k, int) gomap \<Rightarrow> 'k \<Rightarrow> int" where
  "get_num m k = (case map_of m k of None \<Rightarrow> 0 | Some n \<Rightarrow> n)"

lemma wf_map_Nil [simp]: "wf_map []"
  by (simp add: wf_map_def)

lemma wf_set_map [inv_intros, intro]: "wf_map m \<Longrightarrow> wf_map (set_map k v m)"
  by (simp add: wf_map_def distinct_update)

lemma wf_del_map [inv_intros, intro]: "wf_map m \<Longrightarrow> wf_map (del_map k m)"
  by (simp add: wf_map_def distinct_delete)

lemma wf_filter_map [inv_intros, intro]: "wf_map m \<Longrightarrow> wf_map (filter P m)"
  by (induction m) (auto simp: wf_map_def)

lemma get_set_map [simp]: "get_map (set_map k v m) j = (if j = k then Some v else get_map m j)"
  by (simp add: update_conv)

lemma get_del_map [simp]: "get_map (del_map k m) j = (if j = k then None else get_map m j)"
  by (simp add: delete_conv')

lemma get_num_set_map [simp]: "get_num (set_map k v m) j = (if j = k then v else get_num m j)"
  by (simp add: get_num_def)

lemma get_num_del_map [simp]: "get_num (del_map k m) j = (if j = k then 0 else get_num m j)"
  by (simp add: get_num_def)

lemma map_of_filter_wf:
  "wf_map m \<Longrightarrow> get_map (filter P m) k =
     (case get_map m k of None \<Rightarrow> None | Some v \<Rightarrow> if P (k, v) then Some v else None)"
proof (induction m)
  case Nil
  then show ?case by simp
next
  case (Cons kv m)
  obtain k' v' where kv: "kv = (k', v')" by (cases kv)
  have wf: "wf_map m" and new: "k' \<notin> fst ` set m"
    using Cons.prems by (simp_all add: wf_map_def kv)
  show ?case
  proof (cases "k = k'")
    case True
    with new have none: "get_map m k = None" by (simp add: map_of_eq_None_iff)
    moreover have "get_map (filter P m) k = None"
      using Cons.IH [OF wf] none by simp
    ultimately show ?thesis using True by (simp add: kv)
  next
    case False
    then show ?thesis using Cons.IH [OF wf] by (simp add: kv)
  qed
qed

lemma length_set_map:
  "length (set_map k v m) = (if get_map m k = None then Suc (length m) else length m)"
  by (induction m) auto

lemma length_set_map_le: "length (set_map k v m) \<le> Suc (length m)"
  by (simp add: length_set_map)

lemma length_del_map_le: "length (del_map k m) \<le> length m"
  by (simp add: AList.delete_eq)

text \<open>Summing the values of a map of counters.\<close>

definition sum_map :: "('k, int) gomap \<Rightarrow> int" where
  "sum_map m = sum_list (map snd m)"

lemma sum_map_Nil [simp]: "sum_map [] = 0"
  by (simp add: sum_map_def)

lemma sum_set_map:
  assumes "wf_map m"
  shows "sum_map (set_map k v m) = sum_map m - get_num m k + v"
  using assms
proof (induction m)
  case Nil
  then show ?case by (simp add: sum_map_def get_num_def)
next
  case (Cons kv m)
  obtain k' v' where kv: "kv = (k', v')" by (cases kv)
  from Cons.prems have "wf_map m" by (simp add: wf_map_def)
  with Cons.IH show ?case by (auto simp: sum_map_def get_num_def kv)
qed

lemma sum_del_map:
  assumes "wf_map m"
  shows "sum_map (del_map k m) = sum_map m - get_num m k"
  using assms
proof (induction m)
  case Nil
  then show ?case by (simp add: sum_map_def get_num_def)
next
  case (Cons kv m)
  obtain k' v' where kv: "kv = (k', v')" by (cases kv)
  from Cons.prems have wf: "wf_map m" and new: "k' \<notin> fst ` set m"
    by (simp_all add: wf_map_def kv)
  show ?case
  proof (cases "k = k'")
    case True
    with new have "del_map k m = m" by (simp add: delete_id)
    with True show ?thesis by (simp add: sum_map_def get_num_def kv)
  next
    case False
    then show ?thesis using Cons.IH [OF wf] by (simp add: sum_map_def get_num_def kv)
  qed
qed

lemma set_del_mapD: "(j, v) \<in> set (del_map k m) \<Longrightarrow> (j, v) \<in> set m \<and> j \<noteq> k"
  by (auto simp: AList.delete_eq)

lemma set_set_mapD:
  "(j, w) \<in> set (set_map k v m) \<Longrightarrow> wf_map m \<Longrightarrow> (j = k \<and> w = v) \<or> ((j, w) \<in> set m \<and> j \<noteq> k)"
  by (induction m) (force simp: wf_map_def split: if_splits)+

lemma get_num_in_set: "wf_map m \<Longrightarrow> (k, v) \<in> set m \<Longrightarrow> get_num m k = v"
  by (simp add: get_num_def wf_map_def)

section \<open>Taking elements while a predicate holds\<close>

text \<open>On a list sorted by a key, the prefix below a bound is the whole part below it.\<close>

lemma takeWhile_sorted_filter:
  assumes "sorted (map f xs)" and "\<And>x y. x \<in> set xs \<Longrightarrow> f y \<le> f x \<Longrightarrow> y \<in> set xs \<Longrightarrow> P x \<Longrightarrow> P y"
  shows "takeWhile P xs = filter P xs"
  using assms
proof (induction xs)
  case Nil
  then show ?case by simp
next
  case (Cons x xs)
  show ?case
  proof (cases "P x")
    case True
    moreover have "takeWhile P xs = filter P xs"
      using Cons.prems by (intro Cons.IH) auto
    ultimately show ?thesis by simp
  next
    case False
    have "\<not> P y" if "y \<in> set xs" for y
      using Cons.prems(2) [of y x] Cons.prems(1) False that by auto
    with False show ?thesis by (simp add: filter_empty_conv)
  qed
qed

end
