(* ===== verification/Go_Std.thy ===== *)
theory Go_Std
  imports Relay_Prelude "HOL-Library.Char_ord" "HOL-Library.List_Lexorder"
begin

text \<open>
  What the relay uses of Go's standard library, as executable functions: \<^verbatim>\<open>time\<close>
  conversions, \<^verbatim>\<open>strconv\<close> decimals, the \<^verbatim>\<open>%012d\<close> verb, \<^verbatim>\<open>encoding/hex\<close>,
  \<^verbatim>\<open>encoding/base64\<close>, a few \<^verbatim>\<open>strings\<close> functions and \<^verbatim>\<open>net.SplitHostPort\<close>. The lemmas
  are the round trips and order facts the ticket store relies on: in particular that the
  byte order of two keys padded by \<^verbatim>\<open>%012d\<close> is the numeric order of their epochs.
\<close>

section \<open>Bytes and strings\<close>

definition to_bytes :: "string \<Rightarrow> byte list" where
  "to_bytes = map (\<lambda>c. of_nat (of_char c))"

definition of_bytes :: "byte list \<Rightarrow> string" where
  "of_bytes = map (\<lambda>b. char_of (unat b))"

lemma unat_of_char [simp]: "unat (of_nat (of_char c) :: byte) = of_char c"
  using nat_of_char_less_256 [of c] by (simp add: unat_of_nat take_bit_eq_mod)

lemma of_bytes_to_bytes [simp]: "of_bytes (to_bytes s) = s"
  by (simp add: of_bytes_def to_bytes_def comp_def)

lemma unat_byte_less [simp]: "unat (b :: byte) < 256"
  using unsigned_less [of b, where ?'a = nat] by simp

lemma of_char_byte [simp]: "(of_nat (of_char (char_of (unat b) :: char)) :: byte) = b"
  by (simp add: mod_less)

lemma to_bytes_of_bytes [simp]: "to_bytes (of_bytes b) = b"
  by (induction b) (simp_all add: to_bytes_def of_bytes_def mod_less)

lemma length_to_bytes [simp]: "length (to_bytes s) = length s"
  by (simp add: to_bytes_def)

lemma length_of_bytes [simp]: "length (of_bytes b) = length b"
  by (simp add: of_bytes_def)

lemma to_bytes_append [simp]: "to_bytes (a @ b) = to_bytes a @ to_bytes b"
  by (simp add: to_bytes_def)

section \<open>Time\<close>

text \<open>The zero \<^verbatim>\<open>time.Time\<close>.\<close>

definition zero_time :: time where
  "zero_time = - 62135596800 * second"

text \<open>\<^verbatim>\<open>Time.Unix\<close> and \<^verbatim>\<open>Time.UnixMilli\<close> of an instant given in nanoseconds.\<close>

definition unix :: "time \<Rightarrow> int" where
  "unix t = t div second"

definition unix_milli :: "time \<Rightarrow> int" where
  "unix_milli t = t div millisecond"

lemma unix_mono: "s \<le> t \<Longrightarrow> unix s \<le> unix t"
  by (simp add: unix_def zdiv_mono1)

lemma unix_milli_mono: "s \<le> t \<Longrightarrow> unix_milli s \<le> unix_milli t"
  by (simp add: unix_milli_def zdiv_mono1)

lemma unix_of_milli: "unix t = unix_milli t div 1000"
  by (simp add: unix_def unix_milli_def flip: div_mult2_eq zdiv_zmult2_eq)

section \<open>Decimal numbers\<close>

definition digit :: "nat \<Rightarrow> char" where
  "digit d = char_of (48 + d)"

definition digit_val :: "char \<Rightarrow> nat" where
  "digit_val c = of_char c - 48"

definition is_digit :: "char \<Rightarrow> bool" where
  "is_digit c \<longleftrightarrow> 48 \<le> (of_char c :: nat) \<and> (of_char c :: nat) \<le> 57"

lemma is_digit_digit [simp]: "d < 10 \<Longrightarrow> is_digit (digit d)"
  by (simp add: is_digit_def digit_def)

lemma digit_val_digit [simp]: "d < 10 \<Longrightarrow> digit_val (digit d) = d"
  by (simp add: digit_val_def digit_def)

lemma digit_less [simp]: "a < 10 \<Longrightarrow> b < 10 \<Longrightarrow> digit a < digit b \<longleftrightarrow> a < b"
  by (simp add: digit_def less_char_def)

lemma digit_eq [simp]: "a < 10 \<Longrightarrow> b < 10 \<Longrightarrow> digit a = digit b \<longleftrightarrow> a = b"
  by (metis digit_val_digit)

lemma digit_neq_other [simp]: "d < 10 \<Longrightarrow> digit d \<noteq> CHR '':''" "d < 10 \<Longrightarrow> digit d \<noteq> CHR ''-''"
    "d < 10 \<Longrightarrow> digit d \<noteq> CHR ''+''"
  by (auto dest!: is_digit_digit simp: is_digit_def)

text \<open>\<^verbatim>\<open>strconv.FormatInt(n, 10)\<close> and \<^verbatim>\<open>strconv.Itoa\<close>.\<close>

fun udec :: "nat \<Rightarrow> string" where
  "udec n = (if n < 10 then [digit n] else udec (n div 10) @ [digit (n mod 10)])"

declare udec.simps [simp del]

definition itoa :: "int \<Rightarrow> string" where
  "itoa n = (if n < 0 then CHR ''-'' # udec (nat (- n)) else udec (nat n))"

lemma udec_nonempty [simp]: "udec n \<noteq> []"
  by (subst udec.simps) simp

lemma udec_digits: "c \<in> set (udec n) \<Longrightarrow> is_digit c"
proof (induction n rule: udec.induct)
  case (1 n)
  then show ?case
    by (cases "n < 10") (auto simp: udec.simps [of n])
qed

lemma not_digit_sep [simp]: "\<not> is_digit CHR '':''" "\<not> is_digit CHR ''-''" "\<not> is_digit CHR ''+''"
  by (simp_all add: is_digit_def)

lemma colon_notin_udec [simp]: "CHR '':'' \<notin> set (udec n)"
  using udec_digits not_digit_sep(1) by blast

lemma colon_notin_itoa [simp]: "CHR '':'' \<notin> set (itoa n)"
  by (simp add: itoa_def)

text \<open>
  \<^verbatim>\<open>strconv.ParseInt(s, 10, 64)\<close>: the value and the error. A syntax error gives 0, a range
  error the nearest bound; a caller that ignores the error goes on with that value.
\<close>

datatype num_err = ErrSyntax | ErrRange

fun parse_digits :: "nat \<Rightarrow> string \<Rightarrow> (num_err, nat) result" where
  "parse_digits n [] = Inr n"
| "parse_digits n (c # cs) =
     (if \<not> is_digit c then Inl ErrSyntax
      else if 10 * n + digit_val c \<ge> 2 ^ 64 then Inl ErrRange
      else parse_digits (10 * n + digit_val c) cs)"

definition parse_uint :: "string \<Rightarrow> (num_err, nat) result" where
  "parse_uint s = (if s = [] then Inl ErrSyntax else parse_digits 0 s)"

definition parse_int :: "string \<Rightarrow> int \<times> num_err option" where
  "parse_int s =
     (let neg = (s \<noteq> [] \<and> hd s = CHR ''-'');
          body = (if s \<noteq> [] \<and> (hd s = CHR ''-'' \<or> hd s = CHR ''+'') then tl s else s)
      in case parse_uint body of
           Inl ErrSyntax \<Rightarrow> (0, Some ErrSyntax)
         | Inl ErrRange \<Rightarrow> (if neg then - (2 ^ 63) else 2 ^ 63 - 1, Some ErrRange)
         | Inr un \<Rightarrow>
             if \<not> neg \<and> un \<ge> 2 ^ 63 then (2 ^ 63 - 1, Some ErrRange)
             else if neg \<and> un > 2 ^ 63 then (- (2 ^ 63), Some ErrRange)
             else (if neg then - int un else int un, None))"

lemma parse_digits_append:
  "parse_digits n (a @ b) = (case parse_digits n a of Inl e \<Rightarrow> Inl e | Inr m \<Rightarrow> parse_digits m b)"
  by (induction a arbitrary: n) auto

lemma parse_digits_udec: "n < 2 ^ 64 \<Longrightarrow> parse_digits 0 (udec n) = Inr n"
proof (induction n rule: udec.induct)
  case (1 n)
  show ?case
  proof (cases "n < 10")
    case True
    then show ?thesis by (simp add: udec.simps [of n])
  next
    case False
    from "1.prems" have "n div 10 < 2 ^ 64" by simp
    with "1.IH" False have "parse_digits 0 (udec (n div 10)) = Inr (n div 10)" by simp
    with False "1.prems" show ?thesis
      by (simp add: udec.simps [of n] parse_digits_append)
  qed
qed

lemma udec_head: "is_digit (hd (udec n))"
  using udec_digits [of "hd (udec n)" n] by simp

lemma parse_int_itoa:
  assumes "- (2 ^ 63) \<le> n" and "n < 2 ^ 63"
  shows "parse_int (itoa n) = (n, None)"
proof (cases "n < 0")
  case True
  with assms have "nat (- n) < 2 ^ 64" by simp
  with True assms show ?thesis
    by (simp add: itoa_def parse_int_def parse_uint_def parse_digits_udec)
next
  case False
  with assms have "nat n < 2 ^ 64" by simp
  moreover have "hd (udec (nat n)) \<noteq> CHR ''-''" and "hd (udec (nat n)) \<noteq> CHR ''+''"
    using udec_head [of "nat n"] not_digit_sep by metis+
  ultimately show ?thesis using False assms
    by (simp add: itoa_def parse_int_def parse_uint_def parse_digits_udec)
qed

lemma udec_inj: "udec m = udec n \<Longrightarrow> m = n"
proof (induction m arbitrary: n rule: udec.induct)
  case (1 m)
  show ?case
  proof (cases "m < 10")
    case True
    with "1.prems" show ?thesis
      by (cases "n < 10") (auto simp: udec.simps [of m] udec.simps [of n] Cons_eq_append_conv)
  next
    case False
    with "1.prems" have "\<not> n < 10"
      by (auto simp: udec.simps [of m] udec.simps [of n] append_eq_Cons_conv)
    with False "1.prems" have "udec (m div 10) = udec (n div 10)" and "m mod 10 = n mod 10"
      by (auto simp: udec.simps [of m] udec.simps [of n])
    with "1.IH" False show ?thesis by (metis div_mult_mod_eq)
  qed
qed

lemma minus_neq_udec: "CHR ''-'' # xs \<noteq> udec k"
  using udec_head [of k] not_digit_sep(2) by (metis list.sel(1))

lemma itoa_inj [simp]: "itoa m = itoa n \<longleftrightarrow> m = n"
proof
  assume eq: "itoa m = itoa n"
  show "m = n"
  proof (cases "m < 0")
    case True
    with eq minus_neq_udec have "n < 0" by (auto simp: itoa_def split: if_splits)
    with eq True have "nat (- m) = nat (- n)" by (intro udec_inj) (simp add: itoa_def)
    with True \<open>n < 0\<close> show ?thesis by simp
  next
    case False
    with eq minus_neq_udec [symmetric] have "\<not> n < 0" by (auto simp: itoa_def split: if_splits)
    with eq False have "nat m = nat n" by (intro udec_inj) (simp add: itoa_def)
    with False \<open>\<not> n < 0\<close> show ?thesis by simp
  qed
qed simp

lemma comma_notin_itoa [simp]: "CHR '','' \<notin> set (itoa n)"
proof -
  have "\<not> is_digit CHR '',''" by (simp add: is_digit_def)
  then show ?thesis using udec_digits by (auto simp: itoa_def)
qed

text \<open>\<^verbatim>\<open>fmt.Sprintf("%012d", n)\<close>: zeros up to a width of twelve, after the sign.\<close>

definition pad12 :: "int \<Rightarrow> string" where
  "pad12 n =
     (if n < 0 then CHR ''-'' # replicate (11 - length (udec (nat (- n)))) CHR ''0'' @ udec (nat (- n))
      else replicate (12 - length (udec (nat n))) CHR ''0'' @ udec (nat n))"

text \<open>The same digits with a fixed width, by recursion on the width.\<close>

fun digits :: "nat \<Rightarrow> nat \<Rightarrow> string" where
  "digits 0 n = []"
| "digits (Suc w) n = digits w (n div 10) @ [digit (n mod 10)]"

lemma length_digits [simp]: "length (digits w n) = w"
  by (induction w arbitrary: n) auto

lemma digit_zero: "digit 0 = CHR ''0''"
  by code_simp

lemma digits_zero: "digits w 0 = replicate w CHR ''0''"
  by (induction w) (simp_all add: digit_zero replicate_append_same)

lemma digits_are_digits: "c \<in> set (digits w n) \<Longrightarrow> is_digit c"
  by (induction w arbitrary: n) auto

lemma udec_pad:
  "n < 10 ^ w \<Longrightarrow> 0 < w \<Longrightarrow>
     length (udec n) \<le> w \<and> replicate (w - length (udec n)) CHR ''0'' @ udec n = digits w n"
proof (induction n arbitrary: w rule: udec.induct)
  case (1 n)
  obtain v where v: "w = Suc v" using "1.prems"(2) by (cases w) auto
  show ?case
  proof (cases "n < 10")
    case True
    then show ?thesis by (simp add: udec.simps [of n] v digits_zero)
  next
    case False
    have small: "n div 10 < 10 ^ v" using "1.prems"(1) by (simp add: v less_mult_imp_div_less mult.commute)
    have "0 < v" using False "1.prems"(1) by (cases v) (auto simp: v)
    with "1.IH" [OF False small] show ?thesis
      using False by (simp add: udec.simps [of n] v)
  qed
qed

lemma pad12_digits:
  assumes "0 \<le> n" and "n < 10 ^ 12"
  shows "pad12 n = digits 12 (nat n)"
  using udec_pad [of "nat n" 12] assms by (simp add: pad12_def nat_less_iff)

lemma parse_digits_digits:
  "n < 10 ^ w \<Longrightarrow> w \<le> 18 \<Longrightarrow> parse_digits 0 (digits w n) = Inr n"
proof (induction w arbitrary: n)
  case 0
  then show ?case by simp
next
  case (Suc w)
  have small: "n div 10 < 10 ^ w"
    using Suc.prems(1) by (simp add: less_mult_imp_div_less mult.commute)
  have "n < 10 ^ 18"
    using Suc.prems power_increasing [of "Suc w" 18 "10 :: nat"] by linarith
  then have "n < 2 ^ 64" by simp
  with Suc.IH [OF small] Suc.prems show ?case
    by (simp add: parse_digits_append)
qed

lemma hd_digits: "0 < w \<Longrightarrow> is_digit (hd (digits w n))"
  using digits_are_digits [of "hd (digits w n)" w n] length_digits [of w n]
  by (cases "digits w n") auto

lemma parse_int_pad12:
  assumes "0 \<le> n" and "n < 10 ^ 12"
  shows "parse_int (pad12 n) = (n, None)"
proof -
  have "parse_digits 0 (digits 12 (nat n)) = Inr (nat n)"
    using assms by (intro parse_digits_digits) auto
  moreover have "hd (digits 12 (nat n)) \<noteq> CHR ''-''" "hd (digits 12 (nat n)) \<noteq> CHR ''+''"
    using hd_digits [of 12 "nat n"] not_digit_sep by auto
  moreover have "digits 12 (nat n) \<noteq> []" using length_digits [of 12 "nat n"] by force
  moreover have "nat n < 2 ^ 63" using assms by simp
  ultimately show ?thesis
    using assms by (simp add: pad12_digits parse_int_def parse_uint_def)
qed

lemma length_pad12: "0 \<le> n \<Longrightarrow> n < 10 ^ 12 \<Longrightarrow> length (pad12 n) = 12"
  by (simp add: pad12_digits)

text \<open>Lists of equal length that differ compare by their first difference.\<close>

lemma less_append_same_length:
  fixes a b :: "'a :: order list"
  assumes "length a = length b" and "a < b"
  shows "a @ x < b @ y"
  using assms
proof (induction a arbitrary: b)
  case Nil
  then show ?case by simp
next
  case (Cons c a)
  then obtain d b' where b: "b = d # b'" by (cases b) auto
  with Cons.prems have "length a = length b'" and "c < d \<or> c = d \<and> a < b'" by simp_all
  with Cons.IH [of b'] show ?case by (auto simp: b)
qed

lemma digits_less: "a < 10 ^ w \<Longrightarrow> b < 10 ^ w \<Longrightarrow> a < b \<Longrightarrow> digits w a < digits w b"
proof (induction w arbitrary: a b)
  case 0
  then show ?case by simp
next
  case (Suc w)
  have small: "a div 10 < 10 ^ w" "b div 10 < 10 ^ w"
    using Suc.prems by (simp_all add: less_mult_imp_div_less mult.commute)
  show ?case
  proof (cases "a div 10 = b div 10")
    case True
    then have "a mod 10 < b mod 10"
      using Suc.prems(3) by (metis add_less_cancel_left div_mult_mod_eq)
    then have "[digit (a mod 10)] < [digit (b mod 10)]" by simp
    moreover have "p < q \<Longrightarrow> r @ p < r @ q" for p q r :: string
      by (induction r) auto
    ultimately show ?thesis using True by simp
  next
    case False
    then have "a div 10 < b div 10" using Suc.prems(3) by (meson div_le_mono le_neq_implies_less less_imp_le)
    with Suc.IH small have "digits w (a div 10) < digits w (b div 10)" by blast
    then show ?thesis by (simp add: less_append_same_length)
  qed
qed

lemma pad12_order:
  assumes "pad12 a @ x \<le> pad12 b @ y" and "0 \<le> a" "a < 10 ^ 12" "0 \<le> b" "b < 10 ^ 12"
  shows "a \<le> b"
proof (rule ccontr)
  assume "\<not> a \<le> b"
  then have "digits 12 (nat b) < digits 12 (nat a)"
    using assms by (intro digits_less) auto
  then have "pad12 b @ y < pad12 a @ x"
    using assms by (simp add: pad12_digits less_append_same_length)
  with assms(1) show False by simp
qed

section \<open>Hexadecimal\<close>

text \<open>\<^verbatim>\<open>hex.EncodeToString\<close> and \<^verbatim>\<open>hex.DecodeString\<close> (which takes both cases).\<close>

definition hex_digit :: "nat \<Rightarrow> char" where
  "hex_digit n = (if n < 10 then char_of (48 + n) else char_of (87 + n))"

definition hex_val :: "char \<Rightarrow> nat option" where
  "hex_val c =
     (let n = of_char c in
      if 48 \<le> n \<and> n \<le> 57 then Some (n - 48)
      else if 97 \<le> n \<and> n \<le> 102 then Some (n - 87)
      else if 65 \<le> n \<and> n \<le> 70 then Some (n - 55)
      else None)"

fun hex_encode :: "byte list \<Rightarrow> string" where
  "hex_encode [] = []"
| "hex_encode (b # bs) = hex_digit (unat b div 16) # hex_digit (unat b mod 16) # hex_encode bs"

fun hex_decode :: "string \<Rightarrow> byte list option" where
  "hex_decode [] = Some []"
| "hex_decode [c] = None"
| "hex_decode (c # d # s) =
     (case (hex_val c, hex_val d, hex_decode s) of
        (Some h, Some l, Some bs) \<Rightarrow> Some (of_nat (16 * h + l) # bs)
      | _ \<Rightarrow> None)"

lemma hex_val_digit [simp]: "n < 16 \<Longrightarrow> hex_val (hex_digit n) = Some n"
  by (auto simp: hex_val_def hex_digit_def Let_def)

lemma length_hex_encode [simp]: "length (hex_encode bs) = 2 * length bs"
  by (induction bs) auto

lemma hex_decode_encode [simp]: "hex_decode (hex_encode bs) = Some bs"
proof (induction bs)
  case Nil
  then show ?case by simp
next
  case (Cons b bs)
  have "unat b div 16 < 16" using unat_byte_less [of b] by linarith
  then show ?case using Cons by (simp add: div_mult_mod_eq mult.commute)
qed

lemma hex_encode_inj [simp]: "hex_encode a = hex_encode b \<longleftrightarrow> a = b"
  by (metis hex_decode_encode option.inject)

lemma hex_encode_colon [simp]: "CHR '':'' \<notin> set (hex_encode bs)"
proof (induction bs)
  case (Cons b bs)
  have "unat b div 16 < 16" using unat_byte_less [of b] by linarith
  moreover have "n < 16 \<Longrightarrow> CHR '':'' \<noteq> hex_digit n" for n
    by (drule hex_val_digit) (auto simp: hex_val_def Let_def dest: sym)
  ultimately show ?case using Cons by simp
qed simp

lemma hex_decode_length: "hex_decode s = Some bs \<Longrightarrow> length s = 2 * length bs"
  by (induction s arbitrary: bs rule: hex_decode.induct) (auto split: option.splits)

section \<open>Base 64\<close>

text \<open>
  \<^verbatim>\<open>base64.StdEncoding\<close>: the decoder skips carriage returns and line feeds, wants the
  padding, and does not look at the unused low bits of the last character.
\<close>

definition b64_char :: "nat \<Rightarrow> char" where
  "b64_char n =
     (if n < 26 then char_of (65 + n) else if n < 52 then char_of (71 + n)
      else if n < 62 then char_of (n - 4) else if n = 62 then CHR ''+'' else CHR ''/'')"

definition b64_val :: "char \<Rightarrow> nat option" where
  "b64_val c =
     (let n = of_char c in
      if 65 \<le> n \<and> n \<le> 90 then Some (n - 65)
      else if 97 \<le> n \<and> n \<le> 122 then Some (n - 71)
      else if 48 \<le> n \<and> n \<le> 57 then Some (n + 4)
      else if c = CHR ''+'' then Some 62 else if c = CHR ''/'' then Some 63 else None)"

fun b64_groups :: "string \<Rightarrow> byte list option" where
  "b64_groups [] = Some []"
| "b64_groups (a # b # c # d # s) =
     (case (b64_val a, b64_val b) of
        (Some p, Some q) \<Rightarrow>
          (if c = CHR ''='' then
             (if d = CHR ''='' \<and> s = [] then Some [of_nat (4 * p + q div 16)] else None)
           else case b64_val c of
             None \<Rightarrow> None
           | Some r \<Rightarrow>
               (if d = CHR ''='' then
                  (if s = [] then Some [of_nat (4 * p + q div 16), of_nat (16 * (q mod 16) + r div 4)]
                   else None)
                else case (b64_val d, b64_groups s) of
                  (Some t, Some bs) \<Rightarrow>
                    Some (of_nat (4 * p + q div 16) # of_nat (16 * (q mod 16) + r div 4)
                          # of_nat (64 * (r mod 4) + t) # bs)
                | _ \<Rightarrow> None))
      | _ \<Rightarrow> None)"
| "b64_groups _ = None"

definition b64_decode :: "string \<Rightarrow> byte list option" where
  "b64_decode s = b64_groups (filter (\<lambda>c. c \<noteq> CHR 0x0A \<and> c \<noteq> CHR 0x0D) s)"

fun b64_encode :: "byte list \<Rightarrow> string" where
  "b64_encode [] = []"
| "b64_encode [x] =
     [b64_char (unat x div 4), b64_char (16 * (unat x mod 4)), CHR ''='', CHR ''='']"
| "b64_encode [x, y] =
     [b64_char (unat x div 4), b64_char (16 * (unat x mod 4) + unat y div 16),
      b64_char (4 * (unat y mod 16)), CHR ''='']"
| "b64_encode (x # y # z # bs) =
     b64_char (unat x div 4) # b64_char (16 * (unat x mod 4) + unat y div 16)
     # b64_char (4 * (unat y mod 16) + unat z div 64) # b64_char (unat z mod 64) # b64_encode bs"

text \<open>Decoding inverts encoding.\<close>

lemma b64_val_char [simp]:
  assumes "n < 64"
  shows "b64_val (b64_char n) = Some n"
proof -
  consider "n < 26" | "26 \<le> n" "n < 52" | "52 \<le> n" "n < 62" | "n = 62" | "n = 63" using assms by linarith
  then show ?thesis
  proof cases
    case 3
    then obtain k where "n = 52 + k" "k < 10" using le_Suc_ex [of 52 n] by auto
    then show ?thesis by (simp add: b64_char_def b64_val_def Let_def)
  qed (simp_all add: b64_char_def b64_val_def Let_def)
qed

lemma b64_char_plain [simp]:
  assumes "n < 64"
  shows "b64_char n \<noteq> CHR ''=''" "b64_char n \<noteq> CHR 0x0A" "b64_char n \<noteq> CHR 0x0D"
  using b64_val_char [OF assms] by (auto simp: b64_val_def Let_def)

lemma b64_bounds [simp]:
  "unat (x :: byte) div 4 < 64" "16 * (unat x mod 4) < 64" "16 * (unat x mod 4) + unat (y :: byte) div 16 < 64"
  "4 * (unat y mod 16) < 64" "4 * (unat y mod 16) + unat (z :: byte) div 64 < 64"
  "unat y div 16 < 16" "unat z div 64 < 4"
proof -
  have b: "unat x < 256" "unat y < 256" "unat z < 256" by simp_all
  show "unat x div 4 < 64" "unat y div 16 < 16" "unat z div 64 < 4" using b by linarith+
  show "16 * (unat x mod 4) < 64" "16 * (unat x mod 4) + unat y div 16 < 64"
    "4 * (unat y mod 16) < 64" "4 * (unat y mod 16) + unat z div 64 < 64" using b by linarith+
qed

lemma filter_b64_encode: "filter (\<lambda>c. c \<noteq> CHR 0x0A \<and> c \<noteq> CHR 0x0D) (b64_encode bs) = b64_encode bs"
  by (induction bs rule: b64_encode.induct) simp_all

lemma b64_join:
  fixes x y z :: byte
  shows "4 * (unat x div 4) + (16 * (unat x mod 4) + unat y div 16) div 16 = unat x"
    and "16 * ((16 * (unat x mod 4) + unat y div 16) mod 16) + (4 * (unat y mod 16) + unat z div 64) div 4 = unat y"
    and "16 * ((16 * (unat x mod 4) + unat y div 16) mod 16) + 4 * (unat y mod 16) div 4 = unat y"
    and "64 * ((4 * (unat y mod 16) + unat z div 64) mod 4) + unat z mod 64 = unat z"
  using b64_bounds(6) [of y] b64_bounds(7) [of z] by simp_all

lemma b64_groups_encode: "b64_groups (b64_encode bs) = Some bs"
proof (induction bs rule: b64_encode.induct)
  case (3 x y)
  show ?case using b64_join(1) [of x y] b64_join(3) [of x y] by simp
next
  case (4 x y z bs)
  then show ?case using b64_join(1) [of x y] b64_join(2) [of x y z] b64_join(4) [of y z] by simp
qed simp_all

lemma b64_decode_encode [simp]: "b64_decode (b64_encode bs) = Some bs"
  by (simp add: b64_decode_def filter_b64_encode b64_groups_encode)

section \<open>Strings\<close>

text \<open>\<^verbatim>\<open>strings.Split(s, sep)\<close> for a separator of one byte.\<close>

fun split_on :: "char \<Rightarrow> string \<Rightarrow> string list" where
  "split_on c [] = [[]]"
| "split_on c (x # xs) =
     (if x = c then [] # split_on c xs
      else case split_on c xs of [] \<Rightarrow> [[x]] | y # ys \<Rightarrow> (x # y) # ys)"

lemma split_on_nonempty [simp]: "split_on c s \<noteq> []"
  by (induction s) (auto split: list.splits)

lemma split_on_none: "c \<notin> set s \<Longrightarrow> split_on c s = [s]"
  by (induction s) auto

lemma split_on_first: "c \<notin> set a \<Longrightarrow> split_on c (a @ c # b) = a # split_on c b"
  by (induction a) auto

text \<open>\<^verbatim>\<open>strings.HasPrefix\<close>, \<^verbatim>\<open>strings.TrimRight(s, "/")\<close>, \<^verbatim>\<open>strings.TrimSpace\<close> (on the
  ASCII white space) and \<^verbatim>\<open>strings.Join\<close>.\<close>

definition has_prefix :: "'a list \<Rightarrow> 'a list \<Rightarrow> bool" where
  "has_prefix s p \<longleftrightarrow> take (length p) s = p"

definition trim_right :: "char \<Rightarrow> string \<Rightarrow> string" where
  "trim_right c s = rev (dropWhile (\<lambda>x. x = c) (rev s))"

definition is_space :: "char \<Rightarrow> bool" where
  "is_space c \<longleftrightarrow> c \<in> {CHR 0x09, CHR 0x0A, CHR 0x0B, CHR 0x0C, CHR 0x0D, CHR '' ''}"

definition trim_space :: "string \<Rightarrow> string" where
  "trim_space s = rev (dropWhile is_space (rev (dropWhile is_space s)))"

fun join_with :: "string \<Rightarrow> string list \<Rightarrow> string" where
  "join_with sep [] = []"
| "join_with sep [x] = x"
| "join_with sep (x # y # ys) = x @ sep @ join_with sep (y # ys)"

lemma split_join:
  "xs \<noteq> [] \<Longrightarrow> \<forall>x \<in> set xs. c \<notin> set x \<Longrightarrow> split_on c (join_with [c] xs) = xs"
proof (induction xs)
  case (Cons x xs)
  show ?case
  proof (cases xs)
    case Nil
    then show ?thesis using Cons.prems by (simp add: split_on_none)
  next
    case (Cons y ys)
    then show ?thesis using Cons.IH Cons.prems by (simp add: split_on_first)
  qed
qed simp

lemma join_with_inj:
  assumes eq: "join_with [c] xs = join_with [c] ys" and "xs \<noteq> []" "ys \<noteq> []"
    and "\<forall>x \<in> set xs. c \<notin> set x" "\<forall>y \<in> set ys. c \<notin> set y"
  shows "xs = ys"
proof -
  have "xs = split_on c (join_with [c] xs)" using assms(2,4) by (rule split_join [symmetric])
  also have "\<dots> = split_on c (join_with [c] ys)" by (simp only: eq)
  also have "\<dots> = ys" using assms(3,5) by (rule split_join)
  finally show ?thesis .
qed

lemma trim_right_last: "trim_right c s \<noteq> [] \<Longrightarrow> last (trim_right c s) \<noteq> c"
  using hd_dropWhile [of "\<lambda>x. x = c" "rev s"] by (simp add: trim_right_def last_rev)

lemma trim_right_idem [simp]: "trim_right c (trim_right c s) = trim_right c s"
  by (simp add: trim_right_def)

section \<open>Host and port\<close>

text \<open>\<^verbatim>\<open>net.SplitHostPort\<close>: the port starts after the last colon, and an IPv6 host stands in
  brackets.\<close>

fun last_index :: "char \<Rightarrow> string \<Rightarrow> nat option" where
  "last_index c [] = None"
| "last_index c (x # xs) =
     (case last_index c xs of Some i \<Rightarrow> Some (Suc i) | None \<Rightarrow> if x = c then Some 0 else None)"

fun first_index :: "char \<Rightarrow> string \<Rightarrow> nat option" where
  "first_index c [] = None"
| "first_index c (x # xs) = (if x = c then Some 0 else map_option Suc (first_index c xs))"

definition split_host_port :: "string \<Rightarrow> (string \<times> string) option" where
  "split_host_port s =
     (case last_index CHR '':'' s of
        None \<Rightarrow> None
      | Some i \<Rightarrow>
          if hd s = CHR ''['' then
            (case first_index CHR '']'' s of
               None \<Rightarrow> None
             | Some e \<Rightarrow>
                 if Suc e = i \<and> CHR ''['' \<notin> set (drop 1 s) \<and> CHR '']'' \<notin> set (drop (Suc e) s)
                 then Some (take (e - 1) (drop 1 s), drop (Suc i) s)
                 else None)
          else if CHR '':'' \<in> set (take i s) \<or> CHR ''['' \<in> set s \<or> CHR '']'' \<in> set s then None
          else Some (take i s, drop (Suc i) s))"

end
