(* ===== verification/Strict_Json.thy ===== *)
theory Strict_Json
  imports Go_Std
begin

text \<open>
  The JSON layer of the relay: the values and tokens of \<^verbatim>\<open>encoding/json\<close>, decoding into a
  Go struct with unknown fields disallowed, and \<^verbatim>\<open>strictJSON\<close> of
  \<^verbatim>\<open>internal/relay/tickets.go\<close>, whose token walk refuses duplicate keys at every depth.

  The scanner that turns text into tokens is not part of the model: a text stands for the
  complete values it starts with, the tokens of what follows them, and whether it then
  ends cleanly (\<open>json_text\<close>).
\<close>

section \<open>Values, tokens, texts\<close>

text \<open>A number keeps its literal; an object keeps its members in order, duplicates included.\<close>

datatype json =
    JNull
  | JBool bool
  | JNum string
  | JStr string
  | JArr "json list"
  | JObj "(string \<times> json) list"

datatype token = TDelim char | TStr string | TNum string | TBool bool | TNull

fun toks :: "json \<Rightarrow> token list" where
  "toks JNull = [TNull]"
| "toks (JBool b) = [TBool b]"
| "toks (JNum n) = [TNum n]"
| "toks (JStr s) = [TStr s]"
| "toks (JArr vs) = TDelim CHR ''['' # concat (map toks vs) @ [TDelim CHR '']'']"
| "toks (JObj ms) = TDelim CHR ''{'' # concat (map (\<lambda>(k, v). TStr k # toks v) ms) @ [TDelim CHR ''}'']"

record json_text =
  jt_values :: "json list"
  jt_rest :: "token list"
  jt_eof :: bool

definition text_toks :: "json_text \<Rightarrow> token list" where
  "text_toks t = concat (map toks (jt_values t)) @ jt_rest t"

section \<open>Decoding into a struct\<close>

text \<open>
  A struct is decoded member by member: a key selects the field of exactly that name, or
  else the first whose name agrees after folding the case (\<open>casefold\<close>); an unknown key and a
  value of the wrong type make the whole decoding fail.
\<close>

type_synonym 's fields = "(string \<times> (json \<Rightarrow> 's \<Rightarrow> 's option)) list"

definition find_field ::
  "(string \<Rightarrow> string) \<Rightarrow> 's fields \<Rightarrow> string \<Rightarrow> (json \<Rightarrow> 's \<Rightarrow> 's option) option" where
  "find_field casefold fs k =
     (case map_of fs k of
        Some f \<Rightarrow> Some f
      | None \<Rightarrow> map_option snd (find (\<lambda>(n, f). casefold n = casefold k) fs))"

fun decode_members ::
  "(string \<Rightarrow> string) \<Rightarrow> 's fields \<Rightarrow> (string \<times> json) list \<Rightarrow> 's \<Rightarrow> 's option" where
  "decode_members casefold fs [] s = Some s"
| "decode_members casefold fs ((k, v) # ms) s =
     (case find_field casefold fs k of
        None \<Rightarrow> None
      | Some f \<Rightarrow> (case f v s of None \<Rightarrow> None | Some s' \<Rightarrow> decode_members casefold fs ms s'))"

text \<open>\<^verbatim>\<open>null\<close> leaves the struct unchanged.\<close>

fun decode_struct :: "(string \<Rightarrow> string) \<Rightarrow> 's fields \<Rightarrow> 's \<Rightarrow> json \<Rightarrow> 's option" where
  "decode_struct casefold fs s (JObj ms) = decode_members casefold fs ms s"
| "decode_struct casefold fs s JNull = Some s"
| "decode_struct casefold fs s _ = None"

text \<open>Field decoders for strings, bounded integers and lists of them.\<close>

fun set_string :: "(string \<Rightarrow> 's \<Rightarrow> 's) \<Rightarrow> json \<Rightarrow> 's \<Rightarrow> 's option" where
  "set_string f (JStr x) s = Some (f x s)"
| "set_string f JNull s = Some s"
| "set_string f _ s = None"

definition json_int :: "int \<Rightarrow> int \<Rightarrow> string \<Rightarrow> int option" where
  "json_int lo hi n =
     (case parse_int n of
        (v, None) \<Rightarrow> if lo \<le> v \<and> v \<le> hi then Some v else None
      | (v, Some e) \<Rightarrow> None)"

fun set_int64 :: "(int \<Rightarrow> 's \<Rightarrow> 's) \<Rightarrow> json \<Rightarrow> 's \<Rightarrow> 's option" where
  "set_int64 f (JNum n) s =
     (case json_int (- (2 ^ 63)) (2 ^ 63 - 1) n of None \<Rightarrow> None | Some v \<Rightarrow> Some (f v s))"
| "set_int64 f JNull s = Some s"
| "set_int64 f _ s = None"

fun string_elem :: "json \<Rightarrow> string option" where
  "string_elem (JStr x) = Some x"
| "string_elem JNull = Some []"
| "string_elem _ = None"

fun int32_elem :: "json \<Rightarrow> int option" where
  "int32_elem (JNum n) = json_int (- (2 ^ 31)) (2 ^ 31 - 1) n"
| "int32_elem JNull = Some 0"
| "int32_elem _ = None"

fun decode_elems :: "(json \<Rightarrow> 'a option) \<Rightarrow> json list \<Rightarrow> 'a list option" where
  "decode_elems f [] = Some []"
| "decode_elems f (v # vs) =
     (case (f v, decode_elems f vs) of (Some x, Some xs) \<Rightarrow> Some (x # xs) | _ \<Rightarrow> None)"

fun set_list :: "(json \<Rightarrow> 'a option) \<Rightarrow> ('a list \<Rightarrow> 's \<Rightarrow> 's) \<Rightarrow> json \<Rightarrow> 's \<Rightarrow> 's option" where
  "set_list d f (JArr vs) s = (case decode_elems d vs of None \<Rightarrow> None | Some xs \<Rightarrow> Some (f xs s))"
| "set_list d f JNull s = Some (f [] s)"
| "set_list d f _ s = None"

section \<open>Encoding\<close>

text \<open>
  \<^verbatim>\<open>json.Marshal\<close> of a string that is valid UTF-8 (every string the relay marshals was decoded
  from JSON or made by it): quotes, backslashes and control characters are escaped, the three
  characters unsafe in HTML and the two line separators as code points, the rest is copied.
\<close>

definition hex4 :: "nat \<Rightarrow> string" where
  "hex4 n = CHR 0x5C # ''u'' @ hex_encode [of_nat (n div 256), of_nat (n mod 256)]"

definition json_esc :: "char \<Rightarrow> string" where
  "json_esc c =
     (if c = CHR 0x22 \<or> c = CHR 0x5C then [CHR 0x5C, c]
      else if c = CHR 0x08 then [CHR 0x5C, CHR ''b'']
      else if c = CHR 0x0C then [CHR 0x5C, CHR ''f'']
      else if c = CHR 0x0A then [CHR 0x5C, CHR ''n'']
      else if c = CHR 0x0D then [CHR 0x5C, CHR ''r'']
      else if c = CHR 0x09 then [CHR 0x5C, CHR ''t'']
      else if (of_char c :: nat) < 32 \<or> c = CHR ''<'' \<or> c = CHR ''>'' \<or> c = CHR ''&'' then hex4 (of_char c)
      else [c])"

fun json_body :: "string \<Rightarrow> string" where
  "json_body [] = []"
| "json_body (c # s) =
     (case s of
        d # e # r \<Rightarrow>
          if c = CHR 0xE2 \<and> d = CHR 0x80 \<and> e = CHR 0xA8 then hex4 0x2028 @ json_body r
          else if c = CHR 0xE2 \<and> d = CHR 0x80 \<and> e = CHR 0xA9 then hex4 0x2029 @ json_body r
          else json_esc c @ json_body s
      | _ \<Rightarrow> json_esc c @ json_body s)"

definition json_quote :: "string \<Rightarrow> string" where
  "json_quote s = CHR 0x22 # json_body s @ [CHR 0x22]"

text \<open>A non-nil slice of strings.\<close>

definition json_strings :: "string list \<Rightarrow> string" where
  "json_strings xs = CHR ''['' # join_with '','' (map json_quote xs) @ '']''"

section \<open>The token walk\<close>

datatype json_err = SyntaxErr | DuplicateKey | UnexpectedDelim | DecodeErr | TrailingErr

text \<open>\<^verbatim>\<open>Decoder.More\<close>: another element follows before the closing bracket.\<close>

fun more :: "token list \<Rightarrow> bool" where
  "more [] = False"
| "more (t # ts) = (t \<noteq> TDelim CHR '']'' \<and> t \<noteq> TDelim CHR ''}'')"

definition close_tok :: "token list \<Rightarrow> (json_err, token list) result" where
  "close_tok ts = (case ts of [] \<Rightarrow> Inl SyntaxErr | t # r \<Rightarrow> Inr r)"

text \<open>
  The recursive closure \<^verbatim>\<open>walk\<close>: it consumes one value from the token stream and returns
  what is left. The fuel bounds the number of loop iterations and calls; \<open>None\<close> means it ran
  out, which \<open>walk_shorter\<close> excludes for the fuel \<open>strictJSON\<close> gives.
\<close>

fun walk :: "nat \<Rightarrow> token list \<Rightarrow> (json_err, token list) result option"
  and walk_obj :: "nat \<Rightarrow> string list \<Rightarrow> token list \<Rightarrow> (json_err, token list) result option"
  and walk_arr :: "nat \<Rightarrow> token list \<Rightarrow> (json_err, token list) result option" where
  "walk 0 ts = None"
| "walk (Suc n) ts =
     (case ts of
        [] \<Rightarrow> Some (Inl SyntaxErr)
      | TDelim c # r \<Rightarrow>
          if c = CHR ''{'' then walk_obj n [] r
          else if c = CHR ''['' then walk_arr n r
          else Some (Inl UnexpectedDelim)
      | _ # r \<Rightarrow> Some (Inr r))"
| "walk_obj 0 seen ts = None"
| "walk_obj (Suc n) seen ts =
     (if more ts then
        (case ts of
           TStr k # r \<Rightarrow>
             if k \<in> set seen then Some (Inl DuplicateKey)
             else (case walk n r of
                     None \<Rightarrow> None
                   | Some (Inl e) \<Rightarrow> Some (Inl e)
                   | Some (Inr r') \<Rightarrow> walk_obj n (k # seen) r')
         | _ \<Rightarrow> Some (Inl DuplicateKey))
      else Some (close_tok ts))"
| "walk_arr 0 ts = None"
| "walk_arr (Suc n) ts =
     (if more ts then
        (case walk n ts of
           None \<Rightarrow> None
         | Some (Inl e) \<Rightarrow> Some (Inl e)
         | Some (Inr r') \<Rightarrow> walk_arr n r')
      else Some (close_tok ts))"

definition walk_fuel :: "token list \<Rightarrow> nat" where
  "walk_fuel ts = 2 * length ts + 2"

text \<open>
  \<^verbatim>\<open>strictJSON(raw, out)\<close>: the walk over the first value, then decoding it into the struct, then
  the check that nothing follows.
\<close>

definition strictJSON ::
  "(string \<Rightarrow> string) \<Rightarrow> 's fields \<Rightarrow> 's \<Rightarrow> json_text \<Rightarrow> (json_err, 's) result" where
  "strictJSON casefold fs zero t =
     (case walk (walk_fuel (text_toks t)) (text_toks t) of
        None \<Rightarrow> Inl SyntaxErr
      | Some (Inl e) \<Rightarrow> Inl e
      | Some (Inr r) \<Rightarrow>
          (case jt_values t of
             [] \<Rightarrow> Inl SyntaxErr
           | v # vs \<Rightarrow>
               (case decode_struct casefold fs zero v of
                  None \<Rightarrow> Inl DecodeErr
                | Some s \<Rightarrow>
                    if vs = [] \<and> jt_rest t = [] \<and> jt_eof t then Inr s else Inl TrailingErr)))"

section \<open>Totality of the walk\<close>

lemma close_tok_shorter: "close_tok ts = Inr r \<Longrightarrow> length r < length ts"
  by (auto simp: close_tok_def split: list.splits)

lemma walk_progress:
  "(2 * length ts + 1 \<le> n \<longrightarrow>
      (\<exists>x. walk n ts = Some x \<and> (\<forall>r. x = Inr r \<longrightarrow> length r < length ts)))
   \<and> (2 * length ts + 2 \<le> n \<longrightarrow>
      (\<exists>x. walk_obj n seen ts = Some x \<and> (\<forall>r. x = Inr r \<longrightarrow> length r < length ts)))
   \<and> (2 * length ts + 2 \<le> n \<longrightarrow>
      (\<exists>x. walk_arr n ts = Some x \<and> (\<forall>r. x = Inr r \<longrightarrow> length r < length ts)))"
proof (induction n arbitrary: ts seen)
  case 0
  then show ?case by simp
next
  case (Suc n)
  have obj: "\<exists>x. walk_obj n seen ts = Some x \<and> (\<forall>r. x = Inr r \<longrightarrow> length r < length ts)"
    and arr: "\<exists>x. walk_arr n ts = Some x \<and> (\<forall>r. x = Inr r \<longrightarrow> length r < length ts)"
    if "2 * length ts + 2 \<le> n" for ts seen
    using Suc.IH [of ts seen] that by auto
  have val: "\<exists>x. walk n ts = Some x \<and> (\<forall>r. x = Inr r \<longrightarrow> length r < length ts)"
    if "2 * length ts + 1 \<le> n" for ts
    using Suc.IH [of ts] that by auto
  have "\<exists>x. walk (Suc n) ts = Some x \<and> (\<forall>r. x = Inr r \<longrightarrow> length r < length ts)"
    if fuel: "2 * length ts + 1 \<le> Suc n"
  proof (cases ts)
    case Nil
    then show ?thesis by simp
  next
    case (Cons t u)
    with fuel have "2 * length u + 2 \<le> n" by simp
    with obj [of u "[]"] arr [of u] show ?thesis
      by (cases t) (auto simp: Cons intro: less_SucI)
  qed
  moreover have "\<exists>x. walk_obj (Suc n) seen ts = Some x \<and> (\<forall>r. x = Inr r \<longrightarrow> length r < length ts)"
    if fuel: "2 * length ts + 2 \<le> Suc n"
  proof (cases "more ts")
    case False
    then show ?thesis by (auto dest: close_tok_shorter)
  next
    case True
    then obtain t u where tu: "ts = t # u" by (cases ts) auto
    from fuel tu have "2 * length u + 1 \<le> n" by simp
    from val [OF this] obtain x where x: "walk n u = Some x" "\<forall>r. x = Inr r \<longrightarrow> length r < length u"
      by blast
    show ?thesis
    proof (cases x)
      case (Inl e)
      then show ?thesis using True x by (cases t) (auto simp: tu)
    next
      case (Inr r)
      with x have r: "length r < length u" by simp
      have "\<exists>y. walk_obj n (k # seen) r = Some y \<and> (\<forall>q. y = Inr q \<longrightarrow> length q < length ts)" for k
        using obj [of r "k # seen"] r fuel tu by (fastforce dest: less_trans)
      then show ?thesis using True x Inr by (cases t) (auto simp: tu)
    qed
  qed
  moreover have "\<exists>x. walk_arr (Suc n) ts = Some x \<and> (\<forall>r. x = Inr r \<longrightarrow> length r < length ts)"
    if fuel: "2 * length ts + 2 \<le> Suc n"
  proof (cases "more ts")
    case False
    then show ?thesis by (auto dest: close_tok_shorter)
  next
    case True
    from fuel have "2 * length ts + 1 \<le> n" by simp
    from val [OF this] obtain x where x: "walk n ts = Some x" "\<forall>r. x = Inr r \<longrightarrow> length r < length ts"
      by blast
    show ?thesis
    proof (cases x)
      case (Inl e)
      then show ?thesis using True x by simp
    next
      case (Inr r)
      with x have r: "length r < length ts" by simp
      with fuel have "2 * length r + 2 \<le> n" by simp
      from arr [OF this] show ?thesis using True x Inr r by (auto dest: less_trans)
    qed
  qed
  ultimately show ?case by blast
qed

lemma walk_shorter:
  "case walk (walk_fuel ts) ts of None \<Rightarrow> False | Some (Inl e) \<Rightarrow> True | Some (Inr r) \<Rightarrow> length r < length ts"
proof -
  have "2 * length ts + 1 \<le> walk_fuel ts" by (simp add: walk_fuel_def)
  then show ?thesis using walk_progress [of ts "walk_fuel ts" "[]"] by (auto split: option.splits sum.splits)
qed

section \<open>What the walk accepts\<close>

text \<open>The property the walk decides: no object, at any depth, has two members with one key.\<close>

fun no_dup :: "json \<Rightarrow> bool" where
  "no_dup (JArr vs) = list_all no_dup vs"
| "no_dup (JObj ms) = (distinct (map fst ms) \<and> list_all (\<lambda>(k, v). no_dup v) ms)"
| "no_dup _ = True"

lemma more_toks [simp]: "more (toks v @ r)"
  by (cases v) auto

abbreviation walk_ok :: "json \<Rightarrow> bool" where
  "walk_ok v \<equiv> \<forall>n r. 2 * length (toks v @ r) + 1 \<le> n \<longrightarrow>
     walk n (toks v @ r) = Some (if no_dup v then Inr r else Inl DuplicateKey)"

lemma walk_arr_toks:
  assumes "\<forall>v \<in> set vs. walk_ok v"
    and "2 * length (concat (map toks vs) @ TDelim CHR '']'' # r) + 2 \<le> n"
  shows "walk_arr n (concat (map toks vs) @ TDelim CHR '']'' # r)
     = Some (if list_all no_dup vs then Inr r else Inl DuplicateKey)"
  using assms
proof (induction vs arbitrary: n)
  case Nil
  then obtain m where "n = Suc m" by (cases n) auto
  then show ?case by (simp add: close_tok_def)
next
  case (Cons v vs)
  then obtain m where m: "n = Suc m" by (cases n) auto
  let ?rest = "concat (map toks vs) @ TDelim CHR '']'' # r"
  have head: "walk m (toks v @ ?rest) = Some (if no_dup v then Inr ?rest else Inl DuplicateKey)"
    using Cons.prems m by simp
  have "length (toks v) \<ge> 1" by (cases v) auto
  then have "walk_arr m ?rest = Some (if list_all no_dup vs then Inr r else Inl DuplicateKey)"
    using Cons.prems m by (intro Cons.IH) auto
  with head show ?case by (simp add: m)
qed

lemma walk_obj_toks:
  assumes "\<forall>(k, v) \<in> set ms. walk_ok v"
    and "2 * length (concat (map (\<lambda>(k, v). TStr k # toks v) ms) @ TDelim CHR ''}'' # r) + 2 \<le> n"
  shows "walk_obj n seen (concat (map (\<lambda>(k, v). TStr k # toks v) ms) @ TDelim CHR ''}'' # r)
     = Some (if distinct (map fst ms) \<and> set (map fst ms) \<inter> set seen = {}
                \<and> list_all (\<lambda>(k, v). no_dup v) ms
             then Inr r else Inl DuplicateKey)"
  using assms
proof (induction ms arbitrary: n seen)
  case Nil
  then obtain m where "n = Suc m" by (cases n) auto
  then show ?case by (simp add: close_tok_def)
next
  case (Cons kv ms)
  obtain k v where kv: "kv = (k, v)" by (cases kv)
  from Cons.prems obtain m where m: "n = Suc m" by (cases n) auto
  let ?rest = "concat (map (\<lambda>(k, v). TStr k # toks v) ms) @ TDelim CHR ''}'' # r"
  have head: "walk m (toks v @ ?rest) = Some (if no_dup v then Inr ?rest else Inl DuplicateKey)"
    using Cons.prems m kv by simp
  have "walk_obj m (k # seen) ?rest
     = Some (if distinct (map fst ms) \<and> set (map fst ms) \<inter> set (k # seen) = {}
                \<and> list_all (\<lambda>(k, v). no_dup v) ms
             then Inr r else Inl DuplicateKey)"
    using Cons.prems m kv by (intro Cons.IH) auto
  with head show ?case by (auto simp: m kv)
qed

lemma walk_toks: "walk_ok v"
proof (induction v)
  case (JArr vs)
  show ?case
  proof (intro allI impI)
    fix n r
    assume fuel: "2 * length (toks (JArr vs) @ r) + 1 \<le> n"
    then obtain m where m: "n = Suc m" by (cases n) auto
    have "walk_arr m (concat (map toks vs) @ TDelim CHR '']'' # r)
       = Some (if list_all no_dup vs then Inr r else Inl DuplicateKey)"
      using JArr fuel m by (intro walk_arr_toks) auto
    then show "walk n (toks (JArr vs) @ r) = Some (if no_dup (JArr vs) then Inr r else Inl DuplicateKey)"
      by (simp add: m)
  qed
next
  case (JObj ms)
  show ?case
  proof (intro allI impI)
    fix n r
    assume fuel: "2 * length (toks (JObj ms) @ r) + 1 \<le> n"
    then obtain m where m: "n = Suc m" by (cases n) auto
    have "\<forall>(k, v) \<in> set ms. walk_ok v"
      using JObj by (fastforce simp: snds.simps)
    then have "walk_obj m [] (concat (map (\<lambda>(k, v). TStr k # toks v) ms) @ TDelim CHR ''}'' # r)
       = Some (if distinct (map fst ms) \<and> set (map fst ms) \<inter> set [] = {}
                \<and> list_all (\<lambda>(k, v). no_dup v) ms
             then Inr r else Inl DuplicateKey)"
      using fuel m by (intro walk_obj_toks) auto
    then show "walk n (toks (JObj ms) @ r) = Some (if no_dup (JObj ms) then Inr r else Inl DuplicateKey)"
      by (simp add: m)
  qed
qed (auto simp: less_eq_Suc_le dest!: Suc_le_D)

lemma walk_text:
  assumes "jt_values t = v # vs"
  shows "walk (walk_fuel (text_toks t)) (text_toks t)
     = Some (if no_dup v then Inr (concat (map toks vs) @ jt_rest t) else Inl DuplicateKey)"
proof -
  have "text_toks t = toks v @ (concat (map toks vs) @ jt_rest t)"
    using assms by (simp add: text_toks_def)
  moreover from this have "2 * length (toks v @ (concat (map toks vs) @ jt_rest t)) + 1
      \<le> walk_fuel (text_toks t)"
    by (simp add: walk_fuel_def)
  ultimately show ?thesis using walk_toks [of v] by (simp del: walk.simps)
qed

lemma strictJSON_iff:
  "strictJSON casefold fs zero t = Inr s \<longleftrightarrow>
     (\<exists>v. jt_values t = [v] \<and> jt_rest t = [] \<and> jt_eof t \<and> no_dup v
          \<and> decode_struct casefold fs zero v = Some s)"
proof (cases "jt_values t")
  case Nil
  then show ?thesis by (auto simp: strictJSON_def split: option.splits sum.splits)
next
  case (Cons v vs)
  then show ?thesis
    by (auto simp: strictJSON_def walk_text [OF Cons] split: option.splits)
qed

text \<open>A text whose first value repeats a key is refused before anything is decoded.\<close>

lemma strictJSON_duplicate:
  "jt_values t = v # vs \<Longrightarrow> \<not> no_dup v \<Longrightarrow> strictJSON casefold fs zero t = Inl DuplicateKey"
  by (simp add: strictJSON_def walk_text)

text \<open>C40: \<^verbatim>\<open>strictJSON\<close> ends on every text, even one that is no JSON at all: the walk over any sequence of tokens returns, and where it
  succeeds it has consumed at least one token. It accepts exactly the texts that hold one value and nothing after it, with
  no repeated key in any object at any depth, and that decode into the struct.\<close>

theorem strictJSON_decides:
  "(case walk (walk_fuel ts) ts of None \<Rightarrow> False | Some (Inl e) \<Rightarrow> True | Some (Inr r) \<Rightarrow> length r < length ts)
   \<and> (strictJSON casefold fs zero t = Inr s \<longleftrightarrow>
       (\<exists>v. jt_values t = [v] \<and> jt_rest t = [] \<and> jt_eof t \<and> no_dup v \<and> decode_struct casefold fs zero v = Some s))"
  by (intro conjI walk_shorter strictJSON_iff)

end
