(* ===== verification/Access_Config.thy ===== *)
theory Access_Config
  imports Strict_Json "HOL-Library.Multiset"
begin

text \<open>
  The access configuration of \<^verbatim>\<open>internal/relay/access.go\<close>: \<^verbatim>\<open>AccessConfig\<close>,
  \<^verbatim>\<open>LoadAccessConfig\<close>, \<^verbatim>\<open>validate\<close> and the policy revision computed by
  \<^verbatim>\<open>newAccessPolicy\<close>. The URL parser of \<^verbatim>\<open>net/url\<close>, the JSON scanner and SHA-256 are
  arguments. The lemmas characterise the accepted configurations and show that the
  revision does not depend on the order of the group list.
\<close>

section \<open>Data\<close>

text \<open>\<open>None\<close> is Go's nil slice.\<close>

record AccessConfig =
  Mode :: string
  AllowedGroupIDs :: "int list option"
  CoreURLBases :: "string list"

definition group_ids :: "AccessConfig \<Rightarrow> int list" where
  "group_ids c = (case AllowedGroupIDs c of None \<Rightarrow> [] | Some ids \<Rightarrow> ids)"

text \<open>What the relay reads of a parsed URL.\<close>

record url =
  u_scheme :: string
  u_hostname :: string
  u_user :: bool
  u_rawquery :: string
  u_fragment :: string

datatype cfg_err =
    ErrMode | ErrPublicGroups | ErrGroupIDs | ErrGroupCount | ErrCoreCount | ErrCoreURL | ErrCoreHTTPS
  | ErrOpen | ErrTooBig | ErrNotObject | ErrDuplicate | ErrDecode | ErrTrailing

section \<open>Validation\<close>

text \<open>The loop over the group IDs with its map of seen IDs.\<close>

fun check_ids :: "int list \<Rightarrow> int list \<Rightarrow> int list option" where
  "check_ids [] seen = Some seen"
| "check_ids (i # ids) seen = (if i \<le> 0 \<or> i \<in> set seen then None else check_ids ids (i # seen))"

definition local_host :: "string \<Rightarrow> bool" where
  "local_host h \<longleftrightarrow> h = ''127.0.0.1'' \<or> h = ''localhost'' \<or> h = ''::1''"

definition check_base :: "(string \<Rightarrow> url option) \<Rightarrow> string \<Rightarrow> (cfg_err, string) result" where
  "check_base parse base =
     (case parse base of
        None \<Rightarrow> Inl ErrCoreURL
      | Some u \<Rightarrow>
          if u_hostname u = '''' \<or> u_user u \<or> u_rawquery u \<noteq> '''' \<or> u_fragment u \<noteq> ''''
             \<or> (u_scheme u \<noteq> ''https'' \<and> u_scheme u \<noteq> ''http'') then Inl ErrCoreURL
          else if u_scheme u = ''http'' \<and> \<not> local_host (u_hostname u) then Inl ErrCoreHTTPS
          else Inr (trim_right CHR ''/'' base))"

text \<open>The loop over the Core URLs, which also strips their trailing slashes in place.\<close>

fun check_bases :: "(string \<Rightarrow> url option) \<Rightarrow> string list \<Rightarrow> (cfg_err, string list) result" where
  "check_bases parse [] = Inr []"
| "check_bases parse (b # bs) =
     (case check_base parse b of
        Inl e \<Rightarrow> Inl e
      | Inr b' \<Rightarrow> (case check_bases parse bs of Inl e \<Rightarrow> Inl e | Inr bs' \<Rightarrow> Inr (b' # bs')))"

definition validate :: "(string \<Rightarrow> url option) \<Rightarrow> AccessConfig \<Rightarrow> (cfg_err, AccessConfig) result" where
  "validate parse c =
     (if Mode c \<noteq> ''public'' \<and> Mode c \<noteq> ''groups'' then Inl ErrMode
      else if Mode c = ''public'' \<and> length (group_ids c) \<noteq> 0 then Inl ErrPublicGroups
      else case check_ids (group_ids c) [] of
        None \<Rightarrow> Inl ErrGroupIDs
      | Some seen \<Rightarrow>
          if length seen > 16 \<or> (Mode c = ''groups'' \<and> length seen = 0) then Inl ErrGroupCount
          else if length (CoreURLBases c) > 8 \<or> (Mode c = ''groups'' \<and> length (CoreURLBases c) = 0)
          then Inl ErrCoreCount
          else case check_bases parse (CoreURLBases c) of
            Inl e \<Rightarrow> Inl e
          | Inr bases \<Rightarrow>
              Inr (c\<lparr>CoreURLBases := bases, AllowedGroupIDs := map_option sort (AllowedGroupIDs c)\<rparr>))"

section \<open>Loading\<close>

definition config_fields :: "AccessConfig fields" where
  "config_fields =
     [(''mode'', set_string (\<lambda>x c. c\<lparr>Mode := x\<rparr>)),
      (''allowed_group_ids'', \<lambda>v c. (case v of
          JNull \<Rightarrow> Some (c\<lparr>AllowedGroupIDs := None\<rparr>)
        | _ \<Rightarrow> set_list int32_elem (\<lambda>x c. c\<lparr>AllowedGroupIDs := Some x\<rparr>) v c)),
      (''core_url_bases'', set_list string_elem (\<lambda>x c. c\<lparr>CoreURLBases := x\<rparr>))]"

definition empty_config :: AccessConfig where
  "empty_config = \<lparr>Mode = [], AllowedGroupIDs = None, CoreURLBases = []\<rparr>"

text \<open>The loop over the keys of the outermost object; the values are skipped.\<close>

fun top_keys :: "string list \<Rightarrow> (string \<times> json) list \<Rightarrow> bool" where
  "top_keys seen [] = True"
| "top_keys seen ((k, v) # ms) = (k \<notin> set seen \<and> top_keys (k # seen) ms)"

text \<open>
  \<open>file\<close> is the content of the file, \<open>None\<close> when it cannot be opened or read; \<open>scan\<close> is the JSON
  scanner. A text that does not start with a complete value is refused in one of the first
  two checks.
\<close>

definition LoadAccessConfig ::
  "(string \<Rightarrow> json_text) \<Rightarrow> (string \<Rightarrow> string) \<Rightarrow> (string \<Rightarrow> url option) \<Rightarrow> string option
     \<Rightarrow> (cfg_err, AccessConfig) result" where
  "LoadAccessConfig scan casefold parse file =
     (case file of
        None \<Rightarrow> Inl ErrOpen
      | Some content \<Rightarrow>
          let raw = take 16385 content in
          if length raw > 16384 then Inl ErrTooBig
          else (let t = scan raw in
            case jt_values t of
              [] \<Rightarrow> Inl ErrNotObject
            | v # vs \<Rightarrow>
                (case v of
                   JObj ms \<Rightarrow>
                     if \<not> top_keys [] ms then Inl ErrDuplicate
                     else (case decode_struct casefold config_fields empty_config v of
                             None \<Rightarrow> Inl ErrDecode
                           | Some c \<Rightarrow>
                               if vs \<noteq> [] \<or> jt_rest t \<noteq> [] \<or> \<not> jt_eof t then Inl ErrTrailing
                               else validate parse c)
                 | _ \<Rightarrow> Inl ErrNotObject)))"

section \<open>The policy revision\<close>

text \<open>\<^verbatim>\<open>json.Marshal\<close> of the struct with fields \<^verbatim>\<open>Mode\<close> and \<^verbatim>\<open>Groups\<close>; the two modes need no
  escapes.\<close>

definition policy_json :: "AccessConfig \<Rightarrow> string" where
  "policy_json c =
     ''{\"Mode\":\"'' @ Mode c @ ''\",\"Groups\":'' @
     (case AllowedGroupIDs c of
        None \<Rightarrow> ''null''
      | Some ids \<Rightarrow> ''['' @ join_with '','' (map itoa ids) @ '']'') @ ''}''"

definition policy_revision :: "(byte list \<Rightarrow> byte list) \<Rightarrow> AccessConfig \<Rightarrow> string" where
  "policy_revision sha256 c = hex_encode (sha256 (to_bytes (policy_json c)))"

text \<open>The start of \<^verbatim>\<open>newAccessPolicy\<close>: the default mode, validation, the revision.\<close>

definition policy_config ::
  "(string \<Rightarrow> url option) \<Rightarrow> (byte list \<Rightarrow> byte list) \<Rightarrow> AccessConfig
     \<Rightarrow> (cfg_err, AccessConfig \<times> string) result" where
  "policy_config parse sha256 c =
     (let c = (if Mode c = '''' then c\<lparr>Mode := ''public''\<rparr> else c) in
      case validate parse c of
        Inl e \<Rightarrow> Inl e
      | Inr c' \<Rightarrow> Inr (c', policy_revision sha256 c'))"

section \<open>Lemmas\<close>

lemma check_ids_iff:
  "check_ids ids seen = Some out \<longleftrightarrow>
     out = rev ids @ seen \<and> distinct ids \<and> set ids \<inter> set seen = {} \<and> (\<forall>i \<in> set ids. 0 < i)"
proof (induction ids arbitrary: seen out)
  case Nil
  then show ?case by auto
next
  case (Cons i ids)
  show ?case
  proof (cases "i \<le> 0 \<or> i \<in> set seen")
    case True
    then show ?thesis by auto
  next
    case False
    then show ?thesis using Cons.IH [of "i # seen" out] by auto
  qed
qed

text \<open>When one Core URL is acceptable, in the words of the documentation: HTTPS except for a
  local host, and no user, query or fragment.\<close>

definition good_url :: "url \<Rightarrow> bool" where
  "good_url u \<longleftrightarrow>
     u_hostname u \<noteq> '''' \<and> \<not> u_user u \<and> u_rawquery u = '''' \<and> u_fragment u = ''''
     \<and> (u_scheme u = ''https'' \<or> (u_scheme u = ''http'' \<and> local_host (u_hostname u)))"

lemma check_base_iff:
  "check_base parse b = Inr b' \<longleftrightarrow>
     (\<exists>u. parse b = Some u \<and> good_url u) \<and> b' = trim_right CHR ''/'' b"
  by (auto simp: check_base_def good_url_def split: option.splits if_splits)

lemma check_bases_iff:
  "check_bases parse bs = Inr out \<longleftrightarrow>
     (\<forall>b \<in> set bs. \<exists>u. parse b = Some u \<and> good_url u) \<and> out = map (trim_right CHR ''/'') bs"
proof (induction bs arbitrary: out)
  case Nil
  then show ?case by auto
next
  case (Cons b bs)
  show ?case
  proof (cases "check_base parse b")
    case (Inl e)
    then show ?thesis using check_base_iff [of parse b] by auto
  next
    case (Inr b')
    then show ?thesis using check_base_iff [of parse b b'] Cons.IH
      by (auto split: sum.splits) blast
  qed
qed

text \<open>The configurations the operator may write.\<close>

definition good_config :: "(string \<Rightarrow> url option) \<Rightarrow> AccessConfig \<Rightarrow> bool" where
  "good_config parse c \<longleftrightarrow>
     (Mode c = ''public'' \<and> group_ids c = []
      \<or> Mode c = ''groups'' \<and> 1 \<le> length (group_ids c) \<and> length (group_ids c) \<le> 16
          \<and> 1 \<le> length (CoreURLBases c))
     \<and> distinct (group_ids c) \<and> (\<forall>i \<in> set (group_ids c). 0 < i)
     \<and> length (CoreURLBases c) \<le> 8
     \<and> (\<forall>b \<in> set (CoreURLBases c). \<exists>u. parse b = Some u \<and> good_url u)"

lemma validate_iff:
  "validate parse c = Inr c' \<longleftrightarrow>
     good_config parse c
     \<and> c' = c\<lparr>CoreURLBases := map (trim_right CHR ''/'') (CoreURLBases c),
              AllowedGroupIDs := map_option sort (AllowedGroupIDs c)\<rparr>"
proof (cases "check_ids (group_ids c) []")
  case None
  then have bad: "\<not> (distinct (group_ids c) \<and> (\<forall>i \<in> set (group_ids c). 0 < i))"
    using check_ids_iff [of "group_ids c" "[]" "rev (group_ids c)"] by auto
  with None show ?thesis by (auto simp: validate_def good_config_def)
next
  case (Some seen)
  then have ok: "distinct (group_ids c)" "\<forall>i \<in> set (group_ids c). 0 < i"
    and len: "length seen = length (group_ids c)"
    using check_ids_iff [of "group_ids c" "[]" seen] by auto
  show ?thesis
  proof (cases "check_bases parse (CoreURLBases c)")
    case (Inl e)
    then have "\<not> (\<forall>b \<in> set (CoreURLBases c). \<exists>u. parse b = Some u \<and> good_url u)"
      using check_bases_iff [of parse "CoreURLBases c"] by auto
    with Some Inl show ?thesis by (auto simp: validate_def good_config_def)
  next
    case (Inr bases)
    then have "\<forall>b \<in> set (CoreURLBases c). \<exists>u. parse b = Some u \<and> good_url u"
      and "bases = map (trim_right CHR ''/'') (CoreURLBases c)"
      using check_bases_iff [of parse "CoreURLBases c" bases] by auto
    with Some Inr ok len show ?thesis
      by (auto simp: validate_def good_config_def Suc_le_eq)
  qed
qed

lemma top_keys_iff: "top_keys seen ms \<longleftrightarrow> distinct (map fst ms) \<and> set (map fst ms) \<inter> set seen = {}"
  by (induction seen ms rule: top_keys.induct) auto

text \<open>
  What \<open>validate\<close> leaves of a configuration: the groups sorted, the URLs without trailing
  slashes.
\<close>

definition normalised :: "AccessConfig \<Rightarrow> AccessConfig" where
  "normalised c = c\<lparr>CoreURLBases := map (trim_right CHR ''/'') (CoreURLBases c),
                     AllowedGroupIDs := map_option sort (AllowedGroupIDs c)\<rparr>"

lemma validate_normalised: "validate parse c = Inr c' \<longleftrightarrow> good_config parse c \<and> c' = normalised c"
  by (simp add: validate_iff normalised_def)

lemma group_ids_normalised [simp]: "group_ids (normalised c) = sort (group_ids c)"
  by (simp add: normalised_def group_ids_def split: option.splits)

lemma Mode_normalised [simp]: "Mode (normalised c) = Mode c"
  by (simp add: normalised_def)

lemma policy_json_groups:
  "Mode c = ''groups'' \<Longrightarrow> group_ids c \<noteq> [] \<Longrightarrow>
     policy_json c = ''{\"Mode\":\"groups\",\"Groups\":['' @ join_with '','' (map itoa (group_ids c)) @ '']}''"
  by (auto simp: policy_json_def group_ids_def split: option.splits)

lemma policy_json_inj:
  assumes "policy_json a = policy_json b"
    and "Mode a = ''groups''" "Mode b = ''groups''" "group_ids a \<noteq> []" "group_ids b \<noteq> []"
  shows "group_ids a = group_ids b"
proof -
  have "join_with '','' (map itoa (group_ids a)) = join_with '','' (map itoa (group_ids b))"
    using assms by (simp add: policy_json_groups)
  then have "map itoa (group_ids a) = map itoa (group_ids b)"
    using assms(4,5) by (intro join_with_inj) auto
  then show ?thesis by (simp add: inj_map_eq_map inj_def)
qed

section \<open>Properties\<close>

text \<open>
  \<^verbatim>\<open>LoadAccessConfig\<close> returns a configuration exactly for a file of at most 16 KiB that is one
  JSON object and nothing else, has no repeated key, decodes into the struct without
  unknown fields, and satisfies the documented policy rules (groups mode: 1 to 16 distinct
  positive IDs and at least one Core URL; public mode: no groups; at most eight Core URLs,
  HTTPS except for a local host); the returned configuration has its groups sorted and the
  trailing slashes of its URLs removed. Every other file is refused.
\<close>
theorem LoadAccessConfig_accepts:
  "LoadAccessConfig scan casefold parse src = Inr c \<longleftrightarrow>
     (\<exists>content ms c0.
        src = Some content \<and> length content \<le> 16384
        \<and> scan content = \<lparr>jt_values = [JObj ms], jt_rest = [], jt_eof = True\<rparr>
        \<and> distinct (map fst ms)
        \<and> decode_members casefold config_fields ms empty_config = Some c0
        \<and> good_config parse c0 \<and> c = normalised c0)"
proof (cases src)
  case None
  then show ?thesis by (simp add: LoadAccessConfig_def)
next
  case (Some content)
  show ?thesis
  proof (cases "length content \<le> 16384")
    case False
    with Some show ?thesis by (simp add: LoadAccessConfig_def)
  next
    case True
    then have "take 16385 content = content" by simp
    with True Some show ?thesis
      by (cases "scan content")
        (auto simp: LoadAccessConfig_def top_keys_iff validate_normalised Let_def
           split: list.splits json.splits option.splits if_splits)
  qed
qed

text \<open>
  the text that is hashed into the policy revision names exactly the set of allowed
  groups: two configurations in groups mode that the relay accepts have the same revision
  input if and only if they allow the same groups, in whatever order the operator wrote them.
\<close>
theorem revision_identifies_groups:
  assumes "validate parse a = Inr a'" and "validate parse b = Inr b'"
    and "Mode a = ''groups''" and "Mode b = ''groups''"
  shows "policy_json a' = policy_json b' \<longleftrightarrow> set (group_ids a) = set (group_ids b)"
proof -
  have good: "good_config parse a" "good_config parse b" and norm: "a' = normalised a" "b' = normalised b"
    using assms(1,2) by (simp_all add: validate_normalised)
  then have ne: "group_ids a' \<noteq> []" "group_ids b' \<noteq> []"
    using assms(3,4) by (auto simp: good_config_def dest!: arg_cong [where f = length])
  have dist: "distinct (group_ids a)" "distinct (group_ids b)"
    using good by (simp_all add: good_config_def)
  have modes: "Mode a' = ''groups''" "Mode b' = ''groups''" using assms(3,4) norm by simp_all
  have "policy_json a' = policy_json b' \<longleftrightarrow> group_ids a' = group_ids b'"
    using policy_json_inj [OF _ modes ne] modes ne by (auto simp: policy_json_groups)
  also have "\<dots> \<longleftrightarrow> set (group_ids a) = set (group_ids b)"
    using norm dist sorted_distinct_set_unique [of "group_ids a'" "group_ids b'"]
    by simp (metis set_sort)
  finally show ?thesis .
qed

abbreviation sample_url :: url where
  "sample_url \<equiv> \<lparr>u_scheme = ''https'', u_hostname = ''ext-node.qortal.link'', u_user = False,
                  u_rawquery = [], u_fragment = []\<rparr>"

abbreviation sample_config :: "int list \<Rightarrow> AccessConfig" where
  "sample_config ids \<equiv> \<lparr>Mode = ''groups'', AllowedGroupIDs = Some ids,
     CoreURLBases = [''https://ext-node.qortal.link/'']\<rparr>"

theorem revision_identifies_groups_witness:
  "policy_json (normalised (sample_config [200, 100])) = policy_json (normalised (sample_config [100, 200]))"
proof -
  have "validate (\<lambda>_. Some sample_url) (sample_config [200, 100]) = Inr (normalised (sample_config [200, 100]))"
    and "validate (\<lambda>_. Some sample_url) (sample_config [100, 200]) = Inr (normalised (sample_config [100, 200]))"
    by (simp_all add: validate_normalised good_config_def good_url_def group_ids_def)
  from revision_identifies_groups [OF this] show ?thesis
    by (auto simp: group_ids_def)
qed

end
