(* ===== verification/Access_Policy.thy ===== *)
theory Access_Policy
  imports Access_Config
begin

text \<open>
  The membership side of \<^verbatim>\<open>internal/relay/access.go\<close>: \<^verbatim>\<open>accessPolicy\<close>, \<^verbatim>\<open>newAccessPolicy\<close>,
  \<^verbatim>\<open>membership\<close>, \<^verbatim>\<open>checkGroups\<close>, \<^verbatim>\<open>checkGroup\<close> and \<^verbatim>\<open>coreFailed\<close>. The Qortal Core endpoints
  are an argument (what a request to a URL returns), and so are the clock readings, the
  order in which the concurrent group lookups answer, the map entry that the eviction loop meets
  first, and what other goroutines do to the policy while this one does not hold its mutex.
\<close>

section \<open>Data\<close>

datatype mem_err = ErrContext | ErrMemCapacity | ErrUnavailable

record membershipResult =
  member :: bool
  checked :: time
  err :: "mem_err option"

text \<open>The result of a failed lookup.\<close>

definition failed_with :: "mem_err \<Rightarrow> membershipResult" where
  "failed_with e = \<lparr>member = False, checked = zero_time, err = Some e\<rparr>"

text \<open>
  The struct. The pending map is the list of addresses with a lookup in flight (its channels only
  wake the waiters); the ticket authority and the HTTP client are not part of it.
\<close>

record accessPolicy =
  config :: AccessConfig
  revision :: string
  pin :: string
  cache :: "(string, membershipResult) gomap"
  pending :: "string list"
  coreFailures :: "(string, time) gomap"
  connections :: "(string, int) gomap"
  connectionCount :: int

definition newAccessPolicy ::
  "(string \<Rightarrow> url option) \<Rightarrow> (byte list \<Rightarrow> byte list) \<Rightarrow> AccessConfig \<Rightarrow> string
     \<Rightarrow> (cfg_err, accessPolicy) result" where
  "newAccessPolicy parse sha256 c pn =
     (case policy_config parse sha256 c of
        Inl e \<Rightarrow> Inl e
      | Inr (c', rv) \<Rightarrow>
          Inr \<lparr>config = c', revision = rv, pin = pn, cache = [], pending = [], coreFailures = [],
               connections = [], connectionCount = 0\<rparr>)"

section \<open>One group\<close>

text \<open>
  What one request comes to: the context ends while waiting for a slot, the request cannot be
  built, the client returns an error (with the context cancelled or not), or a response with its
  status, body and whether reading the body failed.
\<close>

datatype answer =
    NoSlot
  | BadRequest
  | ClientErr bool
  | Response int string bool

text \<open>A request is its URL and its body.\<close>

record core =
  ask :: "string \<Rightarrow> string \<Rightarrow> answer"
  started_at :: "string \<Rightarrow> time"
  failed_at :: "string \<Rightarrow> time"
  scan_body :: "string \<Rightarrow> json_text"
  fold_case :: "string \<Rightarrow> string"

text \<open>Rows of the answer: \<^verbatim>\<open>json.Unmarshal\<close> skips unknown members.\<close>

record row =
  Address :: string
  IsMember :: "bool option"

fun set_bool_ptr :: "json \<Rightarrow> row \<Rightarrow> row option" where
  "set_bool_ptr (JBool b) r = Some (r\<lparr>IsMember := Some b\<rparr>)"
| "set_bool_ptr JNull r = Some (r\<lparr>IsMember := None\<rparr>)"
| "set_bool_ptr _ r = None"

definition row_fields :: "row fields" where
  "row_fields = [(''address'', set_string (\<lambda>x r. r\<lparr>Address := x\<rparr>)), (''isMember'', set_bool_ptr)]"

fun decode_lax ::
  "(string \<Rightarrow> string) \<Rightarrow> 's fields \<Rightarrow> (string \<times> json) list \<Rightarrow> 's \<Rightarrow> 's option" where
  "decode_lax casefold fs [] s = Some s"
| "decode_lax casefold fs ((k, v) # ms) s =
     (case find_field casefold fs k of
        None \<Rightarrow> decode_lax casefold fs ms s
      | Some f \<Rightarrow> (case f v s of None \<Rightarrow> None | Some s' \<Rightarrow> decode_lax casefold fs ms s'))"

fun row_elem :: "(string \<Rightarrow> string) \<Rightarrow> json \<Rightarrow> row option" where
  "row_elem casefold (JObj ms) = decode_lax casefold row_fields ms \<lparr>Address = [], IsMember = None\<rparr>"
| "row_elem casefold JNull = Some \<lparr>Address = [], IsMember = None\<rparr>"
| "row_elem casefold _ = None"

text \<open>\<^verbatim>\<open>json.Unmarshal(raw, &rows)\<close>: exactly one value, an array (or null) of rows.\<close>

definition unmarshal_rows :: "(string \<Rightarrow> string) \<Rightarrow> json_text \<Rightarrow> row list option" where
  "unmarshal_rows casefold t =
     (if jt_rest t = [] \<and> jt_eof t then
        (case jt_values t of
           [JArr vs] \<Rightarrow> decode_elems (row_elem casefold) vs
         | [JNull] \<Rightarrow> Some []
         | _ \<Rightarrow> None)
      else None)"

text \<open>The checks on a response: the membership bit when it is usable.\<close>

definition read_answer :: "core \<Rightarrow> string \<Rightarrow> int \<Rightarrow> string \<Rightarrow> bool \<Rightarrow> bool option" where
  "read_answer C address status body readErr =
     (let raw = take 8193 body in
      if readErr \<or> length raw > 8192 \<or> status \<noteq> 200 then None
      else (case unmarshal_rows (fold_case C) (scan_body C raw) of
              None \<Rightarrow> None
            | Some rows \<Rightarrow>
                (case rows of
                   [r] \<Rightarrow> if Address r \<noteq> address then None else IsMember r
                 | _ \<Rightarrow> None)))"

definition coreFailed :: "core \<Rightarrow> string \<Rightarrow> (string, time) gomap \<Rightarrow> (string, time) gomap" where
  "coreFailed C base m = set_map base (failed_at C base + 5 * second) m"

text \<open>\<^verbatim>\<open>fmt.Sprintf("%s/groups/members/%d/validate", base, id)\<close>\<close>

definition member_url :: "string \<Rightarrow> int \<Rightarrow> string" where
  "member_url base gid = base @ ''/groups/members/'' @ itoa gid @ ''/validate''"

text \<open>The loop over the endpoints; it also returns the map of failures.\<close>

fun try_bases ::
  "core \<Rightarrow> string \<Rightarrow> int \<Rightarrow> string list \<Rightarrow> (string, time) gomap
     \<Rightarrow> membershipResult \<times> (string, time) gomap" where
  "try_bases C address gid [] m = (failed_with ErrUnavailable, m)"
| "try_bases C address gid (base # bs) m =
     (case ask C (member_url base gid) (json_strings [address]) of
        NoSlot \<Rightarrow> (failed_with ErrContext, m)
      | BadRequest \<Rightarrow> try_bases C address gid bs (coreFailed C base m)
      | ClientErr cancelled \<Rightarrow>
          try_bases C address gid bs (if cancelled then m else coreFailed C base m)
      | Response status body readErr \<Rightarrow>
          (case read_answer C address status body readErr of
             None \<Rightarrow> try_bases C address gid bs (coreFailed C base m)
           | Some b \<Rightarrow> (\<lparr>member = b, checked = started_at C (member_url base gid), err = None\<rparr>, m)))"

text \<open>The endpoints to try: those not failed within their hold-off, or all when none is left. A
  base that never failed has the zero time.\<close>

definition healthy :: "(string \<Rightarrow> time) \<Rightarrow> string list \<Rightarrow> (string, time) gomap \<Rightarrow> string list" where
  "healthy now bases m =
     filter (\<lambda>b. \<not> now b < (case get_map m b of None \<Rightarrow> zero_time | Some t \<Rightarrow> t)) bases"

definition checkGroup ::
  "core \<Rightarrow> (string \<Rightarrow> time) \<Rightarrow> AccessConfig \<Rightarrow> string \<Rightarrow> int \<Rightarrow> (string, time) gomap
     \<Rightarrow> membershipResult \<times> (string, time) gomap" where
  "checkGroup C now c address gid m =
     (let bases = healthy now (CoreURLBases c) m in
      try_bases C address gid (if bases = [] then CoreURLBases c else bases) m)"

section \<open>All groups\<close>

text \<open>
  The surroundings of one \<^verbatim>\<open>checkGroups\<close> call: the endpoints, the clock as each lookup reads it, the
  order in which the results arrive, the lookups cancelled before they start, what happens
  to the failure map before each lookup runs, and the clock at the end.
\<close>

record lookup_env =
  lk_core :: core
  lk_now :: "int \<Rightarrow> string \<Rightarrow> time"
  lk_arrival :: "int list"
  lk_cancel :: "int \<Rightarrow> bool"
  lk_other :: "int \<Rightarrow> (string, time) gomap \<Rightarrow> (string, time) gomap"
  lk_end :: time

fun run_groups ::
  "lookup_env \<Rightarrow> AccessConfig \<Rightarrow> string \<Rightarrow> int list \<Rightarrow> (string, time) gomap
     \<Rightarrow> membershipResult list \<times> (string, time) gomap" where
  "run_groups L c address [] m = ([], m)"
| "run_groups L c address (g # gs) m =
     (let m0 = lk_other L g m;
          (r, m1) = (if lk_cancel L g then (failed_with ErrContext, m0)
                     else checkGroup (lk_core L) (lk_now L g) c address g m0);
          (rs, m2) = run_groups L c address gs m1
      in (r # rs, m2))"

text \<open>The receiving loop.\<close>

fun collect :: "time \<Rightarrow> mem_err option \<Rightarrow> membershipResult list \<Rightarrow> membershipResult" where
  "collect now unresolved [] = \<lparr>member = False, checked = now, err = unresolved\<rparr>"
| "collect now unresolved (r # rs) =
     (if err r \<noteq> None then collect now (err r) rs
      else if member r then r
      else collect now unresolved rs)"

definition checkGroups ::
  "lookup_env \<Rightarrow> AccessConfig \<Rightarrow> string \<Rightarrow> (string, time) gomap
     \<Rightarrow> membershipResult \<times> (string, time) gomap" where
  "checkGroups L c address m =
     (let (rs, m') = run_groups L c address (lk_arrival L) m in (collect (lk_end L) None rs, m'))"

text \<open>Every configured group is asked once, in some order.\<close>

definition all_arrive :: "lookup_env \<Rightarrow> AccessConfig \<Rightarrow> bool" where
  "all_arrive L c \<longleftrightarrow> mset (lk_arrival L) = mset (group_ids c)"

section \<open>The cache and the pending lookups\<close>

datatype entered = Cached membershipResult | Busy | Capacity | Started

text \<open>The first critical section of an iteration of \<^verbatim>\<open>membership\<close>.\<close>

definition membership_enter :: "time \<Rightarrow> accessPolicy \<Rightarrow> string \<Rightarrow> accessPolicy \<times> entered" where
  "membership_enter now p address =
     (case get_map (cache p) address of
        Some r \<Rightarrow>
          if now - checked r < 30 * second then (p, Cached r)
          else if address \<in> set (pending p) then (p, Busy)
          else if length (pending p) \<ge> 128 then (p, Capacity)
          else (p\<lparr>pending := address # pending p\<rparr>, Started)
      | None \<Rightarrow>
          if address \<in> set (pending p) then (p, Busy)
          else if length (pending p) \<ge> 128 then (p, Capacity)
          else (p\<lparr>pending := address # pending p\<rparr>, Started))"

text \<open>
  The eviction: entries at least 30 seconds old, and when that does not help one entry, the
  one the range loop over the map meets first (\<open>pick\<close>).
\<close>

definition evict :: "(string \<Rightarrow> time) \<Rightarrow> nat \<Rightarrow> (string, membershipResult) gomap
    \<Rightarrow> (string, membershipResult) gomap" where
  "evict nows pick m =
     (if length m \<ge> 4096 then
        (let m' = filter (\<lambda>(k, r). \<not> nows k - checked r \<ge> 30 * second) m in
         if length m' \<ge> 4096 then del_map (fst (m' ! (pick mod length m'))) m' else m')
      else m)"

text \<open>The second critical section: store a successful result, forget the pending entry.\<close>

definition membership_leave ::
  "(string \<Rightarrow> time) \<Rightarrow> nat \<Rightarrow> membershipResult \<Rightarrow> accessPolicy \<Rightarrow> string \<Rightarrow> accessPolicy" where
  "membership_leave nows pick r p address =
     (let p' = (if err r = None
                then p\<lparr>cache := set_map address r (evict nows pick (cache p))\<rparr> else p)
      in p'\<lparr>pending := removeAll address (pending p')\<rparr>)"

text \<open>
  The whole call. \<open>waits\<close> holds, for each time it finds a lookup of the same address in flight and
  is woken, what the other goroutines did meanwhile and the clock at the next iteration; when it
  is exhausted the context ended first. \<open>during\<close> is what they do while this call's own lookup
  runs.
\<close>

record member_env =
  me_lookup :: lookup_env
  me_during :: "accessPolicy \<Rightarrow> accessPolicy"
  me_nows :: "string \<Rightarrow> time"
  me_pick :: nat

text \<open>Other goroutines change the maps; no code assigns the configuration, the revision or the pin of a
  policy after it was made.\<close>

definition others :: "(accessPolicy \<Rightarrow> accessPolicy) \<Rightarrow> accessPolicy \<Rightarrow> accessPolicy" where
  "others f p = (f p)\<lparr>config := config p, revision := revision p, pin := pin p\<rparr>"

fun membership ::
  "member_env \<Rightarrow> time \<Rightarrow> ((accessPolicy \<Rightarrow> accessPolicy) \<times> time) list \<Rightarrow> accessPolicy \<Rightarrow> string
     \<Rightarrow> accessPolicy \<times> membershipResult" where
  "membership E now waits p address =
     (case membership_enter now p address of
        (p', Cached r) \<Rightarrow> (p', r)
      | (p', Busy) \<Rightarrow>
          (case waits of
             [] \<Rightarrow> (p', failed_with ErrContext)
           | (f, now') # ws \<Rightarrow> membership E now' ws (others f p') address)
      | (p', Capacity) \<Rightarrow> (p', failed_with ErrMemCapacity)
      | (p', Started) \<Rightarrow>
          (let (r, m) = checkGroups (me_lookup E) (config p') address (coreFailures p');
               p2 = others (me_during E) (p'\<lparr>coreFailures := m\<rparr>)
           in (membership_leave (me_nows E) (me_pick E) r p2 address, r)))"

declare membership.simps [simp del]

lemma others_frame [simp]:
  "config (others f p) = config p" "revision (others f p) = revision p" "pin (others f p) = pin p"
  by (simp_all add: others_def)

section \<open>What a membership answer rests on\<close>

text \<open>An endpoint gave a usable answer about this address and group.\<close>

definition vouches :: "core \<Rightarrow> AccessConfig \<Rightarrow> string \<Rightarrow> int \<Rightarrow> bool \<Rightarrow> bool" where
  "vouches C c address gid b \<longleftrightarrow>
     (\<exists>base \<in> set (CoreURLBases c). \<exists>status body readErr.
        ask C (member_url base gid) (json_strings [address]) = Response status body readErr
        \<and> read_answer C address status body readErr = Some b)"

lemma try_bases_sound:
  assumes "try_bases C address gid bs m = (r, m')" and "err r = None" and "set bs \<subseteq> set (CoreURLBases c)"
  shows "vouches C c address gid (member r)"
  using assms
proof (induction bs arbitrary: m)
  case Nil
  then show ?case by (auto simp: failed_with_def)
next
  case (Cons base bs)
  show ?case
  proof (cases "ask C (member_url base gid) (json_strings [address])")
    case NoSlot
    with Cons show ?thesis by (auto simp: failed_with_def)
  next
    case BadRequest
    with Cons show ?thesis by auto
  next
    case (ClientErr b)
    with Cons show ?thesis by auto
  next
    case (Response st body re)
    show ?thesis
    proof (cases "read_answer C address st body re")
      case None
      with Response Cons show ?thesis by auto
    next
      case (Some b)
      with Response Cons.prems show ?thesis by (fastforce simp: vouches_def)
    qed
  qed
qed

lemma try_bases_err: "try_bases C address gid bs m = (r, m') \<Longrightarrow> err r \<noteq> None \<Longrightarrow> \<not> member r"
  by (induction bs arbitrary: m)
     (auto simp: failed_with_def split: answer.splits option.splits)

lemma healthy_sub: "set (healthy now bs m) \<subseteq> set bs"
  by (auto simp: healthy_def)

lemma checkGroup_sound:
  assumes "checkGroup C now c address gid m = (r, m')" and "err r = None"
  shows "vouches C c address gid (member r)"
  using assms try_bases_sound [where bs = "if healthy now (CoreURLBases c) m = [] then CoreURLBases c
      else healthy now (CoreURLBases c) m" and c = c] healthy_sub [of now "CoreURLBases c" m]
  by (auto simp: checkGroup_def Let_def split: if_splits)

text \<open>The results that arrive, one per group.\<close>

lemma run_groups_sound:
  "run_groups L c address gs m = (rs, m') \<Longrightarrow>
     list_all2 (\<lambda>g r. err r = None \<longrightarrow> vouches (lk_core L) c address g (member r)) gs rs"
proof (induction gs arbitrary: m rs m')
  case Nil
  then show ?case by simp
next
  case (Cons g gs)
  then show ?case
    by (auto simp: Let_def failed_with_def split: prod.splits if_splits dest: checkGroup_sound)
qed

lemma collect_member:
  "member (collect now u rs) \<longleftrightarrow> (\<exists>r \<in> set rs. err r = None \<and> member r)"
  by (induction rs arbitrary: u) auto

lemma collect_err:
  "err (collect now u rs) = None \<longleftrightarrow>
     (\<exists>r \<in> set rs. err r = None \<and> member r) \<or> (u = None \<and> (\<forall>r \<in> set rs. err r = None))"
  by (induction rs arbitrary: u) auto

lemma collect_checked:
  "member (collect now u rs) \<Longrightarrow> collect now u rs \<in> set rs"
  by (induction rs arbitrary: u) (simp_all split: if_splits)

text \<open>C18: A membership verdict is backed by the Core endpoints. When a check of all groups
  ends without an error, an admission rests on a usable answer that the address is a member of one of
  the configured groups, and a refusal rests on usable negative answers for every configured
  group: an outage never turns into either.\<close>

theorem checkGroups_backed:
  assumes "all_arrive L c" and "checkGroups L c address m = (r, m')" and "err r = None"
  shows "if member r then \<exists>g \<in> set (group_ids c). vouches (lk_core L) c address g True
         else \<forall>g \<in> set (group_ids c). vouches (lk_core L) c address g False"
proof -
  obtain rs where run: "run_groups L c address (lk_arrival L) m = (rs, m')"
    and r: "r = collect (lk_end L) None rs"
    using assms(2) by (auto simp: checkGroups_def split: prod.splits)
  have all: "list_all2 (\<lambda>g r. err r = None \<longrightarrow> vouches (lk_core L) c address g (member r)) (lk_arrival L) rs"
    using run_groups_sound [OF run] .
  have groups: "set (lk_arrival L) = set (group_ids c)"
    using assms(1) by (auto simp: all_arrive_def dest: mset_eq_setD)
  have len: "length (lk_arrival L) = length rs" using all by (rule list_all2_lengthD)
  have each: "vouches (lk_core L) c address (lk_arrival L ! i) (member (rs ! i))"
    if "i < length rs" "err (rs ! i) = None" for i
    using list_all2_nthD2 [OF all that(1)] that(2) by simp
  show ?thesis
  proof (cases "member r")
    case True
    then obtain i where i: "i < length rs" "err (rs ! i) = None" "member (rs ! i)"
      using collect_member [of "lk_end L" None rs] r by (metis in_set_conv_nth)
    then have "lk_arrival L ! i \<in> set (group_ids c)" using groups len by (metis nth_mem)
    then show ?thesis using True each [OF i(1,2)] i(3) by auto
  next
    case False
    then have no: "\<forall>q \<in> set rs. err q = None \<and> \<not> member q"
      using assms(3) collect_err [of "lk_end L" None rs] collect_member [of "lk_end L" None rs] r by auto
    have "vouches (lk_core L) c address g False" if "g \<in> set (group_ids c)" for g
    proof -
      from that have "g \<in> set (lk_arrival L)" by (simp add: groups)
      then obtain i where i: "i < length rs" "lk_arrival L ! i = g"
        unfolding in_set_conv_nth len by auto
      then show ?thesis using each [of i] no nth_mem [of i rs] by simp
    qed
    then show ?thesis using False by simp
  qed
qed

text \<open>A configuration with two groups and one endpoint, which fails for one of them and reports the
  address as a member of the other.\<close>

definition demo_config :: AccessConfig where
  "demo_config = \<lparr>Mode = ''groups'', AllowedGroupIDs = Some [3, 7], CoreURLBases = [''http://localhost'']\<rparr>"

definition demo_text :: json_text where
  "demo_text =
     \<lparr>jt_values = [JArr [JObj [(''address'', JStr ''QA''), (''isMember'', JBool True)]]], jt_rest = [], jt_eof = True\<rparr>"

definition demo_core :: core where
  "demo_core =
     \<lparr>ask = (\<lambda>u b. if u = member_url ''http://localhost'' 7 then Response 200 ''x'' False else ClientErr False),
      started_at = (\<lambda>u. 1000), failed_at = (\<lambda>b. 2000), scan_body = (\<lambda>s. demo_text), fold_case = id\<rparr>"

definition demo_lookup :: lookup_env where
  "demo_lookup =
     \<lparr>lk_core = demo_core, lk_now = (\<lambda>g b. 500), lk_arrival = [7, 3], lk_cancel = (\<lambda>g. False),
      lk_other = (\<lambda>g m. m), lk_end = 5000\<rparr>"

lemma demo_answer: "read_answer demo_core ''QA'' 200 ''x'' False = Some True"
  by (simp add: read_answer_def demo_core_def demo_text_def unmarshal_rows_def row_fields_def find_field_def)

lemma member_url_inj [simp]: "member_url b g = member_url b g' \<longleftrightarrow> g = g'"
  by (simp add: member_url_def)

lemma demo_group:
  "checkGroup demo_core now demo_config ''QA'' 7 m = (\<lparr>member = True, checked = 1000, err = None\<rparr>, m)"
  "err (fst (checkGroup demo_core now demo_config ''QA'' 3 m)) \<noteq> None"
  using demo_answer
  by (simp_all add: checkGroup_def healthy_def demo_config_def demo_core_def failed_with_def Let_def)

lemma demo_check:
  "fst (checkGroups demo_lookup demo_config ''QA'' []) = \<lparr>member = True, checked = 1000, err = None\<rparr>"
  by (simp add: checkGroups_def demo_lookup_def demo_group Let_def split: prod.splits)

theorem checkGroups_backed_witness:
  "\<exists>g \<in> set (group_ids demo_config). vouches (lk_core demo_lookup) demo_config ''QA'' g True"
proof -
  obtain r m' where run: "checkGroups demo_lookup demo_config ''QA'' [] = (r, m')" by fastforce
  have r: "r = \<lparr>member = True, checked = 1000, err = None\<rparr>" using demo_check run by simp
  have "all_arrive demo_lookup demo_config"
    by (simp add: all_arrive_def demo_lookup_def demo_config_def group_ids_def)
  from checkGroups_backed [OF this run] show ?thesis by (simp add: r)
qed

text \<open>The order in which the concurrent group lookups answer does not matter: two arrival orders
  of the same results agree on whether the user is a member and on whether the check
  failed.\<close>

theorem collect_order_irrelevant:
  assumes "mset rs = mset rs'"
  shows "member (collect now None rs) = member (collect now' None rs')
    \<and> (err (collect now None rs) = None) = (err (collect now' None rs') = None)"
  using mset_eq_setD [OF assms] by (simp add: collect_member collect_err)

theorem collect_order_irrelevant_witness:
  "member (collect 9 None [failed_with ErrUnavailable, \<lparr>member = True, checked = 4, err = None\<rparr>])
   = member (collect 8 None [\<lparr>member = True, checked = 4, err = None\<rparr>, failed_with ErrUnavailable])"
  by (rule conjunct1 [OF collect_order_irrelevant]) simp

section \<open>Interleavings of membership calls\<close>

text \<open>
  Any number of goroutines call \<^verbatim>\<open>membership\<close>. Their critical sections are the steps; the log
  collects the finished lookups as pairs of address and result.
\<close>

inductive pol_run :: "accessPolicy \<Rightarrow> accessPolicy \<Rightarrow> (string \<times> membershipResult) set \<Rightarrow> bool"
  for p0 where
  start: "pol_run p0 p0 {}"
| enter: "pol_run p0 p log \<Longrightarrow> membership_enter now p a = (p', x) \<Longrightarrow> pol_run p0 p' log"
| leave: "pol_run p0 p log \<Longrightarrow> a \<in> set (pending p) \<Longrightarrow>
            pol_run p0 (membership_leave nows pick r p a) (insert (a, r) log)"
| failed: "pol_run p0 p log \<Longrightarrow> pol_run p0 (p\<lparr>coreFailures := coreFailed C base (coreFailures p)\<rparr>) log"

definition pol_inv :: "accessPolicy \<Rightarrow> (string \<times> membershipResult) set \<Rightarrow> bool" where
  "pol_inv p log \<longleftrightarrow>
     wf_map (cache p) \<and> length (cache p) \<le> 4096 \<and> distinct (pending p) \<and> length (pending p) \<le> 128
     \<and> (\<forall>(a, r) \<in> set (cache p). err r = None \<and> (a, r) \<in> log)"

lemma enter_cases:
  assumes "membership_enter now p a = (p', x)"
  shows "(p' = p \<and> x \<noteq> Started)
    \<or> (x = Started \<and> p' = p\<lparr>pending := a # pending p\<rparr> \<and> a \<notin> set (pending p) \<and> length (pending p) < 128)"
  using assms by (auto simp: membership_enter_def split: option.splits if_splits)

lemma enter_frame:
  assumes "membership_enter now p a = (p', x)"
  shows "config p' = config p" and "revision p' = revision p" and "pin p' = pin p"
  using enter_cases [OF assms] by auto

lemma leave_frame [simp]:
  "config (membership_leave nows pick r p a) = config p"
  "revision (membership_leave nows pick r p a) = revision p"
  "pin (membership_leave nows pick r p a) = pin p"
  by (simp_all add: membership_leave_def Let_def)

lemma membership_done:
  assumes "membership_enter now p a = (q, x)" and "x \<noteq> Busy"
  shows "membership E now ws p a =
    (case x of
       Cached r \<Rightarrow> (q, r)
     | Capacity \<Rightarrow> (q, failed_with ErrMemCapacity)
     | _ \<Rightarrow> (let (r, m) = checkGroups (me_lookup E) (config q) a (coreFailures q)
            in (membership_leave (me_nows E) (me_pick E) r (others (me_during E) (q\<lparr>coreFailures := m\<rparr>)) a, r)))"
  using assms by (subst membership.simps) (simp split: entered.splits prod.splits)

lemma membership_wait:
  assumes "membership_enter now p a = (q, Busy)"
  shows "membership E now [] p a = (q, failed_with ErrContext)"
    and "membership E now ((f, now') # ws) p a = membership E now' ws (others f q) a"
  using assms by (subst membership.simps, simp)+

lemma membership_frame:
  "membership E now ws p a = (p', r) \<Longrightarrow> config p' = config p \<and> revision p' = revision p \<and> pin p' = pin p"
proof (induction ws arbitrary: now p)
  case Nil
  obtain q x where q: "membership_enter now p a = (q, x)" by fastforce
  then show ?case
    using Nil enter_frame [OF q] membership_wait(1) [of now p a q E] membership_done [OF q, of E "[]"]
    by (cases x) (auto simp: Let_def split: prod.splits)
next
  case (Cons w ws)
  obtain f now' where w: "w = (f, now')" by fastforce
  obtain q x where q: "membership_enter now p a = (q, x)" by fastforce
  show ?case
  proof (cases "x = Busy")
    case True
    then show ?thesis
      using Cons.IH [of now' "others f q"] Cons.prems q membership_wait(2) [of now p a q E f now' ws]
        enter_frame [OF q] by (simp add: w)
  next
    case False
    then show ?thesis
      using Cons.prems enter_frame [OF q] membership_done [OF q False, of E "w # ws"]
      by (cases x) (auto simp: Let_def split: prod.splits)
  qed
qed

lemma evict_sub: "set (evict nows pick m) \<subseteq> set m"
  by (auto simp: evict_def Let_def dest!: set_del_mapD)

lemma wf_evict [inv_intros]: "wf_map m \<Longrightarrow> wf_map (evict nows pick m)"
  by (auto simp: evict_def Let_def intro: wf_del_map wf_filter_map)

lemma length_del_map_member:
  "wf_map m \<Longrightarrow> k \<in> fst ` set m \<Longrightarrow> length (del_map k m) < length m"
  by (auto simp: AList.delete_eq intro!: length_filter_less)

lemma length_evict:
  assumes "wf_map m" and "length m \<le> 4096"
  shows "length (evict nows pick m) < 4096"
proof (cases "length m \<ge> 4096")
  case False
  then show ?thesis by (simp add: evict_def)
next
  case True
  let ?m = "filter (\<lambda>(k, r). \<not> nows k - checked r \<ge> 30 * second) m"
  have le: "length ?m \<le> 4096" using assms(2) length_filter_le [of _ m] by (meson order_trans)
  show ?thesis
  proof (cases "length ?m \<ge> 4096")
    case False
    then show ?thesis using True by (simp add: evict_def Let_def)
  next
    case big: True
    then have "pick mod length ?m < length ?m" by (intro mod_less_divisor) linarith
    then have "fst (?m ! (pick mod length ?m)) \<in> fst ` set ?m" by (intro imageI nth_mem)
    with length_del_map_member [OF wf_filter_map [OF assms(1)]] le
    have "length (del_map (fst (?m ! (pick mod length ?m))) ?m) < 4096" by (meson less_le_trans)
    then show ?thesis using True big by (simp add: evict_def Let_def)
  qed
qed

lemma leave_inv:
  assumes "pol_inv p log"
  shows "pol_inv (membership_leave nows pick r p a) (insert (a, r) log)"
proof -
  let ?c = "evict nows pick (cache p)"
  have wf: "wf_map ?c" and len: "length ?c < 4096"
    using assms length_evict [of "cache p"] by (auto simp: pol_inv_def intro: wf_evict)
  have "length (set_map a r ?c) \<le> 4096" using length_set_map_le [of a r ?c] len by linarith
  moreover have "(b, q) \<in> set (set_map a r ?c) \<Longrightarrow> (b = a \<and> q = r) \<or> (b, q) \<in> set (cache p)" for b q
    using evict_sub [of nows pick "cache p"] set_set_mapD [OF _ wf, of b q a r] by blast
  moreover have "length (removeAll a (pending p)) \<le> 128"
    using assms by (auto simp: pol_inv_def removeAll_filter_not_eq intro: order_trans [OF length_filter_le])
  ultimately show ?thesis
    using assms wf by (fastforce simp: pol_inv_def membership_leave_def Let_def distinct_removeAll)
qed

lemma pol_run_inv: "pol_run p0 p log \<Longrightarrow> pol_inv p0 {} \<Longrightarrow> pol_inv p log"
proof (induction rule: pol_run.induct)
  case (enter p log now a p' x)
  then show ?case using enter_cases [OF enter.hyps(2)] by (auto simp: pol_inv_def)
next
  case (leave p log a nows pick r)
  then show ?case by (blast intro: leave_inv)
qed (auto simp: pol_inv_def)

lemma new_policy_inv: "newAccessPolicy parse sha256 c pn = Inr p \<Longrightarrow> pol_inv p {}"
  by (auto simp: newAccessPolicy_def pol_inv_def split: sum.splits)

text \<open>However the membership calls of any number of requests interleave, the cache of verdicts
  never exceeds 4096 entries, at most 128 lookups are in flight, and no address has two lookups in
  flight at once.\<close>

theorem membership_bounded:
  assumes "newAccessPolicy parse sha256 c pn = Inr p0" and "pol_run p0 p log"
  shows "length (cache p) \<le> 4096 \<and> length (pending p) \<le> 128 \<and> distinct (pending p)"
  using pol_run_inv [OF assms(2) new_policy_inv [OF assms(1)]] by (simp add: pol_inv_def)

text \<open>C26: A verdict served from the cache is the successful result of a finished check of that very
  address, and it is less than 30 seconds old; failures are never served.\<close>

theorem cached_verdict_fresh:
  assumes "newAccessPolicy parse sha256 c pn = Inr p0" and "pol_run p0 p log"
    and "membership_enter now p a = (p', Cached r)"
  shows "(a, r) \<in> log \<and> err r = None \<and> now - checked r < 30 * second"
proof -
  have inv: "pol_inv p log" using pol_run_inv [OF assms(2) new_policy_inv [OF assms(1)]] .
  have hit: "get_map (cache p) a = Some r" and age: "now - checked r < 30 * second"
    using assms(3) by (auto simp: membership_enter_def split: option.splits if_splits)
  have "(a, r) \<in> set (cache p)" using hit by (rule map_of_SomeD)
  with inv age show ?thesis by (auto simp: pol_inv_def)
qed

text \<open>One lookup that starts, finishes and is then served from the cache.\<close>

definition demo_parse :: "string \<Rightarrow> url option" where
  "demo_parse s =
     Some \<lparr>u_scheme = ''http'', u_hostname = ''localhost'', u_user = False, u_rawquery = [], u_fragment = []\<rparr>"

definition demo_policy :: accessPolicy where
  "demo_policy =
     \<lparr>config = demo_config, revision = policy_revision id demo_config, pin = ''pin'', cache = [],
      pending = [], coreFailures = [], connections = [], connectionCount = 0\<rparr>"

lemma demo_trim: "trim_right CHR ''/'' ''http://localhost'' = ''http://localhost''"
  by (simp add: trim_right_def)

lemma demo_policy_new: "newAccessPolicy demo_parse id demo_config ''pin'' = Inr demo_policy"
  using demo_trim
  by (simp add: newAccessPolicy_def policy_config_def validate_def check_base_def demo_config_def
      demo_parse_def demo_policy_def group_ids_def local_host_def Let_def)

definition demo_verdict :: membershipResult where
  "demo_verdict = \<lparr>member = True, checked = 1000, err = None\<rparr>"

definition demo_served :: accessPolicy where
  "demo_served = demo_policy\<lparr>cache := [(''QA'', demo_verdict)]\<rparr>"

lemma demo_run: "pol_run demo_policy demo_served {(''QA'', demo_verdict)}"
proof -
  let ?p = "demo_policy\<lparr>pending := [''QA'']\<rparr>"
  have "pol_run demo_policy ?p {}"
    by (rule pol_run.enter [OF pol_run.start, where now = 500 and a = "''QA''" and x = Started])
       (simp add: membership_enter_def demo_policy_def)
  from pol_run.leave [OF this, of "''QA''" "\<lambda>k. 2000" 0 demo_verdict]
  show ?thesis
    by (simp add: membership_leave_def demo_served_def demo_policy_def demo_verdict_def evict_def)
qed

theorem membership_bounded_witness:
  "length (cache demo_served) \<le> 4096 \<and> length (pending demo_served) \<le> 128 \<and> distinct (pending demo_served)"
  by (rule membership_bounded [OF demo_policy_new demo_run])

theorem cached_verdict_fresh_witness:
  "(''QA'', demo_verdict) \<in> {(''QA'', demo_verdict)} \<and> err demo_verdict = None
   \<and> 3000 - checked demo_verdict < 30 * second"
proof -
  have "membership_enter 3000 demo_served ''QA'' = (demo_served, Cached demo_verdict)"
    by (simp add: membership_enter_def demo_served_def demo_verdict_def)
  from cached_verdict_fresh [OF demo_policy_new demo_run this] show ?thesis .
qed

end
