(* ===== verification/Base58.thy ===== *)
theory Base58
  imports Go_Std
begin

text \<open>
  The Base58 codec and the address function at the end of \<^verbatim>\<open>internal/relay/access.go\<close>:
  \<^verbatim>\<open>decodeBase58\<close>, \<^verbatim>\<open>encodeBase58\<close> and \<^verbatim>\<open>addressForKey\<close>, over \<^verbatim>\<open>math/big\<close> numbers
  (natural numbers here). SHA-256 and RIPEMD-160 are arguments. The two codecs are inverse to
  each other in both directions, so a key or a signature has exactly one accepted
  spelling, and an address determines the key hash it was made from.
\<close>

section \<open>Big numbers\<close>

text \<open>\<^verbatim>\<open>big.Int.Bytes\<close> (no leading zero byte) and \<^verbatim>\<open>big.Int.SetBytes\<close>.\<close>

fun big_bytes :: "nat \<Rightarrow> byte list" where
  "big_bytes n = (if n = 0 then [] else big_bytes (n div 256) @ [of_nat (n mod 256)])"

declare big_bytes.simps [simp del]

definition set_bytes :: "byte list \<Rightarrow> nat" where
  "set_bytes b = foldl (\<lambda>n x. 256 * n + unat x) 0 b"

section \<open>The codec\<close>

definition base58Alphabet :: string where
  "base58Alphabet = ''123456789ABCDEFGHJKLMNPQRSTUVWXYZabcdefghijkmnopqrstuvwxyz''"

text \<open>The first loop of \<^verbatim>\<open>decodeBase58\<close>: \<^verbatim>\<open>None\<close> when a character is not in the alphabet.\<close>

fun b58_num :: "nat \<Rightarrow> string \<Rightarrow> nat option" where
  "b58_num n [] = Some n"
| "b58_num n (c # s) =
     (case first_index c base58Alphabet of None \<Rightarrow> None | Some i \<Rightarrow> b58_num (n * 58 + i) s)"

text \<open>\<^verbatim>\<open>None\<close> is the nil slice.\<close>

definition decodeBase58 :: "string \<Rightarrow> nat \<Rightarrow> byte list option" where
  "decodeBase58 s sz =
     (if length s > 100 \<or> s = [] then None
      else case b58_num 0 s of
        None \<Rightarrow> None
      | Some n \<Rightarrow>
          let b = replicate (length (takeWhile (\<lambda>c. c = CHR ''1'') s)) 0 @ big_bytes n
          in if length b \<noteq> sz then None else Some b)"

text \<open>The digits \<^verbatim>\<open>encodeBase58\<close> appends, least significant first.\<close>

fun b58_rev :: "nat \<Rightarrow> string" where
  "b58_rev n = (if n = 0 then [] else (base58Alphabet ! (n mod 58)) # b58_rev (n div 58))"

declare b58_rev.simps [simp del]

definition encodeBase58 :: "byte list \<Rightarrow> string" where
  "encodeBase58 b = rev (b58_rev (set_bytes b) @ replicate (length (takeWhile (\<lambda>v. v = 0) b)) CHR ''1'')"

definition addressForKey ::
  "(byte list \<Rightarrow> byte list) \<Rightarrow> (byte list \<Rightarrow> byte list) \<Rightarrow> byte list \<Rightarrow> string" where
  "addressForKey sha256 ripemd160 key =
     (let b = 58 # ripemd160 (sha256 key); check = sha256 (sha256 b)
      in encodeBase58 (b @ take 4 check))"

section \<open>Lemmas on the alphabet\<close>

lemma big_bytes_0 [simp]: "big_bytes 0 = []"
  by (simp add: big_bytes.simps)

lemma b58_rev_0 [simp]: "b58_rev 0 = []"
  by (simp add: b58_rev.simps)

lemma length_alphabet [simp]: "length base58Alphabet = 58"
  by (simp add: base58Alphabet_def)

lemma distinct_alphabet: "distinct base58Alphabet"
  by (simp add: base58Alphabet_def)

lemma first_index_Some: "first_index c s = Some i \<Longrightarrow> i < length s \<and> s ! i = c"
  by (induction s arbitrary: i) (auto split: if_splits)

lemma first_index_nth: "distinct s \<Longrightarrow> i < length s \<Longrightarrow> first_index (s ! i) s = Some i"
proof (induction s arbitrary: i)
  case (Cons x s)
  then show ?case by (cases i) (auto simp: nth_Cons')
qed simp

lemma alphabet_index [simp]: "i < 58 \<Longrightarrow> first_index (base58Alphabet ! i) base58Alphabet = Some i"
  by (simp add: first_index_nth distinct_alphabet)

lemma alphabet_first: "base58Alphabet ! 0 = CHR ''1''"
  by (simp add: base58Alphabet_def)

lemma alphabet_one [simp]: "i < 58 \<Longrightarrow> base58Alphabet ! i = CHR ''1'' \<longleftrightarrow> i = 0"
  by (metis alphabet_first alphabet_index option.inject zero_less_numeral)

section \<open>Bytes of a big number\<close>

lemma set_bytes_snoc [simp]: "set_bytes (b @ [x]) = 256 * set_bytes b + unat x"
  by (simp add: set_bytes_def)

lemma set_bytes_Nil [simp]: "set_bytes [] = 0"
  by (simp add: set_bytes_def)

lemma set_big_bytes [simp]: "set_bytes (big_bytes n) = n"
proof (induction n rule: big_bytes.induct)
  case (1 n)
  show ?case
  proof (cases "n = 0")
    case True
    then show ?thesis by simp
  next
    case False
    with 1 show ?thesis
      by (simp add: big_bytes.simps [of n] unat_of_nat take_bit_eq_mod)
  qed
qed

lemma set_bytes_zeros [simp]: "set_bytes (replicate k 0 @ b) = set_bytes b"
proof (induction b rule: rev_induct)
  case Nil
  show ?case
    by (induction k) (simp_all add: set_bytes_def)
next
  case (snoc x b)
  then show ?case by (simp flip: append_assoc)
qed

lemma big_set_bytes: "b = [] \<or> hd b \<noteq> 0 \<Longrightarrow> big_bytes (set_bytes b) = b"
proof (induction b rule: rev_induct)
  case Nil
  then show ?case by simp
next
  case (snoc x b)
  show ?case
  proof (cases "b = []")
    case True
    with snoc.prems have "unat x \<noteq> 0" by (simp add: unat_eq_0)
    then show ?thesis
      using True unat_byte_less [of x] by (simp add: set_bytes_def big_bytes.simps [of "unat x"])
  next
    case False
    with snoc have ih: "big_bytes (set_bytes b) = b" by simp
    with False have "set_bytes b \<noteq> 0" by (cases "set_bytes b = 0") auto
    then show ?thesis
      using ih unat_byte_less [of x]
      by (simp add: big_bytes.simps [of "256 * set_bytes b + unat x"])
  qed
qed

lemma big_bytes_hd: "big_bytes n \<noteq> [] \<Longrightarrow> hd (big_bytes n) \<noteq> 0"
proof (induction n rule: big_bytes.induct)
  case (1 n)
  have n: "n \<noteq> 0" using "1.prems" by (cases "n = 0") auto
  show ?case
  proof (cases "n div 256 = 0")
    case True
    then have "n < 256" by (simp add: div_eq_0_iff)
    with n True show ?thesis
      by (simp add: big_bytes.simps [of n] flip: unat_eq_0)
        (simp add: unat_of_nat take_bit_eq_mod)
  next
    case False
    then have ne: "big_bytes (n div 256) \<noteq> []" by (simp add: big_bytes.simps [of "n div 256"])
    with n "1.IH" show ?thesis by (simp add: big_bytes.simps [of n])
  qed
qed

section \<open>Digits of a big number\<close>

lemma b58_num_append:
  "b58_num n (a @ b) = (case b58_num n a of None \<Rightarrow> None | Some m \<Rightarrow> b58_num m b)"
  by (induction a arbitrary: n) (auto split: option.splits)

lemma b58_num_ones [simp]: "b58_num 0 (replicate k CHR ''1'' @ s) = b58_num 0 s"
proof (induction k)
  case (Suc k)
  have "first_index CHR ''1'' base58Alphabet = Some 0"
    by (simp add: base58Alphabet_def)
  with Suc show ?case by simp
qed simp

lemma b58_num_rev [simp]: "b58_num 0 (rev (b58_rev n)) = Some n"
proof (induction n rule: b58_rev.induct)
  case (1 n)
  show ?case
  proof (cases "n = 0")
    case True
    then show ?thesis by simp
  next
    case False
    with 1 show ?thesis by (simp add: b58_rev.simps [of n] b58_num_append)
  qed
qed

lemma b58_rev_last: "n \<noteq> 0 \<Longrightarrow> b58_rev n \<noteq> [] \<and> last (b58_rev n) \<noteq> CHR ''1''"
proof (induction n rule: b58_rev.induct)
  case (1 n)
  show ?case
  proof (cases "n div 58 = 0")
    case True
    then have "n < 58" by (simp add: div_eq_0_iff)
    with True "1.prems" show ?thesis by (simp add: b58_rev.simps [of n])
  next
    case False
    with 1 show ?thesis by (simp add: b58_rev.simps [of n])
  qed
qed

lemma b58_rev_num:
  "b58_num 0 r = Some n \<Longrightarrow> r = [] \<or> hd r \<noteq> CHR ''1'' \<Longrightarrow> rev (b58_rev n) = r"
proof (induction r arbitrary: n rule: rev_induct)
  case Nil
  then show ?case by simp
next
  case (snoc c r)
  from snoc.prems(1) obtain m i
    where m: "b58_num 0 r = Some m" and i: "first_index c base58Alphabet = Some i"
      and n: "n = m * 58 + i"
    by (auto simp: b58_num_append split: option.splits)
  from i have i58: "i < 58" and c: "c = base58Alphabet ! i"
    using first_index_Some by fastforce+
  show ?case
  proof (cases "r = []")
    case True
    with snoc.prems(2) c i58 have "i \<noteq> 0" by auto
    with True m n c i58 show ?thesis
      by (simp add: b58_rev.simps [of i])
  next
    case False
    with snoc m have r: "rev (b58_rev m) = r" by simp
    with False have "m \<noteq> 0" by (cases "m = 0") auto
    with n c i58 r show ?thesis by (simp add: b58_rev.simps [of "m * 58 + i"])
  qed
qed

lemma b58_rev_length: "n < 58 ^ m \<Longrightarrow> length (b58_rev n) \<le> m"
proof (induction m arbitrary: n)
  case 0
  then show ?case by simp
next
  case (Suc m)
  then have "n div 58 < 58 ^ m" by (simp add: less_mult_imp_div_less mult.commute)
  with Suc.IH show ?case by (simp add: b58_rev.simps [of n])
qed

lemma set_bytes_less: "set_bytes b < 256 ^ length b"
proof (induction b rule: rev_induct)
  case (snoc x b)
  then have "256 * set_bytes b + 256 \<le> 256 * 256 ^ length b" by simp
  moreover have "unat x < 256" by simp
  ultimately have "256 * set_bytes b + unat x < 256 * 256 ^ length b" by linarith
  then show ?case by simp
qed simp

section \<open>The two directions\<close>

definition zeros :: "byte list \<Rightarrow> nat" where
  "zeros b = length (takeWhile (\<lambda>v. v = 0) b)"

lemma split_leading: "replicate (length (takeWhile (\<lambda>v. v = x) b)) x @ dropWhile (\<lambda>v. v = x) b = b"
  by (induction b) auto

lemma split_zeros: "replicate (zeros b) 0 @ dropWhile (\<lambda>v. v = 0) b = b"
  by (simp add: zeros_def split_leading)

lemma hd_dropWhile_zero: "dropWhile (\<lambda>v. v = (0::byte)) b = [] \<or> hd (dropWhile (\<lambda>v. v = 0) b) \<noteq> 0"
  using hd_dropWhile [of "\<lambda>v. v = (0::byte)" b] by auto

lemma set_bytes_dropWhile: "set_bytes (dropWhile (\<lambda>v. v = 0) b) = set_bytes b"
  using set_bytes_zeros [of "zeros b" "dropWhile (\<lambda>v. v = 0) b"] by (simp add: split_zeros)

lemma encode_split:
  "encodeBase58 b = replicate (zeros b) CHR ''1'' @ rev (b58_rev (set_bytes b))"
  by (simp add: encodeBase58_def zeros_def)

lemma takeWhile_ones:
  "r = [] \<or> hd r \<noteq> x \<Longrightarrow> takeWhile (\<lambda>c. c = x) (replicate k x @ r) = replicate k x"
  by (induction k) (cases r, simp_all)

lemma encode_ones:
  "takeWhile (\<lambda>c. c = CHR ''1'') (encodeBase58 b) = replicate (zeros b) CHR ''1''"
proof -
  have "rev (b58_rev (set_bytes b)) = [] \<or> hd (rev (b58_rev (set_bytes b))) \<noteq> CHR ''1''"
    using b58_rev_last [of "set_bytes b"] by (cases "set_bytes b = 0") (auto simp: hd_rev)
  then show ?thesis by (simp add: encode_split takeWhile_ones)
qed

lemma decode_encode:
  assumes "b \<noteq> []" and "length (encodeBase58 b) \<le> 100"
  shows "decodeBase58 (encodeBase58 b) (length b) = Some b"
proof -
  let ?d = "dropWhile (\<lambda>v. v = 0) b"
  have "big_bytes (set_bytes b) = ?d"
    using big_set_bytes [OF hd_dropWhile_zero [of b]] by (simp add: set_bytes_dropWhile)
  moreover have "encodeBase58 b \<noteq> []"
  proof
    assume "encodeBase58 b = []"
    then have "zeros b = 0" and "set_bytes b = 0"
      using b58_rev_last [of "set_bytes b"] by (auto simp: encode_split)
    with \<open>big_bytes (set_bytes b) = ?d\<close> have "b = []"
      using split_zeros [of b] by simp
    with assms(1) show False by simp
  qed
  moreover have "b58_num 0 (encodeBase58 b) = Some (set_bytes b)"
    by (simp add: encode_split)
  ultimately show ?thesis
    using assms(2) split_zeros [of b] by (simp add: decodeBase58_def encode_ones Let_def)
qed

lemma zeros_big_bytes: "zeros (replicate k 0 @ big_bytes n) = k"
proof -
  have "big_bytes n = [] \<or> hd (big_bytes n) \<noteq> 0" using big_bytes_hd by blast
  then show ?thesis by (simp add: zeros_def takeWhile_ones)
qed

lemma encode_decode:
  assumes "decodeBase58 s sz = Some b"
  shows "encodeBase58 b = s"
proof -
  let ?z = "length (takeWhile (\<lambda>c. c = CHR ''1'') s)"
  let ?r = "dropWhile (\<lambda>c. c = CHR ''1'') s"
  obtain n where n: "b58_num 0 s = Some n" and b: "b = replicate ?z 0 @ big_bytes n"
    using assms by (auto simp: decodeBase58_def Let_def split: if_splits option.splits)
  have s: "replicate ?z CHR ''1'' @ ?r = s" by (rule split_leading)
  then have "b58_num 0 ?r = Some n" using n b58_num_ones [of ?z ?r] by simp
  moreover have "?r = [] \<or> hd ?r \<noteq> CHR ''1''"
    using hd_dropWhile [of "\<lambda>c. c = CHR ''1''" s] by auto
  ultimately have "rev (b58_rev n) = ?r" by (rule b58_rev_num)
  then show ?thesis using s by (simp add: encode_split b zeros_big_bytes)
qed

lemma power_256_58: "(256 :: nat) ^ k \<le> 58 ^ (7 * ((k + 4) div 5))"
proof -
  let ?q = "(k + 4) div 5"
  have "k \<le> 5 * ?q" by linarith
  then have "(256 :: nat) ^ k \<le> 256 ^ (5 * ?q)" by (intro power_increasing) auto
  also have "\<dots> = (256 ^ 5) ^ ?q" by (simp only: power_mult)
  also have "\<dots> \<le> (58 ^ 7) ^ ?q" by (intro power_mono) auto
  also have "\<dots> = 58 ^ (7 * ?q)" by (simp only: power_mult)
  finally show ?thesis .
qed

lemma length_encode:
  assumes "length b \<le> 64"
  shows "length (encodeBase58 b) \<le> 100"
proof -
  let ?d = "dropWhile (\<lambda>v. v = 0) b"
  have len: "zeros b + length ?d = length b"
    using arg_cong [OF split_zeros [of b], of length] by simp
  have "set_bytes b < 256 ^ length ?d"
    using set_bytes_less [of ?d] by (simp add: set_bytes_dropWhile)
  also have "\<dots> \<le> 58 ^ (7 * ((length ?d + 4) div 5))" by (rule power_256_58)
  finally have "length (b58_rev (set_bytes b)) \<le> 7 * ((length ?d + 4) div 5)"
    by (rule b58_rev_length)
  moreover have "zeros b + 7 * ((length ?d + 4) div 5) \<le> 100" using len assms by linarith
  ultimately show ?thesis by (simp add: encode_split)
qed

lemma decode_encode_64: "b \<noteq> [] \<Longrightarrow> length b \<le> 64 \<Longrightarrow> decodeBase58 (encodeBase58 b) (length b) = Some b"
  by (intro decode_encode length_encode)

section \<open>Properties\<close>

lemma decode_length: "decodeBase58 s sz = Some b \<Longrightarrow> length b = sz"
  by (auto simp: decodeBase58_def Let_def split: if_splits option.splits)

text \<open>
  every nonempty byte string of at most 64 bytes (the sizes of public keys, signatures and
  addresses) has exactly one Base58 spelling that \<^verbatim>\<open>decodeBase58\<close> accepts for it, the one \<^verbatim>\<open>encodeBase58\<close> writes, leading
  zero bytes included: the decoder's 100-character limit never refuses it, and no two strings decode to the
  same key or signature. What is accepted has the requested size.
\<close>
theorem base58_roundtrip:
  assumes "b \<noteq> []" and "length b \<le> 64"
  shows "decodeBase58 s sz = Some b \<longleftrightarrow> s = encodeBase58 b \<and> sz = length b"
proof
  assume "decodeBase58 s sz = Some b"
  then show "s = encodeBase58 b \<and> sz = length b" using encode_decode decode_length by metis
next
  assume "s = encodeBase58 b \<and> sz = length b"
  then show "decodeBase58 s sz = Some b" using decode_encode_64 [OF assms] by simp
qed

theorem base58_roundtrip_witness: "decodeBase58 (encodeBase58 [0, 0, 58, 255]) 4 = Some [0, 0, 58, 255]"
  using base58_roundtrip [of "[0, 0, 58, 255]"] by (simp add: eval_nat_numeral)

text \<open>
  an address commits to the key hash: two keys with the same address have the same
  RIPEMD-160 of SHA-256, for hash functions of 32 and 20 bytes.
\<close>
theorem address_determines_hash:
  assumes "\<And>x. length (sha256 x) = 32" and "\<And>x. length (ripemd160 x) = 20"
    and "addressForKey sha256 ripemd160 k1 = addressForKey sha256 ripemd160 k2"
  shows "ripemd160 (sha256 k1) = ripemd160 (sha256 k2)"
proof -
  let ?body = "\<lambda>k. 58 # ripemd160 (sha256 k)"
  let ?b = "\<lambda>k. ?body k @ take 4 (sha256 (sha256 (?body k)))"
  have addr: "addressForKey sha256 ripemd160 k = encodeBase58 (?b k)" for k
    by (simp add: addressForKey_def Let_def)
  have len: "length (?b k) = 25" for k using assms(1,2) by simp
  have rt: "decodeBase58 (encodeBase58 (?b k)) 25 = Some (?b k)" for k
    using decode_encode_64 [of "?b k"] len [of k] by simp
  have "Some (?b k1) = Some (?b k2)" using rt [of k1] rt [of k2] assms(3) addr by metis
  then show ?thesis using assms(2) by simp
qed

abbreviation pad_to :: "nat \<Rightarrow> byte list \<Rightarrow> byte list" where
  "pad_to n x \<equiv> take n (x @ replicate n 0)"

theorem address_determines_hash_witness:
  "addressForKey (pad_to 32) (pad_to 20) [7] = addressForKey (pad_to 32) (pad_to 20) [7, 0]
   \<and> pad_to 20 (pad_to 32 [7]) = pad_to 20 (pad_to 32 [7, 0])"
proof -
  have eq: "addressForKey (pad_to 32) (pad_to 20) [7] = addressForKey (pad_to 32) (pad_to 20) [7, 0]"
    by (simp add: addressForKey_def numeral_eq_Suc)
  moreover have "pad_to 20 (pad_to 32 [7]) = pad_to 20 (pad_to 32 [7, 0])"
    by (rule address_determines_hash [OF _ _ eq]) simp_all
  ultimately show ?thesis by blast
qed

end
