(* ===== verification/Ticket_Store.thy ===== *)
theory Ticket_Store
  imports Go_Std "HOL-Library.RBT"
begin

text \<open>
  The ticket database of \<^verbatim>\<open>internal/relay/tickets.go\<close>. The relay keeps it in bbolt, an ordered
  key/value store that is not part of the repository: its operations are a record that
  every definition takes as an argument, and its documented laws are the locale \<open>bolt_db\<close>
  (read your own write, deletion, a cursor that visits the stored keys in byte order,
  \<^verbatim>\<open>Stats().KeyN\<close> counting them). The count takes the bucket as the transaction found it and the bucket
  as it is now: the laws fix it for an untouched bucket, and leave open how far deletions of the
  running transaction are already counted. The locale is interpreted on red-black trees.

  The transactions are the closures the relay passes to \<^verbatim>\<open>db.Update\<close>: the clock high-water mark
  with the pruning in \<^verbatim>\<open>descriptor\<close>, the issuance quota in \<^verbatim>\<open>handle\<close>, and the spent marker in
  \<^verbatim>\<open>redeem\<close>.
\<close>

section \<open>The store\<close>

record 'b bolt =
  bget :: "'b \<Rightarrow> string \<Rightarrow> string option"
  bput :: "'b \<Rightarrow> string \<Rightarrow> string \<Rightarrow> 'b option"
  bdel :: "'b \<Rightarrow> string \<Rightarrow> 'b option"
  bkeys :: "'b \<Rightarrow> string list"
  bkeyn :: "'b \<Rightarrow> 'b \<Rightarrow> nat"

locale bolt_db =
  fixes B :: "'b bolt"
  assumes get_put: "bput B b k v = Some b' \<Longrightarrow> bget B b' j = (if j = k then Some v else bget B b j)"
    and get_del: "bdel B b k = Some b' \<Longrightarrow> bget B b' j = (if j = k then None else bget B b j)"
    and keys_get: "k \<in> set (bkeys B b) \<longleftrightarrow> bget B b k \<noteq> None"
    and keys_sorted: "sorted (bkeys B b)"
    and keys_distinct: "distinct (bkeys B b)"
    and keyn_same: "bkeyn B b b = length (bkeys B b)"
    and keyn_less: "set (bkeys B b) \<subseteq> set (bkeys B b0) \<Longrightarrow>
        length (bkeys B b) \<le> bkeyn B b0 b \<and> bkeyn B b0 b \<le> length (bkeys B b0)"

text \<open>The four buckets of \<^verbatim>\<open>tickets.db\<close>.\<close>

record 'b tdb =
  keysB :: 'b
  spentB :: 'b
  quotaB :: 'b
  metaB :: 'b

datatype terr =
    EClock | EInvalidDB | ENumber | EIO | EProofInvalid | EFull | ECapacity | EQuota

text \<open>\<^verbatim>\<open>db.Update\<close>: a transaction that returns an error, or whose commit fails, leaves the
  database as it was.\<close>

definition db_update ::
  "bool \<Rightarrow> ('b tdb \<Rightarrow> (terr, 'b tdb) result) \<Rightarrow> 'b tdb \<Rightarrow> 'b tdb \<times> terr option" where
  "db_update commit tx d =
     (case tx d of
        Inl e \<Rightarrow> (d, Some e)
      | Inr d' \<Rightarrow> if commit then (d', None) else (d, Some EIO))"

section \<open>The transactions\<close>

text \<open>
  The inner loop of the pruning in \<^verbatim>\<open>descriptor\<close>: the epoch stands in the component \<open>idx\<close> of the
  key, and records of epochs up to \<open>cutoff\<close> are deleted.
\<close>

fun prune_loop ::
  "'b bolt \<Rightarrow> nat \<Rightarrow> int \<Rightarrow> string list \<Rightarrow> 'b \<Rightarrow> (terr, 'b) result" where
  "prune_loop B idx cutoff [] b = Inr b"
| "prune_loop B idx cutoff (k # ks) b =
     (let part = split_on CHR '':'' k in
      if length part \<le> idx then Inl EInvalidDB
      else case parse_int (part ! idx) of
        (ep, Some e) \<Rightarrow> Inl ENumber
      | (ep, None) \<Rightarrow>
          if ep \<le> cutoff then
            (case bdel B b k of None \<Rightarrow> Inl EIO | Some b' \<Rightarrow> prune_loop B idx cutoff ks b')
          else prune_loop B idx cutoff ks b)"

definition prune_bucket :: "'b bolt \<Rightarrow> nat \<Rightarrow> int \<Rightarrow> 'b \<Rightarrow> (terr, 'b) result" where
  "prune_bucket B idx cutoff b = prune_loop B idx cutoff (bkeys B b) b"

definition latest_epoch :: "'b bolt \<Rightarrow> 'b tdb \<Rightarrow> int" where
  "latest_epoch B d =
     fst (parse_int (case bget B (metaB d) ''latestEpoch'' of None \<Rightarrow> [] | Some v \<Rightarrow> v))"

text \<open>The first transaction of \<^verbatim>\<open>descriptor\<close>.\<close>

definition clock_tx :: "'b bolt \<Rightarrow> int \<Rightarrow> 'b tdb \<Rightarrow> (terr, 'b tdb) result" where
  "clock_tx B nowEpoch d =
     (if nowEpoch < latest_epoch B d then Inl EClock
      else if nowEpoch > latest_epoch B d then
        (case bput B (metaB d) ''latestEpoch'' (itoa nowEpoch) of
           None \<Rightarrow> Inl EIO
         | Some m \<Rightarrow>
             (case prune_bucket B 1 (nowEpoch - 12) (keysB d) of
                Inl e \<Rightarrow> Inl e
              | Inr ks \<Rightarrow>
                  (case prune_bucket B 0 (nowEpoch - 12) (quotaB d) of
                     Inl e \<Rightarrow> Inl e
                   | Inr qs \<Rightarrow>
                       (case prune_bucket B 0 (nowEpoch - 12) (spentB d) of
                          Inl e \<Rightarrow> Inl e
                        | Inr ss \<Rightarrow> Inr (d\<lparr>metaB := m, keysB := ks, quotaB := qs, spentB := ss\<rparr>)))))
      else Inr d)"

text \<open>The quota transaction of \<^verbatim>\<open>handle\<close>: at most 24 tickets for one address and epoch.\<close>

definition quota_tx :: "'b bolt \<Rightarrow> string \<Rightarrow> nat \<Rightarrow> 'b tdb \<Rightarrow> (terr, 'b tdb) result" where
  "quota_tx B quotaKey n d =
     (let b = quotaB d in
      if bkeyn B b b \<ge> 100000 \<and> bget B b quotaKey = None then Inl ECapacity
      else (let count = fst (parse_int (case bget B b quotaKey of None \<Rightarrow> [] | Some v \<Rightarrow> v)) in
        if count + int n > 24 then Inl EQuota
        else (case bput B b quotaKey (itoa (count + int n)) of
                None \<Rightarrow> Inl EIO
              | Some b' \<Rightarrow> Inr (d\<lparr>quotaB := b'\<rparr>))))"

text \<open>The retention loop of \<^verbatim>\<open>redeem\<close>, which stops at the first live record.\<close>

fun drop_expired :: "'b bolt \<Rightarrow> int \<Rightarrow> string list \<Rightarrow> 'b \<Rightarrow> (terr, 'b) result" where
  "drop_expired B cutoff [] b = Inr b"
| "drop_expired B cutoff (k # ks) b =
     (if length k < 13 then Inl EInvalidDB
      else case parse_int (take 12 k) of
        (ep, Some e) \<Rightarrow> Inl ENumber
      | (ep, None) \<Rightarrow>
          if ep > cutoff then Inr b
          else (case bdel B b k of None \<Rightarrow> Inl EIO | Some b' \<Rightarrow> drop_expired B cutoff ks b'))"

text \<open>The transaction of \<^verbatim>\<open>redeem\<close>.\<close>

definition spend_tx :: "'b bolt \<Rightarrow> int \<Rightarrow> string \<Rightarrow> 'b tdb \<Rightarrow> (terr, 'b tdb) result" where
  "spend_tx B cutoff spentKey d =
     (case drop_expired B cutoff (bkeys B (spentB d)) (spentB d) of
        Inl e \<Rightarrow> Inl e
      | Inr s \<Rightarrow>
          (case drop_expired B cutoff (bkeys B (quotaB d)) (quotaB d) of
             Inl e \<Rightarrow> Inl e
           | Inr q \<Rightarrow>
               if bget B s spentKey \<noteq> None then Inl EProofInvalid
               else if bkeyn B (spentB d) s \<ge> 100000 then Inl EFull
               else (case bput B s spentKey [CHR 0x01] of
                       None \<Rightarrow> Inl EIO
                     | Some s' \<Rightarrow> Inr (d\<lparr>spentB := s', quotaB := q\<rparr>))))"

text \<open>The key of a spent or quota record: \<^verbatim>\<open>fmt.Sprintf("%012d:%s", epoch, id)\<close>.\<close>

definition record_key :: "int \<Rightarrow> string \<Rightarrow> string" where
  "record_key epoch ident = pad12 epoch @ CHR '':'' # ident"

section \<open>Red-black trees as a store\<close>

definition rbt_bolt :: "(string, string) rbt bolt" where
  "rbt_bolt = \<lparr>bget = RBT.lookup, bput = (\<lambda>b k v. Some (RBT.insert k v b)),
     bdel = (\<lambda>b k. Some (RBT.delete k b)), bkeys = RBT.keys, bkeyn = (\<lambda>b0 b. length (RBT.keys b))\<rparr>"

lemma length_keys_subset:
  "set (RBT.keys b) \<subseteq> set (RBT.keys b0) \<Longrightarrow> length (RBT.keys b) \<le> length (RBT.keys b0)"
  by (metis List.finite_set card_mono distinct_card distinct_keys)

interpretation rb: bolt_db rbt_bolt
proof
  fix b b' :: "(string, string) rbt" and k j v :: string
  show "bput rbt_bolt b k v = Some b' \<Longrightarrow> bget rbt_bolt b' j = (if j = k then Some v else bget rbt_bolt b j)"
    by (auto simp: rbt_bolt_def)
  show "bdel rbt_bolt b k = Some b' \<Longrightarrow> bget rbt_bolt b' j = (if j = k then None else bget rbt_bolt b j)"
    by (auto simp: rbt_bolt_def)
  show "(k \<in> set (bkeys rbt_bolt b)) = (bget rbt_bolt b k \<noteq> None)"
    using RBT.lookup_keys [of b] by (auto simp: rbt_bolt_def)
qed (simp_all add: rbt_bolt_def length_keys_subset)

section \<open>Keys of the store\<close>

text \<open>A record key as the relay writes it, and the epoch read back from it.\<close>

definition wf_key :: "string \<Rightarrow> bool" where
  "wf_key k \<longleftrightarrow> (\<exists>e i. 0 \<le> e \<and> e < 10 ^ 12 \<and> k = record_key e i)"

definition key_epoch :: "string \<Rightarrow> int" where
  "key_epoch k = fst (parse_int (take 12 k))"

lemma colon_notin_pad12: "0 \<le> e \<Longrightarrow> e < 10 ^ 12 \<Longrightarrow> CHR '':'' \<notin> set (pad12 e)"
  using digits_are_digits [of "CHR '':''" 12 "nat e"] by (auto simp: pad12_digits)

lemma key_epoch_record [simp]:
  assumes "0 \<le> e" and "e < 10 ^ 12"
  shows "key_epoch (record_key e i) = e"
    and "parse_int (take 12 (record_key e i)) = (e, None)"
    and "parse_int (split_on CHR '':'' (record_key e i) ! 0) = (e, None)"
    and "\<not> length (record_key e i) < 13"
    and "\<not> length (split_on CHR '':'' (record_key e i)) \<le> 0"
proof -
  have take: "take 12 (record_key e i) = pad12 e"
    using assms by (simp add: record_key_def length_pad12)
  have split: "split_on CHR '':'' (record_key e i) = pad12 e # split_on CHR '':'' i"
    using assms by (simp add: record_key_def split_on_first colon_notin_pad12)
  show "parse_int (take 12 (record_key e i)) = (e, None)"
    using assms by (simp add: take parse_int_pad12)
  then show "key_epoch (record_key e i) = e" by (simp add: key_epoch_def)
  show "parse_int (split_on CHR '':'' (record_key e i) ! 0) = (e, None)"
    using assms by (simp add: split parse_int_pad12)
  show "\<not> length (record_key e i) < 13"
    using assms by (simp add: record_key_def length_pad12)
  show "\<not> length (split_on CHR '':'' (record_key e i)) \<le> 0" by (simp add: split)
qed

lemma wf_key_facts:
  assumes "wf_key k"
  shows "parse_int (take 12 k) = (key_epoch k, None)"
    and "parse_int (split_on CHR '':'' k ! 0) = (key_epoch k, None)"
    and "\<not> length k < 13" and "\<not> length (split_on CHR '':'' k) \<le> 0"
  using assms by (auto simp: wf_key_def)

lemma record_key_inj:
  assumes "record_key e i = record_key e' i'" and "0 \<le> e" "e < 10 ^ 12" "0 \<le> e'" "e' < 10 ^ 12"
  shows "e = e' \<and> i = i'"
proof -
  have "e = e'" using key_epoch_record(1) [of e i] key_epoch_record(1) [of e' i'] assms by simp
  with assms(1) show ?thesis by (simp add: record_key_def)
qed

text \<open>The byte order of keys is the order of their epochs.\<close>

lemma wf_key_order:
  assumes "wf_key k" and "wf_key k'" and "k \<le> k'"
  shows "key_epoch k \<le> key_epoch k'"
proof -
  obtain e i where k: "0 \<le> e" "e < 10 ^ 12" "k = record_key e i" using assms(1) by (auto simp: wf_key_def)
  obtain e' i' where k': "0 \<le> e'" "e' < 10 ^ 12" "k' = record_key e' i'"
    using assms(2) by (auto simp: wf_key_def)
  have "e \<le> e'"
    using pad12_order [of e "CHR '':'' # i" e' "CHR '':'' # i'"] assms(3) k k' by (simp add: record_key_def)
  with k k' show ?thesis by simp
qed

section \<open>Laws of the transactions\<close>

definition wf_bucket :: "'b bolt \<Rightarrow> 'b \<Rightarrow> bool" where
  "wf_bucket B b \<longleftrightarrow> (\<forall>k. bget B b k \<noteq> None \<longrightarrow> wf_key k)"

context bolt_db
begin

lemma set_keys: "set (bkeys B b) = {k. bget B b k \<noteq> None}"
  using keys_get [of _ b] by blast

lemma length_keys: "length (bkeys B b) = card {k. bget B b k \<noteq> None}"
  using distinct_card [OF keys_distinct [of b]] by (simp only: set_keys)

lemma finite_keys: "finite {k. bget B b k \<noteq> None}"
  using finite_set [of "bkeys B b"] by (simp only: set_keys)

lemma length_keys_mono:
  assumes "\<And>k. bget B b' k \<noteq> None \<Longrightarrow> bget B b k \<noteq> None"
  shows "length (bkeys B b') \<le> length (bkeys B b)"
  unfolding length_keys using finite_keys assms by (intro card_mono) auto

lemma length_keys_put:
  assumes "bput B b k v = Some b'"
  shows "length (bkeys B b') = (if bget B b k = None then Suc (length (bkeys B b)) else length (bkeys B b))"
proof -
  have "{j. bget B b' j \<noteq> None} = insert k {j. bget B b j \<noteq> None}"
    using get_put [OF assms] by auto
  then show ?thesis using finite_keys [of b] by (auto simp: length_keys insert_absorb)
qed

lemma prune_loop_get:
  "prune_loop B idx cutoff ks b = Inr b' \<Longrightarrow>
     bget B b' k = (if k \<in> set ks \<and> fst (parse_int (split_on CHR '':'' k ! idx)) \<le> cutoff
                    then None else bget B b k)"
proof (induction ks arbitrary: b)
  case Nil
  then show ?case by simp
next
  case (Cons x ks)
  then show ?case
    by (auto simp: Let_def get_del split: if_splits prod.splits option.splits)
qed

lemma prune_bucket_get:
  assumes "prune_bucket B idx cutoff b = Inr b'"
  shows "bget B b' k = (if fst (parse_int (split_on CHR '':'' k ! idx)) \<le> cutoff then None else bget B b k)"
  using prune_loop_get [OF assms [unfolded prune_bucket_def], of k] keys_get [of k b] by auto

lemma prune_bucket_wf:
  assumes "prune_bucket B 0 cutoff b = Inr b'" and "wf_bucket B b"
  shows "wf_bucket B b'"
    and "bget B b' k = (if key_epoch k \<le> cutoff then None else bget B b k)"
proof -
  show "wf_bucket B b'"
    using assms prune_bucket_get [OF assms(1)] by (auto simp: wf_bucket_def)
  show "bget B b' k = (if key_epoch k \<le> cutoff then None else bget B b k)"
    using assms(2) prune_bucket_get [OF assms(1), of k] wf_key_facts(2) [of k]
    by (cases "bget B b k") (auto simp: wf_bucket_def)
qed

lemma drop_expired_get:
  "drop_expired B cutoff ks b = Inr b' \<Longrightarrow>
     bget B b' k = (if k \<in> set (takeWhile (\<lambda>x. key_epoch x \<le> cutoff) ks) then None else bget B b k)"
proof (induction ks arbitrary: b)
  case Nil
  then show ?case by simp
next
  case (Cons x ks)
  then show ?case
    by (auto simp: key_epoch_def get_del split: if_splits prod.splits option.splits)
qed

lemma drop_expired_wf:
  assumes "drop_expired B cutoff (bkeys B b) b = Inr b'" and "wf_bucket B b"
  shows "bget B b' k = (if key_epoch k \<le> cutoff then None else bget B b k)"
proof -
  have wf: "\<And>x. x \<in> set (bkeys B b) \<Longrightarrow> wf_key x"
    using assms(2) keys_get by (auto simp: wf_bucket_def)
  have "takeWhile (\<lambda>x. key_epoch x \<le> cutoff) (bkeys B b)
      = filter (\<lambda>x. key_epoch x \<le> cutoff) (bkeys B b)"
  proof (rule takeWhile_sorted_filter [where f = id])
    show "sorted (map id (bkeys B b))" using keys_sorted by simp
  next
    fix x y
    assume "x \<in> set (bkeys B b)" "id y \<le> id x" "y \<in> set (bkeys B b)" "key_epoch x \<le> cutoff"
    then show "key_epoch y \<le> cutoff" using wf_key_order [of y x] wf by simp
  qed
  then show ?thesis
    using drop_expired_get [OF assms(1), of k] keys_get [of k b] by auto
qed

lemma drop_expired_live:
  assumes "drop_expired B cutoff ks b = Inr b'" and "key_epoch k > cutoff"
  shows "bget B b' k = bget B b k"
  using drop_expired_get [OF assms(1), of k] assms(2) by (auto dest: set_takeWhileD)

lemma drop_expired_sub:
  assumes "drop_expired B cutoff ks b = Inr b'" and "bget B b' k \<noteq> None"
  shows "bget B b' k = bget B b k"
  using drop_expired_get [OF assms(1), of k] assms(2) by auto

end

section \<open>The invariant of the database\<close>

text \<open>
  Spent and quota records have well-formed keys, key records carry a decimal epoch after a
  prefix without a colon, the buckets are bounded, and a quota value is a decimal of at most 24.
\<close>

definition wf_name :: "string \<Rightarrow> bool" where
  "wf_name k \<longleftrightarrow> (\<exists>r e. CHR '':'' \<notin> set r \<and> - (2 ^ 63) \<le> e \<and> e < 2 ^ 63 \<and> k = r @ CHR '':'' # itoa e)"

definition wf_count :: "string \<Rightarrow> bool" where
  "wf_count v \<longleftrightarrow> (\<exists>n. 0 \<le> n \<and> n \<le> 24 \<and> v = itoa n)"

definition db_inv :: "'b bolt \<Rightarrow> 'b tdb \<Rightarrow> bool" where
  "db_inv B d \<longleftrightarrow>
     wf_bucket B (spentB d) \<and> wf_bucket B (quotaB d)
     \<and> (\<forall>k. bget B (keysB d) k \<noteq> None \<longrightarrow> wf_name k)
     \<and> length (bkeys B (spentB d)) \<le> 100000 \<and> length (bkeys B (quotaB d)) \<le> 100000
     \<and> (\<forall>k v. bget B (quotaB d) k = Some v \<longrightarrow> wf_count v)"

lemma wf_name_facts:
  assumes "wf_name k"
  shows "\<not> length (split_on CHR '':'' k) \<le> 1" and "snd (parse_int (split_on CHR '':'' k ! 1)) = None"
proof -
  obtain r e where k: "CHR '':'' \<notin> set r" "- (2 ^ 63) \<le> e" "e < 2 ^ 63" "k = r @ CHR '':'' # itoa e"
    using assms by (auto simp: wf_name_def)
  then have "split_on CHR '':'' k = [r, itoa e]"
    by (simp add: split_on_first split_on_none)
  then show "\<not> length (split_on CHR '':'' k) \<le> 1" "snd (parse_int (split_on CHR '':'' k ! 1)) = None"
    using k by (simp_all add: parse_int_itoa)
qed

lemma parse_int_Nil [simp]: "parse_int [] = (0, Some ErrSyntax)"
  by (simp add: parse_int_def parse_uint_def)

text \<open>The stored counter of an address: its quota record as the transaction reads it.\<close>

definition issued :: "'b bolt \<Rightarrow> 'b tdb \<Rightarrow> string \<Rightarrow> int" where
  "issued B d k = fst (parse_int (case bget B (quotaB d) k of None \<Rightarrow> [] | Some v \<Rightarrow> v))"

context bolt_db
begin

lemma spend_ok:
  assumes "spend_tx B cutoff sk d = Inr d'"
  obtains s q where
    "drop_expired B cutoff (bkeys B (spentB d)) (spentB d) = Inr s"
    "drop_expired B cutoff (bkeys B (quotaB d)) (quotaB d) = Inr q"
    "bget B s sk = None" "bkeyn B (spentB d) s < 100000"
    "bput B s sk [CHR 0x01] = Some (spentB d')" "quotaB d' = q" "keysB d' = keysB d" "metaB d' = metaB d"
  using assms by (auto simp: spend_tx_def split: sum.splits if_splits option.splits)

lemma spend_marks:
  assumes "spend_tx B cutoff sk d = Inr d'"
  shows "bget B (spentB d') sk = Some [CHR 0x01]"
    and "key_epoch sk > cutoff \<Longrightarrow> bget B (spentB d) sk = None"
    and "key_epoch k > cutoff \<Longrightarrow> k \<noteq> sk \<Longrightarrow> bget B (spentB d') k = bget B (spentB d) k"
    and "k \<noteq> sk \<Longrightarrow> bget B (spentB d') k \<noteq> None \<Longrightarrow> bget B (spentB d') k = bget B (spentB d) k"
    and "key_epoch k > cutoff \<Longrightarrow> bget B (quotaB d') k = bget B (quotaB d) k"
    and "bget B (quotaB d') k \<noteq> None \<Longrightarrow> bget B (quotaB d') k = bget B (quotaB d) k"
proof -
  obtain s q where sq: "drop_expired B cutoff (bkeys B (spentB d)) (spentB d) = Inr s"
    "drop_expired B cutoff (bkeys B (quotaB d)) (quotaB d) = Inr q"
    "bget B s sk = None" "bput B s sk [CHR 0x01] = Some (spentB d')" "quotaB d' = q"
    using assms by (rule spend_ok)
  note get = get_put [OF sq(4)]
  show "bget B (spentB d') sk = Some [CHR 0x01]" by (simp add: get)
  show "key_epoch sk > cutoff \<Longrightarrow> bget B (spentB d) sk = None"
    using drop_expired_live [OF sq(1)] sq(3) by metis
  show "key_epoch k > cutoff \<Longrightarrow> k \<noteq> sk \<Longrightarrow> bget B (spentB d') k = bget B (spentB d) k"
    using drop_expired_live [OF sq(1)] by (simp add: get)
  show "k \<noteq> sk \<Longrightarrow> bget B (spentB d') k \<noteq> None \<Longrightarrow> bget B (spentB d') k = bget B (spentB d) k"
    using drop_expired_sub [OF sq(1), of k] get [of k] by simp
  show "key_epoch k > cutoff \<Longrightarrow> bget B (quotaB d') k = bget B (quotaB d) k"
    using drop_expired_live [OF sq(2)] sq(5) by simp
  show "bget B (quotaB d') k \<noteq> None \<Longrightarrow> bget B (quotaB d') k = bget B (quotaB d) k"
    using drop_expired_sub [OF sq(2)] sq(5) by simp
qed

lemma spend_bound:
  assumes "spend_tx B cutoff sk d = Inr d'"
  shows "length (bkeys B (spentB d')) \<le> 100000"
proof -
  obtain s q where sq: "drop_expired B cutoff (bkeys B (spentB d)) (spentB d) = Inr s"
    "drop_expired B cutoff (bkeys B (quotaB d)) (quotaB d) = Inr q"
    "bget B s sk = None" "bkeyn B (spentB d) s < 100000" "bput B s sk [CHR 0x01] = Some (spentB d')"
    using assms by (rule spend_ok)
  have "set (bkeys B s) \<subseteq> set (bkeys B (spentB d))"
    using drop_expired_sub [OF sq(1)] by (auto simp: set_keys)
  then have "length (bkeys B s) \<le> bkeyn B (spentB d) s" using keyn_less by blast
  then show ?thesis using length_keys_put [OF sq(5)] sq(3,4) by simp
qed

lemma spend_inv:
  assumes "spend_tx B cutoff sk d = Inr d'" and "db_inv B d" and "wf_key sk"
  shows "db_inv B d'"
proof -
  obtain s q where fr: "keysB d' = keysB d" using assms(1) by (rule spend_ok)
  note m = spend_marks [OF assms(1)]
  have "wf_bucket B (spentB d')"
    using m(4) assms(2,3) by (auto simp: wf_bucket_def db_inv_def) metis
  moreover have "wf_bucket B (quotaB d')"
    using m(6) assms(2) by (auto simp: wf_bucket_def db_inv_def)
  moreover have "length (bkeys B (quotaB d')) \<le> 100000"
    using length_keys_mono [of "quotaB d'" "quotaB d"] m(6) assms(2) by (fastforce simp: db_inv_def)
  moreover have "wf_count v" if "bget B (quotaB d') k = Some v" for k v
    using m(6) [of k] that assms(2) by (auto simp: db_inv_def)
  ultimately show ?thesis
    using spend_bound [OF assms(1)] assms(2) fr by (auto simp: db_inv_def)
qed

end

context bolt_db
begin

lemma quota_ok:
  assumes "quota_tx B qk n d = Inr d'"
  shows "issued B d qk + int n \<le> 24"
    and "bput B (quotaB d) qk (itoa (issued B d qk + int n)) = Some (quotaB d')"
    and "\<not> (bkeyn B (quotaB d) (quotaB d) \<ge> 100000 \<and> bget B (quotaB d) qk = None)"
    and "keysB d' = keysB d" and "spentB d' = spentB d" and "metaB d' = metaB d"
  using assms by (auto simp: quota_tx_def issued_def Let_def split: if_splits option.splits)

lemma issued_bounds:
  assumes "db_inv B d"
  shows "0 \<le> issued B d k \<and> issued B d k \<le> 24"
proof (cases "bget B (quotaB d) k")
  case None
  then show ?thesis by (simp add: issued_def)
next
  case (Some v)
  with assms have "wf_count v" by (simp add: db_inv_def)
  then obtain n where "0 \<le> n" "n \<le> 24" "v = itoa n" by (auto simp: wf_count_def)
  with Some show ?thesis by (simp add: issued_def parse_int_itoa)
qed

lemma quota_inv:
  assumes "quota_tx B qk n d = Inr d'" and "db_inv B d" and "wf_key qk"
  shows "db_inv B d'"
    and "issued B d' k = (if k = qk then issued B d k + int n else issued B d k)"
proof -
  note q = quota_ok [OF assms(1)]
  note get = get_put [OF q(2)]
  have cnt: "wf_count (itoa (issued B d qk + int n))"
    using q(1) issued_bounds [OF assms(2), of qk] by (auto simp: wf_count_def)
  have "length (bkeys B (quotaB d')) \<le> 100000"
    using length_keys_put [OF q(2)] q(3) keyn_same [of "quotaB d"] assms(2)
    by (auto simp: db_inv_def split: if_splits)
  moreover have "wf_bucket B (quotaB d')"
    using assms(2,3) get by (auto simp: wf_bucket_def db_inv_def)
  moreover have "wf_count v" if "bget B (quotaB d') j = Some v" for j v
    using that assms(2) get [of j] cnt by (auto simp: db_inv_def split: if_splits)
  ultimately show "db_inv B d'"
    using assms(2) q(4,5) by (auto simp: db_inv_def)
  show "issued B d' k = (if k = qk then issued B d k + int n else issued B d k)"
    using get [of k] q(1) issued_bounds [OF assms(2), of qk] by (simp add: issued_def parse_int_itoa)
qed

lemma clock_cases:
  assumes "clock_tx B e d = Inr d'"
  obtains "d' = d" "latest_epoch B d = e"
  | "latest_epoch B d < e" "bput B (metaB d) ''latestEpoch'' (itoa e) = Some (metaB d')"
    "prune_bucket B 1 (e - 12) (keysB d) = Inr (keysB d')"
    "prune_bucket B 0 (e - 12) (quotaB d) = Inr (quotaB d')"
    "prune_bucket B 0 (e - 12) (spentB d) = Inr (spentB d')"
  using assms by (auto simp: clock_tx_def split: if_splits option.splits sum.splits)

lemma clock_not_backwards: "clock_tx B e d = Inr d' \<Longrightarrow> latest_epoch B d \<le> e"
  by (auto elim: clock_cases)

lemma clock_latest:
  assumes "clock_tx B e d = Inr d'" and "- (2 ^ 63) \<le> e" "e < 2 ^ 63"
  shows "latest_epoch B d' = e"
  using assms(1)
proof (cases rule: clock_cases)
  case 2
  show ?thesis
    using get_put [OF 2(2), of "''latestEpoch''"] assms(2,3) by (simp add: latest_epoch_def parse_int_itoa)
qed auto

lemma clock_live:
  assumes "clock_tx B e d = Inr d'" and "db_inv B d" and "key_epoch k > e - 12"
  shows "bget B (spentB d') k = bget B (spentB d) k" and "bget B (quotaB d') k = bget B (quotaB d) k"
  using assms(1)
proof (atomize (full), cases rule: clock_cases)
  case 2
  show "bget B (spentB d') k = bget B (spentB d) k \<and> bget B (quotaB d') k = bget B (quotaB d) k"
    using prune_bucket_wf(2) [OF 2(4)] prune_bucket_wf(2) [OF 2(5)] assms(2,3) by (simp add: db_inv_def)
qed auto

lemma clock_sub:
  assumes "clock_tx B e d = Inr d'"
  shows "bget B (spentB d') k \<noteq> None \<Longrightarrow> bget B (spentB d') k = bget B (spentB d) k"
    and "bget B (quotaB d') k \<noteq> None \<Longrightarrow> bget B (quotaB d') k = bget B (quotaB d) k"
    and "bget B (keysB d') k \<noteq> None \<Longrightarrow> bget B (keysB d') k = bget B (keysB d) k"
proof -
  have "(bget B (spentB d') k \<noteq> None \<longrightarrow> bget B (spentB d') k = bget B (spentB d) k)
      \<and> (bget B (quotaB d') k \<noteq> None \<longrightarrow> bget B (quotaB d') k = bget B (quotaB d) k)
      \<and> (bget B (keysB d') k \<noteq> None \<longrightarrow> bget B (keysB d') k = bget B (keysB d) k)"
    using assms
  proof (cases rule: clock_cases)
    case 2
    then show ?thesis
      using prune_bucket_get [OF 2(3), of k] prune_bucket_get [OF 2(4), of k] prune_bucket_get [OF 2(5), of k]
      by (simp split: if_splits)
  qed auto
  then show "bget B (spentB d') k \<noteq> None \<Longrightarrow> bget B (spentB d') k = bget B (spentB d) k"
    and "bget B (quotaB d') k \<noteq> None \<Longrightarrow> bget B (quotaB d') k = bget B (quotaB d) k"
    and "bget B (keysB d') k \<noteq> None \<Longrightarrow> bget B (keysB d') k = bget B (keysB d) k" by blast+
qed

lemma clock_inv:
  assumes "clock_tx B e d = Inr d'" and "db_inv B d"
  shows "db_inv B d'"
proof -
  note sub = clock_sub [OF assms(1)]
  have "length (bkeys B (spentB d')) \<le> 100000"
    using length_keys_mono [of "spentB d'" "spentB d"] sub(1) assms(2) by (fastforce simp: db_inv_def)
  moreover have "length (bkeys B (quotaB d')) \<le> 100000"
    using length_keys_mono [of "quotaB d'" "quotaB d"] sub(2) assms(2) by (fastforce simp: db_inv_def)
  moreover have "wf_bucket B (spentB d')" "wf_bucket B (quotaB d')"
    using sub(1,2) assms(2) by (auto simp: wf_bucket_def db_inv_def)
  moreover have "\<forall>k. bget B (keysB d') k \<noteq> None \<longrightarrow> wf_name k"
    using sub(3) assms(2) by (auto simp: db_inv_def)
  moreover have "\<forall>k v. bget B (quotaB d') k = Some v \<longrightarrow> wf_count v"
    using sub(2) assms(2) by (fastforce simp: db_inv_def)
  ultimately show ?thesis by (simp add: db_inv_def)
qed

end

end
