(* ===== verification/Tickets.thy ===== *)
theory Tickets
  imports Access_Policy Base58 Ticket_Store
begin

text \<open>
  The ticket authority of \<^verbatim>\<open>internal/relay/tickets.go\<close>: hourly signing keys (\<^verbatim>\<open>descriptor\<close>), blind
  issuance behind a proof of membership (\<^verbatim>\<open>handle\<close>) and redemption (\<^verbatim>\<open>redeem\<close>).

  Arguments of the model: the library record \<open>lib\<close> (hashes, Ed25519, RSA and blind RSA, the JSON
  scanner), the store, and per call the clock readings, random values and commit results in the
  order the code meets them. Every \<^verbatim>\<open>time.Now()\<close> is a reading of its own.
\<close>

section \<open>Data\<close>

record 'k lib =
  sha256 :: "byte list \<Rightarrow> byte list"
  ripemd160 :: "byte list \<Rightarrow> byte list"
  ed25519_verify :: "byte list \<Rightarrow> byte list \<Rightarrow> byte list \<Rightarrow> bool"
  marshal_priv :: "'k \<Rightarrow> string"
  parse_priv :: "string \<Rightarrow> 'k option"
  marshal_pub :: "'k \<Rightarrow> byte list"
  blind_sign :: "'k \<Rightarrow> byte list \<Rightarrow> byte list option"
  blind_verify :: "'k \<Rightarrow> byte list \<Rightarrow> byte list \<Rightarrow> bool"
  scan_json :: "string \<Rightarrow> json_text"
  fold_name :: "string \<Rightarrow> string"

record ticketDescriptor =
  Epoch :: int
  ExpiresAt :: int
  PublicKey :: string
  KeyID :: string
  Policy :: string
  RelayPin :: string

record issueChallenge =
  Binding :: string
  ChEpoch :: int
  Expires :: time

record ('b, 'k) ticketAuthority =
  authdb :: "'b tdb"
  challenges :: "(string, issueChallenge) gomap"
  tkeys :: "(int, 'k) gomap"
  slots :: nat
  listener :: bool

definition ticketLifetime :: duration where
  "ticketLifetime = 12 * 3600 * second"

definition ticketDomain :: string where
  "ticketDomain = ''Qortal-MASQUE-Ticket-v1'' @ [CHR 0x00]"

definition ticketKeyID :: "'k lib \<Rightarrow> byte list \<Rightarrow> string \<Rightarrow> string \<Rightarrow> int \<Rightarrow> string" where
  "ticketKeyID lib der policy pn epoch =
     hex_encode (sha256 lib (to_bytes (ticketDomain @ policy @ pn @ itoa epoch) @ der))"

section \<open>Signing keys\<close>

text \<open>The surroundings of one \<^verbatim>\<open>descriptor\<close> call: the clock, whether the clock transaction
  commits, whether the read succeeds, the generated key and whether storing it commits.\<close>

record 'k desc_env =
  de_now :: time
  de_commit :: bool
  de_view :: bool
  de_gen :: "'k option"
  de_store :: bool

definition epoch_of :: "time \<Rightarrow> int" where
  "epoch_of t = go_quot (unix t) 3600"

definition key_name :: "accessPolicy \<Rightarrow> int \<Rightarrow> string" where
  "key_name p epoch = revision p @ CHR '':'' # itoa epoch"

definition put_key ::
  "'b bolt \<Rightarrow> string \<Rightarrow> string \<Rightarrow> 'b tdb \<Rightarrow> (terr, 'b tdb) result" where
  "put_key B name v d =
     (case bput B (keysB d) name v of None \<Rightarrow> Inl EIO | Some b \<Rightarrow> Inr (d\<lparr>keysB := b\<rparr>))"

text \<open>The key of an epoch: from memory, from the database, or freshly generated for the
  current epoch and stored before use.\<close>

definition load_key ::
  "'k lib \<Rightarrow> 'b bolt \<Rightarrow> accessPolicy \<Rightarrow> 'k desc_env \<Rightarrow> int \<Rightarrow> int \<Rightarrow> ('b, 'k) ticketAuthority
     \<Rightarrow> ('b, 'k) ticketAuthority \<times> (terr, 'k) result" where
  "load_key lib B p env nowEpoch epoch A =
     (case get_map (tkeys A) epoch of
        Some key \<Rightarrow> (A, Inr key)
      | None \<Rightarrow>
          if \<not> de_view env then (A, Inl EIO)
          else (let raw = (case bget B (keysB (authdb A)) (key_name p epoch) of None \<Rightarrow> [] | Some v \<Rightarrow> v) in
            if length raw > 0 then
              (case parse_priv lib raw of
                 None \<Rightarrow> (A, Inl EIO)
               | Some key \<Rightarrow> (A\<lparr>tkeys := set_map epoch key (tkeys A)\<rparr>, Inr key))
            else if epoch = nowEpoch then
              (case de_gen env of
                 None \<Rightarrow> (A, Inl EIO)
               | Some key \<Rightarrow>
                   (case db_update (de_store env) (put_key B (key_name p epoch) (marshal_priv lib key)) (authdb A) of
                      (d, Some e) \<Rightarrow> (A\<lparr>authdb := d\<rparr>, Inl e)
                    | (d, None) \<Rightarrow> (A\<lparr>authdb := d, tkeys := set_map epoch key (tkeys A)\<rparr>, Inr key)))
            else (A, Inl EProofInvalid)))"

definition make_descriptor :: "'k lib \<Rightarrow> accessPolicy \<Rightarrow> int \<Rightarrow> 'k \<Rightarrow> ticketDescriptor" where
  "make_descriptor lib p epoch key =
     (let der = marshal_pub lib key in
      \<lparr>Epoch = epoch, ExpiresAt = (epoch * 3600 + ticketLifetime div second) * 1000,
       PublicKey = b64_encode der, KeyID = ticketKeyID lib der (revision p) (pin p) epoch,
       Policy = revision p, RelayPin = pin p\<rparr>)"

definition descriptor ::
  "'k lib \<Rightarrow> 'b bolt \<Rightarrow> accessPolicy \<Rightarrow> 'k desc_env \<Rightarrow> int \<Rightarrow> ('b, 'k) ticketAuthority
     \<Rightarrow> ('b, 'k) ticketAuthority \<times> (terr, ticketDescriptor \<times> 'k) result" where
  "descriptor lib B p env epoch A =
     (let nowEpoch = epoch_of (de_now env) in
      if epoch > nowEpoch \<or> epoch \<le> nowEpoch - 12 then (A, Inl EProofInvalid)
      else (case db_update (de_commit env) (clock_tx B nowEpoch) (authdb A) of
              (d, Some e) \<Rightarrow> (A\<lparr>authdb := d\<rparr>, Inl e)
            | (d, None) \<Rightarrow>
                (case load_key lib B p env nowEpoch epoch (A\<lparr>authdb := d\<rparr>) of
                   (A', Inl e) \<Rightarrow> (A', Inl e)
                 | (A', Inr key) \<Rightarrow>
                     (A'\<lparr>tkeys := filter (\<lambda>(e, k). \<not> e \<le> nowEpoch - 12) (tkeys A')\<rparr>,
                      Inr (make_descriptor lib p epoch key, key)))))"

section \<open>Opening and closing\<close>

text \<open>\<^verbatim>\<open>newTicketAuthority\<close>: the database as bbolt opens it (\<open>None\<close> when the directory or the file cannot be
  opened), whether creating the missing buckets commits, and the first descriptor.\<close>

definition newTicketAuthority ::
  "'k lib \<Rightarrow> 'b bolt \<Rightarrow> accessPolicy \<Rightarrow> 'b tdb option \<Rightarrow> bool \<Rightarrow> time \<Rightarrow> 'k desc_env
     \<Rightarrow> (terr, ('b, 'k) ticketAuthority) result" where
  "newTicketAuthority lib B p opened buckets now env =
     (case opened of
        None \<Rightarrow> Inl EIO
      | Some d \<Rightarrow>
          if \<not> buckets then Inl EIO
          else (case descriptor lib B p env (epoch_of now)
                       \<lparr>authdb = d, challenges = [], tkeys = [], slots = 0, listener = False\<rparr> of
                  (A, Inl e) \<Rightarrow> Inl e
                | (A, Inr _) \<Rightarrow> Inr A))"

section \<open>Redemption\<close>

record ticket =
  TkEpoch :: int
  TkKeyID :: string
  Message :: string
  TkSignature :: string

definition ticket_fields :: "ticket fields" where
  "ticket_fields =
     [(''epoch'', set_int64 (\<lambda>x v. v\<lparr>TkEpoch := x\<rparr>)), (''keyId'', set_string (\<lambda>x v. v\<lparr>TkKeyID := x\<rparr>)),
      (''message'', set_string (\<lambda>x v. v\<lparr>Message := x\<rparr>)),
      (''signature'', set_string (\<lambda>x v. v\<lparr>TkSignature := x\<rparr>))]"

definition zero_ticket :: ticket where
  "zero_ticket = \<lparr>TkEpoch = 0, TkKeyID = [], Message = [], TkSignature = []\<rparr>"

text \<open>The clock readings of \<^verbatim>\<open>redeem\<close>, in order: in \<^verbatim>\<open>descriptor\<close>, for the expiry check, for the cutoff
  inside the transaction, and two for the deadline.\<close>

record 'k redeem_env =
  re_desc :: "'k desc_env"
  re_now :: time
  re_cutoff :: time
  re_commit :: bool
  re_base :: time
  re_left :: time

definition ticket_id :: "'k lib \<Rightarrow> byte list \<Rightarrow> string" where
  "ticket_id lib msg = hex_encode (sha256 lib msg)"

text \<open>The checks on the decoded ticket: its message when it is valid.\<close>

definition check_ticket :: "'k lib \<Rightarrow> ticketDescriptor \<Rightarrow> 'k \<Rightarrow> ticket \<Rightarrow> byte list option" where
  "check_ticket lib d key v =
     (let prefix = to_bytes (ticketDomain @ KeyID d) in
      case (b64_decode (Message v), b64_decode (TkSignature v)) of
        (Some msg, Some sig) \<Rightarrow>
          if length msg \<noteq> length prefix + 32 \<or> \<not> has_prefix msg prefix \<or> length sig \<noteq> 256 then None
          else if \<not> blind_verify lib key msg sig then None
          else Some msg
      | _ \<Rightarrow> None)"

definition redeem ::
  "'k lib \<Rightarrow> 'b bolt \<Rightarrow> accessPolicy \<Rightarrow> 'k redeem_env \<Rightarrow> string \<Rightarrow> ('b, 'k) ticketAuthority
     \<Rightarrow> ('b, 'k) ticketAuthority \<times> (terr, string \<times> time) result" where
  "redeem lib B p env raw A =
     (if length raw > 2048 then (A, Inl EProofInvalid)
      else case strictJSON (fold_name lib) ticket_fields zero_ticket (scan_json lib raw) of
        Inl _ \<Rightarrow> (A, Inl EProofInvalid)
      | Inr v \<Rightarrow>
          (case descriptor lib B p (re_desc env) (TkEpoch v) A of
             (A1, Inl _) \<Rightarrow> (A1, Inl EProofInvalid)
           | (A1, Inr (d, key)) \<Rightarrow>
               if KeyID d \<noteq> TkKeyID v \<or> ExpiresAt d \<le> unix_milli (re_now env) then (A1, Inl EProofInvalid)
               else (case check_ticket lib d key v of
                       None \<Rightarrow> (A1, Inl EProofInvalid)
                     | Some msg \<Rightarrow>
                         let ident = ticket_id lib msg;
                             tx = spend_tx B (epoch_of (re_cutoff env) - 12) (record_key (TkEpoch v) ident)
                         in (case db_update (re_commit env) tx (authdb A1) of
                               (d', Some _) \<Rightarrow> (A1\<lparr>authdb := d'\<rparr>, Inl EProofInvalid)
                             | (d', None) \<Rightarrow>
                                 (A1\<lparr>authdb := d'\<rparr>,
                                  Inr (ident, re_base env + (ExpiresAt d - unix_milli (re_left env)) * millisecond))))))"

section \<open>Issuance\<close>

record relayProof =
  PType :: string
  PRelayPin :: string
  PPolicy :: string
  PBinding :: string
  Nonce :: string
  PExpiresAt :: int
  AuthorAddress :: string
  AuthorPublicKey :: string
  PSignature :: string

definition zero_proof :: relayProof where
  "zero_proof = \<lparr>PType = [], PRelayPin = [], PPolicy = [], PBinding = [], Nonce = [], PExpiresAt = 0,
     AuthorAddress = [], AuthorPublicKey = [], PSignature = []\<rparr>"

definition proof_fields :: "relayProof fields" where
  "proof_fields =
     [(''type'', set_string (\<lambda>x v. v\<lparr>PType := x\<rparr>)), (''relayPin'', set_string (\<lambda>x v. v\<lparr>PRelayPin := x\<rparr>)),
      (''policy'', set_string (\<lambda>x v. v\<lparr>PPolicy := x\<rparr>)), (''binding'', set_string (\<lambda>x v. v\<lparr>PBinding := x\<rparr>)),
      (''nonce'', set_string (\<lambda>x v. v\<lparr>Nonce := x\<rparr>)), (''expiresAt'', set_int64 (\<lambda>x v. v\<lparr>PExpiresAt := x\<rparr>)),
      (''authorAddress'', set_string (\<lambda>x v. v\<lparr>AuthorAddress := x\<rparr>)),
      (''authorPublicKey'', set_string (\<lambda>x v. v\<lparr>AuthorPublicKey := x\<rparr>)),
      (''signature'', set_string (\<lambda>x v. v\<lparr>PSignature := x\<rparr>))]"

definition zero_descriptor :: ticketDescriptor where
  "zero_descriptor = \<lparr>Epoch = 0, ExpiresAt = 0, PublicKey = [], KeyID = [], Policy = [], RelayPin = []\<rparr>"

definition descriptor_fields :: "ticketDescriptor fields" where
  "descriptor_fields =
     [(''epoch'', set_int64 (\<lambda>x v. v\<lparr>Epoch := x\<rparr>)), (''expiresAt'', set_int64 (\<lambda>x v. v\<lparr>ExpiresAt := x\<rparr>)),
      (''publicKey'', set_string (\<lambda>x v. v\<lparr>PublicKey := x\<rparr>)), (''keyId'', set_string (\<lambda>x v. v\<lparr>KeyID := x\<rparr>)),
      (''policy'', set_string (\<lambda>x v. v\<lparr>Policy := x\<rparr>)), (''relayPin'', set_string (\<lambda>x v. v\<lparr>RelayPin := x\<rparr>))]"

record issue_input =
  InDescriptor :: "ticketDescriptor option"
  Blinded :: "string list"
  Proof :: "relayProof option"

definition zero_input :: issue_input where
  "zero_input = \<lparr>InDescriptor = None, Blinded = [], Proof = None\<rparr>"

text \<open>A pointer to a struct: \<^verbatim>\<open>null\<close> makes it nil, an object is decoded into the struct it points to.\<close>

definition set_ptr ::
  "(string \<Rightarrow> string) \<Rightarrow> 'a fields \<Rightarrow> 'a \<Rightarrow> ('s \<Rightarrow> 'a option) \<Rightarrow> ('a option \<Rightarrow> 's \<Rightarrow> 's) \<Rightarrow> json \<Rightarrow> 's \<Rightarrow> 's option" where
  "set_ptr casefold fs zero get put v s =
     (case v of
        JNull \<Rightarrow> Some (put None s)
      | _ \<Rightarrow> (case decode_struct casefold fs (case get s of None \<Rightarrow> zero | Some x \<Rightarrow> x) v of
               None \<Rightarrow> None | Some x \<Rightarrow> Some (put (Some x) s)))"

definition input_fields :: "(string \<Rightarrow> string) \<Rightarrow> issue_input fields" where
  "input_fields casefold =
     [(''descriptor'', set_ptr casefold descriptor_fields zero_descriptor InDescriptor (\<lambda>x v. v\<lparr>InDescriptor := x\<rparr>)),
      (''blinded'', set_list string_elem (\<lambda>x v. v\<lparr>Blinded := x\<rparr>)),
      (''proof'', set_ptr casefold proof_fields zero_proof Proof (\<lambda>x v. v\<lparr>Proof := x\<rparr>))]"

text \<open>Replies: an error with its status and code, or one of the three JSON documents.\<close>

datatype reply =
    Refused nat string
  | Catalog ticketDescriptor
  | Challenge string string int
  | Signatures "string list"

definition accessError :: "nat \<Rightarrow> string \<Rightarrow> reply" where
  "accessError status code = Refused status code"

text \<open>The binding of a request to the key and the blinded messages.\<close>

definition binding_json :: "string \<Rightarrow> string list \<Rightarrow> string" where
  "binding_json keyid bs =
     ''{\"key\":'' @ json_quote keyid @ '',\"blinded\":'' @ json_strings bs @ ''}''"

definition binding_of :: "'k lib \<Rightarrow> string \<Rightarrow> string list \<Rightarrow> string" where
  "binding_of lib keyid bs = hex_encode (sha256 lib (to_bytes (binding_json keyid bs)))"

text \<open>The critical section of \<^verbatim>\<open>/challenge\<close>: drop expired challenges, refuse when 256 are left.\<close>

definition put_challenge ::
  "(string \<Rightarrow> time) \<Rightarrow> string \<Rightarrow> issueChallenge \<Rightarrow> ('b, 'k) ticketAuthority
     \<Rightarrow> ('b, 'k) ticketAuthority \<times> bool" where
  "put_challenge nows n c A =
     (let live = filter (\<lambda>(k, c). \<not> nows k > Expires c) (challenges A) in
      if length live \<ge> 256 then (A\<lparr>challenges := live\<rparr>, False)
      else (A\<lparr>challenges := set_map n c live\<rparr>, True))"

text \<open>The critical section of \<^verbatim>\<open>/issue\<close>: a challenge is taken at most once.\<close>

definition take_challenge ::
  "string \<Rightarrow> ('b, 'k) ticketAuthority \<Rightarrow> ('b, 'k) ticketAuthority \<times> issueChallenge option" where
  "take_challenge n A = (A\<lparr>challenges := del_map n (challenges A)\<rparr>, get_map (challenges A) n)"

text \<open>The message that is signed: \<^verbatim>\<open>json.Marshal\<close> of a map, whose keys it sorts.\<close>

definition proof_message :: "relayProof \<Rightarrow> string" where
  "proof_message pr =
     ''{\"authorAddress\":'' @ json_quote (AuthorAddress pr) @
     '',\"authorPublicKey\":'' @ json_quote (AuthorPublicKey pr) @
     '',\"binding\":'' @ json_quote (PBinding pr) @
     '',\"expiresAt\":'' @ itoa (PExpiresAt pr) @
     '',\"nonce\":'' @ json_quote (Nonce pr) @
     '',\"policy\":'' @ json_quote (PPolicy pr) @
     '',\"relayPin\":'' @ json_quote (PRelayPin pr) @
     '',\"type\":'' @ json_quote (PType pr) @ ''}''"

definition proof_type :: string where
  "proof_type = ''masque-ticket-issue-v1''"

text \<open>The first check of \<^verbatim>\<open>/issue\<close>: the proof answers the challenge, for this key, request and relay.\<close>

definition check_challenge ::
  "accessPolicy \<Rightarrow> time \<Rightarrow> int \<Rightarrow> string \<Rightarrow> issueChallenge option \<Rightarrow> relayProof \<Rightarrow> bool" where
  "check_challenge p now epoch binding c pr =
     (case c of
        None \<Rightarrow> False
      | Some c \<Rightarrow>
          \<not> (now > Expires c \<or> ChEpoch c \<noteq> epoch \<or> Binding c \<noteq> binding \<or> PType pr \<noteq> proof_type
             \<or> PRelayPin pr \<noteq> pin p \<or> PPolicy pr \<noteq> revision p \<or> PBinding pr \<noteq> Binding c
             \<or> PExpiresAt pr \<noteq> unix_milli (Expires c)))"

text \<open>The second check: the signature of the key that the address belongs to.\<close>

definition check_author :: "'k lib \<Rightarrow> relayProof \<Rightarrow> bool" where
  "check_author lib pr =
     (case (decodeBase58 (AuthorPublicKey pr) 32, decodeBase58 (PSignature pr) 64) of
        (Some key, Some sig) \<Rightarrow>
          length key = 32 \<and> length sig = 64
          \<and> addressForKey (sha256 lib) (ripemd160 lib) key = AuthorAddress pr
          \<and> ed25519_verify lib key (to_bytes (proof_message pr)) sig
      | _ \<Rightarrow> False)"

definition quota_key :: "'k lib \<Rightarrow> int \<Rightarrow> string \<Rightarrow> string" where
  "quota_key lib epoch address = record_key epoch (hex_encode (sha256 lib (to_bytes address)))"

text \<open>The signing loop.\<close>

fun sign_all :: "'k lib \<Rightarrow> 'k \<Rightarrow> string list \<Rightarrow> string list option" where
  "sign_all lib key [] = Some []"
| "sign_all lib key (b # bs) =
     (case blind_sign lib key (case b64_decode b of None \<Rightarrow> [] | Some v \<Rightarrow> v) of
        None \<Rightarrow> None
      | Some s \<Rightarrow> (case sign_all lib key bs of None \<Rightarrow> None | Some out \<Rightarrow> Some (b64_encode s # out)))"

record http_request =
  Method :: string
  Path :: string
  Body :: "string option"

record 'k issue_env =
  ie_epoch :: time
  ie_desc :: "'k desc_env"
  ie_nonce :: "byte list option"
  ie_minted :: time
  ie_sweep :: "string \<Rightarrow> time"
  ie_answered :: time
  ie_member :: member_env
  ie_member_now :: time
  ie_waits :: "((accessPolicy \<Rightarrow> accessPolicy) \<times> time) list"
  ie_recheck :: lookup_env
  ie_commit :: bool
  ie_desc2 :: "'k desc_env"

text \<open>The membership verdict: the cached or fresh one, checked again when it predates the epoch.\<close>

definition issue_verdict ::
  "'k issue_env \<Rightarrow> int \<Rightarrow> string \<Rightarrow> accessPolicy \<Rightarrow> accessPolicy \<times> membershipResult" where
  "issue_verdict env epoch address p =
     (let (p1, r) = membership (ie_member env) (ie_member_now env) (ie_waits env) p address in
      if err r = None \<and> member r \<and> unix (checked r) < epoch * 3600 then
        (let (r', m) = checkGroups (ie_recheck env) (config p1) address (coreFailures p1)
         in (p1\<lparr>coreFailures := m\<rparr>, r'))
      else (p1, r))"

text \<open>From the membership verdict to the signatures.\<close>

definition issue_signed ::
  "'k lib \<Rightarrow> 'b bolt \<Rightarrow> 'k issue_env \<Rightarrow> ticketDescriptor \<Rightarrow> issue_input \<Rightarrow> relayProof
     \<Rightarrow> accessPolicy \<times> ('b, 'k) ticketAuthority \<Rightarrow> (accessPolicy \<times> ('b, 'k) ticketAuthority) \<times> reply" where
  "issue_signed lib B env d inp pr S =
     (let (p, A) = S; (p1, r) = issue_verdict env (Epoch d) (AuthorAddress pr) p in
      if err r \<noteq> None then ((p1, A), accessError 503 ''RELAY_MEMBERSHIP_UNAVAILABLE'')
      else if \<not> member r then ((p1, A), accessError 403 ''RELAY_ACCESS_DENIED'')
      else if ExpiresAt d > unix_milli (checked r + ticketLifetime) then
        ((p1, A), accessError 503 ''RELAY_AUTH_UNAVAILABLE'')
      else (case db_update (ie_commit env)
                   (quota_tx B (quota_key lib (Epoch d) (AuthorAddress pr)) (length (Blinded inp))) (authdb A) of
              (d', Some _) \<Rightarrow> ((p1, A\<lparr>authdb := d'\<rparr>), accessError 429 ''RELAY_AUTH_RATE_LIMITED'')
            | (d', None) \<Rightarrow>
                (case descriptor lib B p1 (ie_desc2 env) (Epoch d) (A\<lparr>authdb := d'\<rparr>) of
                   (A2, Inl _) \<Rightarrow> ((p1, A2), accessError 503 ''RELAY_AUTH_UNAVAILABLE'')
                 | (A2, Inr (_, key)) \<Rightarrow>
                     (case sign_all lib key (Blinded inp) of
                        None \<Rightarrow> ((p1, A2), accessError 403 ''RELAY_PROOF_INVALID'')
                      | Some out \<Rightarrow> ((p1, A2), Signatures out)))))"

text \<open>The part of \<^verbatim>\<open>handle\<close> after the slot is taken.\<close>

definition handle_slot ::
  "'k lib \<Rightarrow> 'b bolt \<Rightarrow> 'k issue_env \<Rightarrow> http_request
     \<Rightarrow> accessPolicy \<times> ('b, 'k) ticketAuthority \<Rightarrow> (accessPolicy \<times> ('b, 'k) ticketAuthority) \<times> reply" where
  "handle_slot lib B env req S =
     (let (p, A) = S; invalid = accessError 403 ''RELAY_PROOF_INVALID'' in
      if Method req \<noteq> ''POST'' then (S, accessError 405 ''RELAY_PROOF_INVALID'')
      else case map_option (take 8193) (Body req) of
        None \<Rightarrow> (S, accessError 400 ''RELAY_PROOF_INVALID'')
      | Some raw \<Rightarrow>
        if length raw > 8192 then (S, accessError 400 ''RELAY_PROOF_INVALID'')
        else case strictJSON (fold_name lib) (input_fields (fold_name lib)) zero_input (scan_json lib raw) of
          Inl _ \<Rightarrow> (S, accessError 400 ''RELAY_PROOF_INVALID'')
        | Inr inp \<Rightarrow>
          (case descriptor lib B p (ie_desc env) (epoch_of (ie_epoch env)) A of
             (A1, Inl _) \<Rightarrow> ((p, A1), accessError 503 ''RELAY_AUTH_UNAVAILABLE'')
           | (A1, Inr (d, _)) \<Rightarrow>
             if Path req = ''/catalog'' then ((p, A1), Catalog d)
             else if Mode (config p) \<noteq> ''groups'' then ((p, A1), accessError 403 ''RELAY_ACCESS_DENIED'')
             else if InDescriptor inp \<noteq> Some d \<or> length (Blinded inp) < 1 \<or> length (Blinded inp) > 3
             then ((p, A1), invalid)
             else if \<exists>b \<in> set (Blinded inp). map_option length (b64_decode b) \<noteq> Some 256
             then ((p, A1), invalid)
             else (let binding = binding_of lib (KeyID d) (Blinded inp) in
               if Path req = ''/challenge'' then
                 (case ie_nonce env of
                    None \<Rightarrow> ((p, A1), accessError 503 ''RELAY_AUTH_UNAVAILABLE'')
                  | Some nonce \<Rightarrow>
                      let n = hex_encode nonce; expires = ie_minted env + 60 * second;
                          c = \<lparr>Binding = binding, ChEpoch = Epoch d, Expires = expires\<rparr>
                      in (case put_challenge (ie_sweep env) n c A1 of
                            (A2, False) \<Rightarrow> ((p, A2), accessError 429 ''RELAY_AUTH_RATE_LIMITED'')
                          | (A2, True) \<Rightarrow> ((p, A2), Challenge binding n (unix_milli expires))))
               else (case (Path req = ''/issue'', Proof inp) of
                   (True, Some pr) \<Rightarrow>
                     (let (A2, c) = take_challenge (Nonce pr) A1 in
                      if \<not> check_challenge p (ie_answered env) (Epoch d) binding c pr then ((p, A2), invalid)
                      else if \<not> check_author lib pr then ((p, A2), invalid)
                      else issue_signed lib B env d inp pr (p, A2))
                 | _ \<Rightarrow> ((p, A1), invalid)))))"

text \<open>\<^verbatim>\<open>handle\<close>: at most eight requests at a time; the slot is given back on every path.\<close>

definition handle ::
  "'k lib \<Rightarrow> 'b bolt \<Rightarrow> 'k issue_env \<Rightarrow> http_request
     \<Rightarrow> accessPolicy \<times> ('b, 'k) ticketAuthority \<Rightarrow> (accessPolicy \<times> ('b, 'k) ticketAuthority) \<times> reply" where
  "handle lib B env req S =
     (let (p, A) = S in
      if slots A \<ge> 8 then (S, accessError 429 ''RELAY_AUTH_RATE_LIMITED'')
      else (let ((p', A'), out) = handle_slot lib B env req (p, A\<lparr>slots := slots A + 1\<rparr>)
            in ((p', A'\<lparr>slots := slots A' - 1\<rparr>), out)))"

section \<open>The socket\<close>

text \<open>What \<^verbatim>\<open>serve\<close> finds at the path and what the system calls return.\<close>

record serve_env =
  se_lstat :: "bool option"
  se_dial :: bool
  se_remove :: bool
  se_listen :: bool
  se_chmod :: bool

datatype serve_err = NotSocket | AlreadyRunning | RemoveErr | ListenErr | ChmodErr

text \<open>\<open>se_lstat\<close> is \<open>None\<close> when there is no file, else whether it is a socket. The second
  component says whether the file at the path was removed.\<close>

definition serve ::
  "serve_env \<Rightarrow> ('b, 'k) ticketAuthority \<Rightarrow> ('b, 'k) ticketAuthority \<times> bool \<times> serve_err option" where
  "serve env A =
     (let listen = (\<lambda>removed. if \<not> se_listen env then (A, removed, Some ListenErr)
                     else if \<not> se_chmod env then (A\<lparr>listener := True\<rparr>, removed, Some ChmodErr)
                     else (A\<lparr>listener := True\<rparr>, removed, None)) in
      case se_lstat env of
        None \<Rightarrow> listen False
      | Some socket \<Rightarrow>
          if \<not> socket then (A, False, Some NotSocket)
          else if se_dial env then (A, False, Some AlreadyRunning)
          else if \<not> se_remove env then (A, False, Some RemoveErr)
          else listen True)"

lemma serve_removes_only_stale:
  "serve env A = (A', True, e) \<Longrightarrow> se_lstat env = Some True \<and> \<not> se_dial env"
  by (auto simp: serve_def Let_def split: option.splits if_splits)

section \<open>What the operations do\<close>

text \<open>A transaction that ran leaves the database as it was or makes the change it describes.\<close>

lemma db_update_cases:
  assumes "db_update commit tx d = (d', e)"
  obtains "d' = d" "e \<noteq> None" | "tx d = Inr d'" "e = None"
  using assms by (auto simp: db_update_def split: sum.splits if_splits)

lemma load_key_frame [frame_simps]:
  assumes "load_key lib B p env n e A = (A', r)"
  shows "challenges A' = challenges A" and "slots A' = slots A" and "listener A' = listener A"
    and "spentB (authdb A') = spentB (authdb A)" and "quotaB (authdb A') = quotaB (authdb A)"
    and "metaB (authdb A') = metaB (authdb A)"
    and "keysB (authdb A') = keysB (authdb A)
         \<or> (e = n \<and> (\<exists>v. bput B (keysB (authdb A)) (key_name p e) v = Some (keysB (authdb A'))))"
  using assms
  by (auto simp: load_key_def put_key_def db_update_def Let_def
      split: option.splits if_splits sum.splits prod.splits)

lemma descriptor_ok:
  assumes "descriptor lib B p env e A = (A', Inr (d, key))"
  obtains d1 A1 where
    "epoch_of (de_now env) - 12 < e" "e \<le> epoch_of (de_now env)"
    "clock_tx B (epoch_of (de_now env)) (authdb A) = Inr d1"
    "load_key lib B p env (epoch_of (de_now env)) e (A\<lparr>authdb := d1\<rparr>) = (A1, Inr key)"
    "d = make_descriptor lib p e key" "authdb A' = authdb A1"
  using assms
  by (auto simp: descriptor_def Let_def elim!: db_update_cases split: if_splits prod.splits option.splits sum.splits)

lemma descriptor_frame [frame_simps]:
  assumes "descriptor lib B p env e A = (A', r)"
  shows "challenges A' = challenges A" and "slots A' = slots A" and "listener A' = listener A"
  using assms
  by (auto simp: descriptor_def Let_def load_key_frame split: if_splits prod.splits option.splits sum.splits)

text \<open>The database after a \<^verbatim>\<open>descriptor\<close> call, whatever it returns.\<close>

lemma descriptor_db:
  assumes "descriptor lib B p env e A = (A', r)"
  obtains d1 where "d1 = authdb A \<or> clock_tx B (epoch_of (de_now env)) (authdb A) = Inr d1"
    "spentB (authdb A') = spentB d1" "quotaB (authdb A') = quotaB d1" "metaB (authdb A') = metaB d1"
    "keysB (authdb A') = keysB d1
     \<or> (e = epoch_of (de_now env) \<and> (\<exists>v. bput B (keysB d1) (key_name p e) v = Some (keysB (authdb A'))))"
proof (cases "authdb A' = authdb A")
  case True
  then show ?thesis using that [of "authdb A"] by simp
next
  case False
  obtain d1 A1 s where d1: "clock_tx B (epoch_of (de_now env)) (authdb A) = Inr d1"
    and k: "load_key lib B p env (epoch_of (de_now env)) e (A\<lparr>authdb := d1\<rparr>) = (A1, s)"
    and A': "authdb A' = authdb A1"
    using assms False
    by (auto simp: descriptor_def Let_def elim!: db_update_cases
        split: if_splits prod.splits option.splits sum.splits)
  show ?thesis using load_key_frame [OF k] d1 A' that [of d1] by simp
qed

lemma redeem_ok:
  assumes "redeem lib B p env raw A = (A', Inr (ident, until))"
  obtains v d key msg A1 d' where
    "length raw \<le> 2048"
    "strictJSON (fold_name lib) ticket_fields zero_ticket (scan_json lib raw) = Inr v"
    "descriptor lib B p (re_desc env) (TkEpoch v) A = (A1, Inr (d, key))"
    "KeyID d = TkKeyID v" "unix_milli (re_now env) < ExpiresAt d"
    "check_ticket lib d key v = Some msg" "ident = ticket_id lib msg"
    "spend_tx B (epoch_of (re_cutoff env) - 12) (record_key (TkEpoch v) ident) (authdb A1) = Inr d'"
    "A' = A1\<lparr>authdb := d'\<rparr>"
    "until = re_base env + (ExpiresAt d - unix_milli (re_left env)) * millisecond"
  using assms
  by (auto simp: redeem_def Let_def elim!: db_update_cases
      split: if_splits prod.splits option.splits sum.splits)

lemma expires_eq [simp]: "ExpiresAt (make_descriptor lib p e key) = (e + 12) * 3600000"
  by (simp add: make_descriptor_def ticketLifetime_def Let_def)

section \<open>Redemption is sound\<close>

lemma check_ticketD:
  assumes "check_ticket lib d key v = Some msg"
  obtains sig where "b64_decode (Message v) = Some msg" "b64_decode (TkSignature v) = Some sig"
    "length msg = length (to_bytes (ticketDomain @ KeyID d)) + 32" "has_prefix msg (to_bytes (ticketDomain @ KeyID d))"
    "length sig = 256" "blind_verify lib key msg sig"
  using assms by (auto simp: check_ticket_def Let_def split: option.splits if_splits)


lemma milli_bounds: "unix_milli t * millisecond \<le> t" "t < unix_milli t * millisecond + millisecond"
  by (simp_all add: unix_milli_def)

text \<open>The authorization a ticket buys ends when the ticket's epoch expires. With the clock
  not running backwards between the last two readings, the deadline is before the expiry
  instant plus one millisecond, and short of it by no more than the time between the two
  readings; the expiry itself is at most twelve hours after the end of the hour in which the
  ticket was presented.\<close>

theorem redeem_deadline:
  assumes "redeem lib B p env raw A = (A', Inr (ident, until))" and "re_base env \<le> re_left env"
  shows "\<exists>e. epoch_of (de_now (re_desc env)) - 12 < e \<and> e \<le> epoch_of (de_now (re_desc env))
    \<and> (e + 12) * 3600 * second - (re_left env - re_base env) \<le> until
    \<and> until < (e + 12) * 3600 * second + millisecond"
proof -
  obtain v :: ticket and d key msg A1 d' where r:
    "descriptor lib B p (re_desc env) (TkEpoch v) A = (A1, Inr (d, key))"
    "until = re_base env + (ExpiresAt d - unix_milli (re_left env)) * millisecond"
    using assms(1) by (rule redeem_ok)
  obtain d1 A2 where d: "epoch_of (de_now (re_desc env)) - 12 < TkEpoch v" "TkEpoch v \<le> epoch_of (de_now (re_desc env))"
    "d = make_descriptor lib p (TkEpoch v) key"
    using r(1) by (rule descriptor_ok)
  have "ExpiresAt d * millisecond = (TkEpoch v + 12) * 3600 * second" by (simp add: d(3))
  then have "until = re_base env + (TkEpoch v + 12) * 3600 * second - unix_milli (re_left env) * millisecond"
    by (simp add: r(2) left_diff_distrib)
  then show ?thesis
    using d(1,2) milli_bounds [of "re_left env"] assms(2) by (intro exI [of _ "TkEpoch v"]) linarith
qed

text \<open>C38: A marker can only be dropped by the transaction that tests it when the ticket has
  expired meanwhile; a redemption that still succeeds then yields a deadline that is not in
  the future, so it authorizes nothing.\<close>

theorem redeem_after_expiry_is_void:
  assumes "redeem lib B p env raw A = (A', Inr (ident, until))"
    and "strictJSON (fold_name lib) ticket_fields zero_ticket (scan_json lib raw) = Inr v"
    and "TkEpoch v \<le> epoch_of (re_cutoff env) - 12" and "0 \<le> re_cutoff env" and "re_cutoff env \<le> re_left env"
  shows "until \<le> re_base env"
proof -
  obtain v' d key msg A1 d' where r:
    "strictJSON (fold_name lib) ticket_fields zero_ticket (scan_json lib raw) = Inr v'"
    "descriptor lib B p (re_desc env) (TkEpoch v') A = (A1, Inr (d, key))"
    "until = re_base env + (ExpiresAt d - unix_milli (re_left env)) * millisecond"
    using assms(1) by (rule redeem_ok)
  have v: "v' = v" using r(1) assms(2) by simp
  obtain d1 A2 where d: "d = make_descriptor lib p (TkEpoch v) key" using r(2) unfolding v by (rule descriptor_ok)
  have "epoch_of (re_cutoff env) * 3600 \<le> unix (re_cutoff env)"
    using assms(4) by (simp add: epoch_of_def unix_def)
  then have "(TkEpoch v + 12) * 3600 \<le> unix (re_cutoff env)" using assms(3) by simp
  also have "\<dots> \<le> unix (re_left env)" using assms(5) by (rule unix_mono)
  finally have "(TkEpoch v + 12) * 3600000 \<le> unix_milli (re_left env)" by (simp add: unix_of_milli)
  then have "ExpiresAt d - unix_milli (re_left env) \<le> 0" by (simp add: d)
  then show ?thesis using r(3) by (simp add: mult_nonpos_nonneg)
qed

section \<open>A worked example\<close>

text \<open>Toy primitives and a relay whose database is empty, in hour 100; the ticket text decodes to a
  ticket of that hour.\<close>

definition demo_lib0 :: "nat lib" where
  "demo_lib0 =
     \<lparr>sha256 = (\<lambda>b. take 32 (b @ replicate 32 0)), ripemd160 = (\<lambda>b. take 20 (b @ replicate 20 0)),
      ed25519_verify = (\<lambda>k m s. True), marshal_priv = (\<lambda>k. itoa (int k)), parse_priv = (\<lambda>s. Some 7),
      marshal_pub = (\<lambda>k. [of_nat k]), blind_sign = (\<lambda>k b. Some b), blind_verify = (\<lambda>k m s. True),
      scan_json = (\<lambda>s. \<lparr>jt_values = [], jt_rest = [], jt_eof = True\<rparr>), fold_name = id\<rparr>"

definition demo_kid :: string where
  "demo_kid = ticketKeyID demo_lib0 [7] (revision demo_policy) (pin demo_policy) 100"

definition demo_msg :: "byte list" where
  "demo_msg = to_bytes (ticketDomain @ demo_kid) @ replicate 32 0"

definition demo_ticket :: ticket where
  "demo_ticket = \<lparr>TkEpoch = 100, TkKeyID = demo_kid, Message = b64_encode demo_msg,
     TkSignature = b64_encode (replicate 256 0)\<rparr>"

definition demo_ticket_text :: json_text where
  "demo_ticket_text =
     \<lparr>jt_values = [JObj [(''epoch'', JNum ''100''), (''keyId'', JStr demo_kid),
        (''message'', JStr (b64_encode demo_msg)), (''signature'', JStr (b64_encode (replicate 256 0)))]],
      jt_rest = [], jt_eof = True\<rparr>"

definition demo_lib :: "nat lib" where
  "demo_lib = demo_lib0\<lparr>scan_json := (\<lambda>s. demo_ticket_text)\<rparr>"

definition demo_db :: "(string, string) rbt tdb" where
  "demo_db = \<lparr>keysB = RBT.empty, spentB = RBT.empty, quotaB = RBT.empty, metaB = RBT.empty\<rparr>"

definition demo_auth :: "((string, string) rbt, nat) ticketAuthority" where
  "demo_auth = \<lparr>authdb = demo_db, challenges = [], tkeys = [], slots = 0, listener = False\<rparr>"

definition demo_desc_env :: "nat desc_env" where
  "demo_desc_env = \<lparr>de_now = 100 * 3600 * second, de_commit = True, de_view = True, de_gen = Some 7, de_store = True\<rparr>"

definition demo_redeem_env :: "nat redeem_env" where
  "demo_redeem_env = \<lparr>re_desc = demo_desc_env, re_now = 100 * 3600 * second + 1, re_cutoff = 100 * 3600 * second + 2,
     re_commit = True, re_base = 100 * 3600 * second + 3, re_left = 100 * 3600 * second + 4\<rparr>"

text \<open>The database after the first call of \<^verbatim>\<open>descriptor\<close>, and after the redemption.\<close>

definition demo_db1 :: "(string, string) rbt tdb" where
  "demo_db1 = demo_db\<lparr>metaB := RBT.insert ''latestEpoch'' (itoa 100) RBT.empty,
     keysB := RBT.insert (key_name demo_policy 100) (itoa 7) RBT.empty\<rparr>"

definition demo_db2 :: "(string, string) rbt tdb" where
  "demo_db2 = demo_db1\<lparr>spentB := RBT.insert (record_key 100 (ticket_id demo_lib demo_msg)) [CHR 0x01] RBT.empty\<rparr>"

lemma rbt_bolt_simps [simp]:
  "bget rbt_bolt = RBT.lookup" "bput rbt_bolt b k v = Some (RBT.insert k v b)" "bdel rbt_bolt b k = Some (RBT.delete k b)"
  "bkeys rbt_bolt = RBT.keys" "bkeyn rbt_bolt b b' = length (RBT.keys b')"
  by (simp_all add: rbt_bolt_def)

lemma keys_rbt_empty [simp]: "RBT.keys (RBT.empty :: (string, 'v) rbt) = []"
  using RBT.lookup_keys [of "RBT.empty :: (string, 'v) rbt"] by simp

lemma demo_epoch [simp]: "epoch_of (de_now demo_desc_env) = 100"
  by (simp add: demo_desc_env_def epoch_of_def unix_def)

lemma demo_lib_simps [simp]:
  "marshal_priv demo_lib k = itoa (int k)" "parse_priv demo_lib s = Some 7" "marshal_pub demo_lib k = [of_nat k]"
  "blind_verify demo_lib k m sg = True" "scan_json demo_lib t = demo_ticket_text" "fold_name demo_lib = id"
  "ticketKeyID demo_lib = ticketKeyID demo_lib0" "blind_sign demo_lib k b = Some b"
  by (simp_all add: demo_lib_def demo_lib0_def ticketKeyID_def fun_eq_iff)

lemma demo_descriptor:
  "descriptor demo_lib rbt_bolt demo_policy demo_desc_env 100 demo_auth
   = (demo_auth\<lparr>authdb := demo_db1, tkeys := [(100, 7)]\<rparr>, Inr (make_descriptor demo_lib demo_policy 100 7, 7))"
  by (simp add: descriptor_def load_key_def db_update_def clock_tx_def latest_epoch_def prune_bucket_def
      put_key_def demo_auth_def demo_db_def demo_db1_def demo_desc_env_def epoch_of_def unix_def)

lemma demo_json: "strictJSON id ticket_fields zero_ticket demo_ticket_text = Inr demo_ticket"
  unfolding strictJSON_iff
  by (simp add: demo_ticket_text_def ticket_fields_def zero_ticket_def demo_ticket_def find_field_def json_int_def
      parse_int_def parse_uint_def is_digit_def digit_val_def)

lemma demo_kid_eq: "KeyID (make_descriptor demo_lib demo_policy 100 7) = demo_kid"
  by (simp add: make_descriptor_def demo_kid_def)

lemma demo_check_ticket:
  "check_ticket demo_lib (make_descriptor demo_lib demo_policy 100 7) 7 demo_ticket = Some demo_msg"
proof -
  have "has_prefix demo_msg (to_bytes (ticketDomain @ demo_kid))"
    "length demo_msg = length (to_bytes (ticketDomain @ demo_kid)) + 32"
    by (simp_all add: has_prefix_def demo_msg_def)
  then show ?thesis
    by (simp add: check_ticket_def demo_kid_eq demo_ticket_def Let_def del: to_bytes_append)
qed

lemma demo_redeem:
  "redeem demo_lib rbt_bolt demo_policy demo_redeem_env ''t'' demo_auth
   = (demo_auth\<lparr>authdb := demo_db2, tkeys := [(100, 7)]\<rparr>,
      Inr (ticket_id demo_lib demo_msg, 112 * 3600 * second + 3))"
proof -
  have e: "TkEpoch demo_ticket = 100" "TkKeyID demo_ticket = demo_kid" by (simp_all add: demo_ticket_def)
  have k: "KeyID (make_descriptor demo_lib demo_policy 100 7) = demo_kid" by (rule demo_kid_eq)
  show ?thesis
    using demo_descriptor demo_json demo_check_ticket
    by (simp add: redeem_def e k Let_def demo_redeem_env_def spend_tx_def db_update_def demo_db1_def demo_db2_def
        demo_db_def unix_milli_def)
qed


theorem redeem_deadline_witness:
  "\<exists>e. 100 - 12 < e \<and> e \<le> 100 \<and> (e + 12) * 3600 * second - 1 \<le> 112 * 3600 * second + 3
     \<and> 112 * 3600 * second + 3 < (e + 12) * 3600 * second + millisecond"
proof -
  have "re_base demo_redeem_env \<le> re_left demo_redeem_env" by (simp add: demo_redeem_env_def)
  from redeem_deadline [OF demo_redeem this] show ?thesis
    by (auto simp: demo_redeem_env_def demo_desc_env_def epoch_of_def unix_def)
qed

text \<open>The same ticket presented again as its epoch expires: the key is still handed out in hour 111, and the
  transaction that tests the marker reads hour 112 and drops it first.\<close>

definition demo_late_env :: "nat redeem_env" where
  "demo_late_env = \<lparr>re_desc = demo_desc_env\<lparr>de_now := 112 * 3600 * second - 2000000\<rparr>,
     re_now = 112 * 3600 * second - 1000000, re_cutoff = 112 * 3600 * second,
     re_commit = True, re_base = 112 * 3600 * second + 1, re_left = 112 * 3600 * second + 2\<rparr>"

lemma keys_rbt_one: "RBT.keys (RBT.insert k v (RBT.empty :: (string, 'v) rbt)) = [k]"
proof -
  let ?ks = "RBT.keys (RBT.insert k v (RBT.empty :: (string, 'v) rbt))"
  have s: "set ?ks = {k}" using RBT.lookup_keys [of "RBT.insert k v (RBT.empty :: (string, 'v) rbt)"] by simp
  have "length ?ks = 1" using distinct_card [OF RBT.distinct_keys] s by (metis card_insert_disjoint card.empty empty_iff finite.emptyI One_nat_def)
  with s show ?thesis by (cases ?ks) auto
qed

lemma revision_colon: "CHR '':'' \<notin> set (revision demo_policy)"
  by (simp add: demo_policy_def policy_revision_def)

lemma demo_late_prune:
  "prune_bucket rbt_bolt 1 99 (keysB demo_db1) = Inr (keysB demo_db1)"
  "prune_bucket rbt_bolt 0 99 (spentB demo_db2) = Inr (spentB demo_db2)"
proof -
  have "split_on CHR '':'' (key_name demo_policy 100) = [revision demo_policy, itoa 100]"
    by (simp add: key_name_def split_on_first split_on_none revision_colon)
  then show "prune_bucket rbt_bolt 1 99 (keysB demo_db1) = Inr (keysB demo_db1)"
    by (simp add: prune_bucket_def demo_db1_def keys_rbt_one parse_int_itoa)
  show "prune_bucket rbt_bolt 0 99 (spentB demo_db2) = Inr (spentB demo_db2)"
    using key_epoch_record [of 100 "ticket_id demo_lib demo_msg"]
    by (simp add: prune_bucket_def demo_db2_def keys_rbt_one Let_def)
qed

lemma demo_late_descriptor:
  "descriptor demo_lib rbt_bolt demo_policy (re_desc demo_late_env) 100 (demo_auth\<lparr>authdb := demo_db2, tkeys := [(100, 7)]\<rparr>)
   = (demo_auth\<lparr>authdb := demo_db2\<lparr>metaB := RBT.insert ''latestEpoch'' (itoa 111) (metaB demo_db1)\<rparr>, tkeys := [(100, 7)]\<rparr>,
      Inr (make_descriptor demo_lib demo_policy 100 7, 7))"
proof -
  have now: "epoch_of (de_now (re_desc demo_late_env)) = 111" by (simp add: demo_late_env_def epoch_of_def unix_def)
  have frame: "keysB demo_db2 = keysB demo_db1" "quotaB demo_db2 = RBT.empty" "metaB demo_db2 = metaB demo_db1"
    by (simp_all add: demo_db2_def demo_db1_def demo_db_def)
  have late: "latest_epoch rbt_bolt demo_db2 = 100"
    by (simp add: latest_epoch_def frame(3), simp add: demo_db1_def parse_int_itoa)
  have "clock_tx rbt_bolt 111 demo_db2 = Inr (demo_db2\<lparr>metaB := RBT.insert ''latestEpoch'' (itoa 111) (metaB demo_db1)\<rparr>)"
    using demo_late_prune
    by (simp add: clock_tx_def late frame, simp add: prune_bucket_def) (rule tdb.equality; simp add: frame)
  moreover have "de_commit (re_desc demo_late_env)" by (simp add: demo_late_env_def demo_desc_env_def)
  ultimately show ?thesis
    by (simp add: descriptor_def now load_key_def db_update_def Let_def)
qed

text \<open>The spent marker is dropped and written again: the second redemption succeeds.\<close>

lemma demo_late_spend:
  "\<exists>d'. spend_tx rbt_bolt 100 (record_key 100 (ticket_id demo_lib demo_msg))
     (demo_db2\<lparr>metaB := RBT.insert ''latestEpoch'' (itoa 111) (metaB demo_db1)\<rparr>) = Inr d'"
proof -
  let ?k = "record_key 100 (ticket_id demo_lib demo_msg)"
  let ?s = "RBT.delete ?k (RBT.insert ?k [CHR 0x01] RBT.empty)"
  have drop: "drop_expired rbt_bolt 100 [?k] (RBT.insert ?k [CHR 0x01] RBT.empty) = Inr ?s"
    using key_epoch_record [of 100 "ticket_id demo_lib demo_msg"] by simp
  have none: "RBT.lookup ?s ?k = None" by simp
  have "set (RBT.keys ?s) = {}" using RBT.lookup_keys [of ?s] by auto
  then have empty: "RBT.keys ?s = []" by simp
  show ?thesis
    using drop none by (simp add: spend_tx_def demo_db2_def demo_db1_def demo_db_def keys_rbt_one empty)
qed

theorem redeem_after_expiry_is_void_witness:
  "\<exists>A' until. redeem demo_lib rbt_bolt demo_policy demo_late_env ''t'' (fst (redeem demo_lib rbt_bolt demo_policy
      demo_redeem_env ''t'' demo_auth)) = (A', Inr (ticket_id demo_lib demo_msg, until)) \<and> until \<le> re_base demo_late_env"
proof -
  obtain d' where sp: "spend_tx rbt_bolt 100 (record_key 100 (ticket_id demo_lib demo_msg))
     (demo_db2\<lparr>metaB := RBT.insert ''latestEpoch'' (itoa 111) (metaB demo_db1)\<rparr>) = Inr d'"
    using demo_late_spend by blast
  have e: "TkEpoch demo_ticket = 100" "TkKeyID demo_ticket = demo_kid" by (simp_all add: demo_ticket_def)
  have cut: "epoch_of (re_cutoff demo_late_env) = 112" by (simp add: demo_late_env_def epoch_of_def unix_def)
  have time: "\<not> ExpiresAt (make_descriptor demo_lib demo_policy 100 7) \<le> unix_milli (re_now demo_late_env)"
    "re_commit demo_late_env" by (simp_all add: demo_late_env_def unix_milli_def)
  obtain A' until where late: "redeem demo_lib rbt_bolt demo_policy demo_late_env ''t''
      (fst (redeem demo_lib rbt_bolt demo_policy demo_redeem_env ''t'' demo_auth))
      = (A', Inr (ticket_id demo_lib demo_msg, until))"
    unfolding demo_redeem fst_conv
    using demo_late_descriptor demo_json demo_check_ticket sp time
    by (simp add: redeem_def e cut demo_kid_eq Let_def db_update_def)
  have "until \<le> re_base demo_late_env"
  proof (rule redeem_after_expiry_is_void [OF late])
    show "strictJSON (fold_name demo_lib) ticket_fields zero_ticket (scan_json demo_lib ''t'') = Inr demo_ticket"
      using demo_json by simp
    show "TkEpoch demo_ticket \<le> epoch_of (re_cutoff demo_late_env) - 12" by (simp add: cut e)
  qed (simp_all add: demo_late_env_def)
  with late show ?thesis by blast
qed

end
