(* ===== verification/Ticket_Issue.thy ===== *)
theory Ticket_Issue
  imports Tickets
begin

text \<open>
  Keys and issuance of the ticket authority: the signing key of an epoch survives restarts, a
  clock that runs backwards is refused, and blind signatures go only to proven members who answer a
  live challenge (\<^verbatim>\<open>descriptor\<close> and \<^verbatim>\<open>handle\<close> of \<^verbatim>\<open>internal/relay/tickets.go\<close>, defined in \<open>Tickets\<close>).
\<close>

section \<open>Keys and the clock\<close>

lemma load_key_stored:
  assumes "bolt_db B" and "load_key lib B p env n e A = (A', Inr k)" and "get_map (tkeys A) e = None"
    and "parse_priv lib (marshal_priv lib k) = Some k" "marshal_priv lib k \<noteq> []"
  shows "\<exists>v. bget B (keysB (authdb A')) (key_name p e) = Some v \<and> v \<noteq> [] \<and> parse_priv lib v = Some k"
  using assms(2-) bolt_db.get_put [OF assms(1)]
  by (auto simp: load_key_def put_key_def Let_def elim!: db_update_cases split: option.splits if_splits prod.splits)

lemma load_key_reads:
  assumes "load_key lib B p env n e A = (A', Inr k)" and "tkeys A = []"
    and "bget B (keysB (authdb A)) (key_name p e) = Some v" "v \<noteq> []" "parse_priv lib v = Some k0"
  shows "k = k0"
  using assms by (auto simp: load_key_def split: if_splits)

lemma clock_keeps_name:
  assumes "bolt_db B" and "clock_tx B h d = Inr d'" and "CHR '':'' \<notin> set (revision p)"
    and "h - 12 < e" "- (2 ^ 63) \<le> e" "e < 2 ^ 63"
  shows "bget B (keysB d') (key_name p e) = bget B (keysB d) (key_name p e)"
proof -
  have "split_on CHR '':'' (key_name p e) = [revision p, itoa e]"
    using assms(3) by (simp add: key_name_def split_on_first split_on_none)
  then have ep: "fst (parse_int (split_on CHR '':'' (key_name p e) ! 1)) = e"
    using assms(5,6) by (simp add: parse_int_itoa)
  from assms(2) show ?thesis
  proof (rule bolt_db.clock_cases [OF assms(1)])
    assume "prune_bucket B 1 (h - 12) (keysB d) = Inr (keysB d')"
    from bolt_db.prune_bucket_get [OF assms(1) this, of "key_name p e"] show ?thesis
      using ep assms(4) by simp
  qed simp
qed

text \<open>C21: The signing key of an epoch survives a restart. If a process that had no key of the epoch in memory
  obtains one, then a process started later on the same database that obtains a key for the same
  epoch and policy obtains the same key and hence the same descriptor: tickets issued before a
  restart are still redeemable after it. Serialised keys are assumed to parse back.\<close>

theorem epoch_key_survives_restart:
  assumes "bolt_db B" and "\<And>k. parse_priv lib (marshal_priv lib k) = Some k" and "\<And>k. marshal_priv lib k \<noteq> []"
    and "CHR '':'' \<notin> set (revision p)" and "0 \<le> e" "e < 2 ^ 63"
    and "descriptor lib B p env e A = (A1, Inr (d1, k1))" and "get_map (tkeys A) e = None"
    and "authdb A2 = authdb A1" and "tkeys A2 = []"
    and "descriptor lib B p env2 e A2 = (A3, Inr (d2, k2))"
  shows "k2 = k1 \<and> d2 = d1"
proof -
  obtain b C where 1: "load_key lib B p env (epoch_of (de_now env)) e (A\<lparr>authdb := b\<rparr>) = (C, Inr k1)"
    "d1 = make_descriptor lib p e k1" "authdb A1 = authdb C" using assms(7) by (rule descriptor_ok)
  obtain v where v: "bget B (keysB (authdb A2)) (key_name p e) = Some v" "v \<noteq> []" "parse_priv lib v = Some k1"
    using load_key_stored [OF assms(1) 1(1)] assms(2,3,8,9) 1(3) by auto
  obtain b2 C2 where 2: "epoch_of (de_now env2) - 12 < e" "clock_tx B (epoch_of (de_now env2)) (authdb A2) = Inr b2"
    "load_key lib B p env2 (epoch_of (de_now env2)) e (A2\<lparr>authdb := b2\<rparr>) = (C2, Inr k2)"
    "d2 = make_descriptor lib p e k2" using assms(11) by (rule descriptor_ok)
  have "bget B (keysB b2) (key_name p e) = Some v"
    using clock_keeps_name [OF assms(1) 2(2) assms(4) 2(1)] assms(5,6) v(1) by simp
  then have "k2 = k1" using load_key_reads [OF 2(3)] assms(10) v(2,3) by simp
  then show ?thesis using 1(2) 2(4) by simp
qed

text \<open>C20: A clock that runs backwards is refused. Once an authority has handed out a key, every later call on the
  same database (also after a restart, and under any policy) whose clock reads an earlier hour fails
  and changes nothing.\<close>

theorem clock_rollback_refused:
  assumes "bolt_db B" and "descriptor lib B p env e A = (A1, Inr x)"
    and "0 \<le> de_now env" "de_now env < 2 ^ 63"
    and "authdb A2 = authdb A1" and "epoch_of (de_now env2) < epoch_of (de_now env)"
  shows "\<exists>y. descriptor lib B p2 env2 e2 A2 = (A2, Inl y)"
proof -
  obtain d k where x: "x = (d, k)" by fastforce
  obtain b C where 1: "clock_tx B (epoch_of (de_now env)) (authdb A) = Inr b"
    "load_key lib B p env (epoch_of (de_now env)) e (A\<lparr>authdb := b\<rparr>) = (C, Inr k)" "authdb A1 = authdb C"
    using assms(2) unfolding x by (rule descriptor_ok)
  have "0 \<le> epoch_of (de_now env)" "epoch_of (de_now env) < 2 ^ 63"
    using assms(3,4) by (simp_all add: epoch_of_def unix_def)
  then have "latest_epoch B b = epoch_of (de_now env)" using bolt_db.clock_latest [OF assms(1) 1(1)] by simp
  moreover have "metaB (authdb A1) = metaB b" using load_key_frame(6) [OF 1(2)] 1(3) by simp
  ultimately have "epoch_of (de_now env2) < latest_epoch B (authdb A2)"
    using assms(5,6) by (simp add: latest_epoch_def)
  then show ?thesis by (auto simp: descriptor_def db_update_def clock_tx_def Let_def)
qed

text \<open>A restart within the hour: the second process would generate another key, and finds the stored one.\<close>

definition demo_key_lib :: "string lib" where
  "demo_key_lib =
     \<lparr>sha256 = id, ripemd160 = id, ed25519_verify = (\<lambda>k m s. True), marshal_priv = (\<lambda>k. CHR ''k'' # k),
      parse_priv = (\<lambda>s. Some (tl s)), marshal_pub = to_bytes, blind_sign = (\<lambda>k b. Some b), blind_verify = (\<lambda>k m s. True),
      scan_json = (\<lambda>s. \<lparr>jt_values = [], jt_rest = [], jt_eof = True\<rparr>), fold_name = id\<rparr>"

definition demo_key_env :: "string \<Rightarrow> string desc_env" where
  "demo_key_env k = \<lparr>de_now = 100 * 3600 * second, de_commit = True, de_view = True, de_gen = Some k, de_store = True\<rparr>"

definition demo_key_auth :: "(string, string) rbt tdb \<Rightarrow> ((string, string) rbt, string) ticketAuthority" where
  "demo_key_auth d = \<lparr>authdb = d, challenges = [], tkeys = [], slots = 0, listener = False\<rparr>"

definition demo_key_db :: "(string, string) rbt tdb" where
  "demo_key_db = demo_db\<lparr>metaB := RBT.insert ''latestEpoch'' (itoa 100) RBT.empty,
     keysB := RBT.insert (key_name demo_policy 100) ''kx'' RBT.empty\<rparr>"

lemma demo_key_first:
  "descriptor demo_key_lib rbt_bolt demo_policy (demo_key_env ''x'') 100 (demo_key_auth demo_db)
   = (demo_key_auth demo_key_db\<lparr>tkeys := [(100, ''x'')]\<rparr>, Inr (make_descriptor demo_key_lib demo_policy 100 ''x'', ''x''))"
  by (simp add: descriptor_def load_key_def db_update_def clock_tx_def latest_epoch_def prune_bucket_def
      put_key_def demo_key_auth_def demo_db_def demo_key_db_def demo_key_env_def demo_key_lib_def epoch_of_def unix_def)

lemma demo_key_second:
  "\<exists>A k. descriptor demo_key_lib rbt_bolt demo_policy (demo_key_env ''y'') 100 (demo_key_auth demo_key_db)
   = (A, Inr (make_descriptor demo_key_lib demo_policy 100 k, k))"
  by (simp add: descriptor_def load_key_def db_update_def clock_tx_def latest_epoch_def parse_int_itoa
      demo_key_auth_def demo_key_db_def demo_key_env_def demo_key_lib_def epoch_of_def unix_def)

theorem epoch_key_survives_restart_witness:
  "\<exists>A. descriptor demo_key_lib rbt_bolt demo_policy (demo_key_env ''y'') 100 (demo_key_auth demo_key_db)
   = (A, Inr (make_descriptor demo_key_lib demo_policy 100 ''x'', ''x''))"
proof -
  obtain A k where d: "descriptor demo_key_lib rbt_bolt demo_policy (demo_key_env ''y'') 100 (demo_key_auth demo_key_db)
     = (A, Inr (make_descriptor demo_key_lib demo_policy 100 k, k))" using demo_key_second by blast
  have "k = ''x'' \<and> make_descriptor demo_key_lib demo_policy 100 k = make_descriptor demo_key_lib demo_policy 100 ''x''"
    by (rule epoch_key_survives_restart [OF rb.bolt_db_axioms _ _ revision_colon _ _ demo_key_first _ _ _ d])
       (simp_all add: demo_key_lib_def demo_key_auth_def)
  with d show ?thesis by auto
qed

theorem clock_rollback_refused_witness:
  "\<exists>y. descriptor demo_lib rbt_bolt demo_policy (demo_desc_env\<lparr>de_now := 99 * 3600 * second\<rparr>) 99
     (demo_auth\<lparr>authdb := demo_db1, tkeys := [(100, 7)]\<rparr>) = (demo_auth\<lparr>authdb := demo_db1, tkeys := [(100, 7)]\<rparr>, Inl y)"
  by (rule clock_rollback_refused [OF rb.bolt_db_axioms demo_descriptor])
     (simp_all add: demo_desc_env_def epoch_of_def unix_def)

section \<open>Issuance\<close>

lemma accessError_neq [simp]:
  "accessError s c \<noteq> Signatures out" "accessError s c \<noteq> Catalog d" "accessError s c \<noteq> Challenge b n t"
  by (simp_all add: accessError_def)

lemma sign_all_length: "sign_all lib key bs = Some out \<Longrightarrow> length out = length bs"
  by (induction bs arbitrary: out) (auto split: option.splits)

lemma issue_signedD:
  assumes "issue_signed lib B env d inp pr (p, A) = ((p', A'), Signatures out)"
  obtains r d' key x where "issue_verdict env (Epoch d) (AuthorAddress pr) p = (p', r)" "err r = None" "member r"
    "ExpiresAt d \<le> unix_milli (checked r + ticketLifetime)"
    "quota_tx B (quota_key lib (Epoch d) (AuthorAddress pr)) (length (Blinded inp)) (authdb A) = Inr d'"
    "descriptor lib B p' (ie_desc2 env) (Epoch d) (A\<lparr>authdb := d'\<rparr>) = (A', Inr (x, key))"
    "sign_all lib key (Blinded inp) = Some out"
  using assms
  by (auto simp: issue_signed_def elim!: db_update_cases split: prod.splits if_splits option.splits sum.splits)

lemma handle_slotD:
  assumes "handle_slot lib B env req (p, A) = (S', Signatures out)"
  obtains raw inp A1 d k pr where
    "Method req = ''POST''" "Path req = ''/issue''" "Body req = Some raw"
    "strictJSON (fold_name lib) (input_fields (fold_name lib)) zero_input (scan_json lib (take 8193 raw)) = Inr inp"
    "descriptor lib B p (ie_desc env) (epoch_of (ie_epoch env)) A = (A1, Inr (d, k))"
    "Mode (config p) = ''groups''" "InDescriptor inp = Some d"
    "Blinded inp \<noteq> []" "length (Blinded inp) \<le> 3" "Proof inp = Some pr"
    "check_challenge p (ie_answered env) (Epoch d) (binding_of lib (KeyID d) (Blinded inp)) (get_map (challenges A1) (Nonce pr)) pr"
    "check_author lib pr"
    "issue_signed lib B env d inp pr (p, A1\<lparr>challenges := del_map (Nonce pr) (challenges A1)\<rparr>) = (S', Signatures out)"
  using assms
  by (auto simp: handle_slot_def Let_def take_challenge_def split: prod.splits if_splits option.splits sum.splits bool.splits)

text \<open>C4: Signatures are only issued to a proven member who answers a live challenge. When \<^verbatim>\<open>handle\<close>
  returns signatures, the relay restricts access to groups; the request was a strict JSON \<^verbatim>\<open>/issue\<close> for the current
  key with one to three messages, and gets as many signatures back; its proof answers an unexpired
  challenge that was stored for exactly this key and these messages and is gone afterwards; the
  proof is signed by the key that its address belongs to; the membership verdict for that address is
  positive and was established no earlier than the start of the ticket epoch; and the reservation
  fits the quota.\<close>

theorem issue_sound:
  assumes "handle lib B env req (p, A) = ((p', A'), Signatures out)"
  shows "\<exists>raw (inp :: issue_input) (pr :: relayProof) (d :: ticketDescriptor) key (c :: issueChallenge)
        (r :: membershipResult). Body req = Some raw
    \<and> strictJSON (fold_name lib) (input_fields (fold_name lib)) zero_input (scan_json lib (take 8193 raw)) = Inr inp
    \<and> Mode (config p) = ''groups'' \<and> Path req = ''/issue'' \<and> InDescriptor inp = Some d
    \<and> d = make_descriptor lib p (epoch_of (ie_epoch env)) key
    \<and> 1 \<le> length (Blinded inp) \<and> length (Blinded inp) \<le> 3 \<and> length out = length (Blinded inp)
    \<and> Proof inp = Some pr \<and> get_map (challenges A) (Nonce pr) = Some c \<and> get_map (challenges A') (Nonce pr) = None
    \<and> ie_answered env \<le> Expires c \<and> ChEpoch c = Epoch d \<and> PBinding pr = binding_of lib (KeyID d) (Blinded inp)
    \<and> Binding c = PBinding pr \<and> PRelayPin pr = pin p \<and> PPolicy pr = revision p
    \<and> check_author lib pr
    \<and> snd (issue_verdict env (Epoch d) (AuthorAddress pr) p) = r \<and> err r = None \<and> member r
    \<and> Epoch d * 3600000 \<le> unix_milli (checked r)"
proof -
  obtain A1 S where s: "handle_slot lib B env req (p, A\<lparr>slots := slots A + 1\<rparr>) = ((p', A1), Signatures out)"
    and A': "challenges A' = challenges A1"
    using assms by (auto simp: handle_def Let_def split: if_splits prod.splits)
  obtain raw inp A2 d k pr where j: "Body req = Some raw"
    "strictJSON (fold_name lib) (input_fields (fold_name lib)) zero_input (scan_json lib (take 8193 raw)) = Inr inp"
    and h: "Path req = ''/issue''"
    "descriptor lib B p (ie_desc env) (epoch_of (ie_epoch env)) (A\<lparr>slots := slots A + 1\<rparr>) = (A2, Inr (d, k))"
    "Mode (config p) = ''groups''" "InDescriptor inp = Some d" "Blinded inp \<noteq> []" "length (Blinded inp) \<le> 3"
    "Proof inp = Some pr"
    "check_challenge p (ie_answered env) (Epoch d) (binding_of lib (KeyID d) (Blinded inp)) (get_map (challenges A2) (Nonce pr)) pr"
    "check_author lib pr"
    "issue_signed lib B env d inp pr (p, A2\<lparr>challenges := del_map (Nonce pr) (challenges A2)\<rparr>) = ((p', A1), Signatures out)"
    using s by (rule handle_slotD)
  obtain d1 A3 where d: "d = make_descriptor lib p (epoch_of (ie_epoch env)) k" using h(2) by (rule descriptor_ok)
  obtain r d' key x where i: "issue_verdict env (Epoch d) (AuthorAddress pr) p = (p', r)" "err r = None" "member r"
    "ExpiresAt d \<le> unix_milli (checked r + ticketLifetime)"
    "descriptor lib B p' (ie_desc2 env) (Epoch d) (A2\<lparr>challenges := del_map (Nonce pr) (challenges A2), authdb := d'\<rparr>)
      = (A1, Inr (x, key))"
    "sign_all lib key (Blinded inp) = Some out"
    using h(10) by (rule issue_signedD)
  have ch: "challenges A2 = challenges A" using descriptor_frame(1) [OF h(2)] by simp
  obtain c where c: "get_map (challenges A) (Nonce pr) = Some c" "ie_answered env \<le> Expires c" "ChEpoch c = Epoch d"
    "PBinding pr = binding_of lib (KeyID d) (Blinded inp)" "Binding c = PBinding pr" "PRelayPin pr = pin p" "PPolicy pr = revision p"
    using h(8) ch by (auto simp: check_challenge_def split: option.splits)
  have "unix_milli (checked r + ticketLifetime) = unix_milli (checked r) + 43200000"
    by (simp add: unix_milli_def ticketLifetime_def)
  then have "Epoch d * 3600000 \<le> unix_milli (checked r)" using i(4) by (simp add: d make_descriptor_def Let_def ticketLifetime_def)
  moreover have "get_map (challenges A') (Nonce pr) = None" using A' descriptor_frame(1) [OF i(5)] by simp
  ultimately show ?thesis
    using j h(1,3,4,5,6,7,9) d i(1-3) c sign_all_length [OF i(6)]
    by (intro exI [of _ raw] exI [of _ inp] exI [of _ pr] exI [of _ d] exI [of _ k] exI [of _ c] exI [of _ r]) (simp add: Suc_le_eq)
qed

lemma issue_slots: "issue_signed lib B env d inp pr (q, C) = ((q', C'), r) \<Longrightarrow> slots C' = slots C"
  by (auto simp: issue_signed_def split: prod.splits if_splits option.splits sum.splits
      dest!: descriptor_frame(2))

lemma challenge_slots:
  "put_challenge nows n c A = (A', b) \<Longrightarrow> slots A' = slots A" "take_challenge n A = (A', x) \<Longrightarrow> slots A' = slots A"
  by (auto simp: put_challenge_def take_challenge_def Let_def split: if_splits)

lemma handle_slot_slots: "handle_slot lib B env req (q, C) = ((q', C'), r) \<Longrightarrow> slots C' = slots C"
  by (auto simp: handle_slot_def Let_def split: prod.splits if_splits option.splits sum.splits bool.splits
      dest!: issue_slots descriptor_frame(2) challenge_slots)

text \<open>The authority serves at most eight requests at a time and never loses a slot: a request that finds
  eight in progress is refused without any effect, and every other one gives its slot back,
  whatever it answers.\<close>

theorem handle_slots:
  "if slots A \<ge> 8 then handle lib B env req (p, A) = ((p, A), Refused 429 ''RELAY_AUTH_RATE_LIMITED'')
   else slots (snd (fst (handle lib B env req (p, A)))) = slots A"
  by (auto simp: handle_def accessError_def Let_def split: prod.splits dest!: handle_slot_slots)

section \<open>A worked example\<close>

text \<open>A request of the worked example: a cached member answers a challenge for one message.\<close>

definition demo_pub :: string where
  "demo_pub = encodeBase58 (replicate 32 5)"

definition demo_address :: string where
  "demo_address = addressForKey (sha256 demo_lib) (ripemd160 demo_lib) (replicate 32 5)"

definition demo_d :: ticketDescriptor where
  "demo_d = make_descriptor demo_lib demo_policy 100 7"

definition demo_blinded :: "string list" where
  "demo_blinded = [b64_encode (replicate 256 1)]"

definition demo_proof :: relayProof where
  "demo_proof = \<lparr>PType = proof_type, PRelayPin = pin demo_policy, PPolicy = revision demo_policy,
     PBinding = binding_of demo_lib (KeyID demo_d) demo_blinded, Nonce = ''ab'', PExpiresAt = 360060000,
     AuthorAddress = demo_address, AuthorPublicKey = demo_pub, PSignature = encodeBase58 (replicate 64 5)\<rparr>"

definition demo_issue_text :: json_text where
  "demo_issue_text =
     \<lparr>jt_values = [JObj
        [(''descriptor'', JObj [(''epoch'', JNum (itoa (Epoch demo_d))), (''expiresAt'', JNum (itoa (ExpiresAt demo_d))),
            (''publicKey'', JStr (PublicKey demo_d)), (''keyId'', JStr (KeyID demo_d)), (''policy'', JStr (Policy demo_d)),
            (''relayPin'', JStr (RelayPin demo_d))]),
         (''blinded'', JArr (map JStr demo_blinded)),
         (''proof'', JObj [(''type'', JStr (PType demo_proof)), (''relayPin'', JStr (PRelayPin demo_proof)),
            (''policy'', JStr (PPolicy demo_proof)), (''binding'', JStr (PBinding demo_proof)),
            (''nonce'', JStr (Nonce demo_proof)), (''expiresAt'', JNum (itoa (PExpiresAt demo_proof))),
            (''authorAddress'', JStr (AuthorAddress demo_proof)), (''authorPublicKey'', JStr (AuthorPublicKey demo_proof)),
            (''signature'', JStr (PSignature demo_proof))])]],
      jt_rest = [], jt_eof = True\<rparr>"

definition demo_issue_lib :: "nat lib" where
  "demo_issue_lib = demo_lib\<lparr>scan_json := (\<lambda>s. demo_issue_text)\<rparr>"

definition demo_input :: issue_input where
  "demo_input = \<lparr>InDescriptor = Some demo_d, Blinded = demo_blinded, Proof = Some demo_proof\<rparr>"

lemma demo_d_simps [simp]: "Epoch demo_d = 100" "ExpiresAt demo_d = 403200000"
  by (simp_all add: demo_d_def make_descriptor_def ticketLifetime_def Let_def)

lemma json_int_itoa: "- (2 ^ 63) \<le> n \<Longrightarrow> n \<le> 2 ^ 63 - 1 \<Longrightarrow> json_int (- (2 ^ 63)) (2 ^ 63 - 1) (itoa n) = Some n"
  by (simp add: json_int_def parse_int_itoa)

lemma demo_descriptor_decode:
  "decode_members id descriptor_fields [(''epoch'', JNum (itoa (Epoch demo_d))), (''expiresAt'', JNum (itoa (ExpiresAt demo_d))),
            (''publicKey'', JStr (PublicKey demo_d)), (''keyId'', JStr (KeyID demo_d)), (''policy'', JStr (Policy demo_d)),
            (''relayPin'', JStr (RelayPin demo_d))] zero_descriptor = Some demo_d"
  by (simp add: descriptor_fields_def zero_descriptor_def find_field_def json_int_def parse_int_itoa)

lemma demo_proof_decode:
  "decode_members id proof_fields [(''type'', JStr (PType demo_proof)), (''relayPin'', JStr (PRelayPin demo_proof)),
            (''policy'', JStr (PPolicy demo_proof)), (''binding'', JStr (PBinding demo_proof)),
            (''nonce'', JStr (Nonce demo_proof)), (''expiresAt'', JNum (itoa (PExpiresAt demo_proof))),
            (''authorAddress'', JStr (AuthorAddress demo_proof)), (''authorPublicKey'', JStr (AuthorPublicKey demo_proof)),
            (''signature'', JStr (PSignature demo_proof))] zero_proof = Some demo_proof"
  by (simp add: proof_fields_def zero_proof_def find_field_def json_int_def parse_int_itoa demo_proof_def)

lemma demo_issue_json:
  "strictJSON id (input_fields id) zero_input demo_issue_text = Inr demo_input"
  unfolding strictJSON_iff
  using demo_descriptor_decode demo_proof_decode
  by (simp add: demo_issue_text_def input_fields_def zero_input_def find_field_def set_ptr_def demo_input_def demo_blinded_def)

definition demo_member :: membershipResult where
  "demo_member = \<lparr>member = True, checked = 100 * 3600 * second + 1000000, err = None\<rparr>"

definition demo_issue_policy :: accessPolicy where
  "demo_issue_policy = demo_policy\<lparr>cache := [(demo_address, demo_member)]\<rparr>"

definition demo_issue_auth :: "((string, string) rbt, nat) ticketAuthority" where
  "demo_issue_auth = demo_auth\<lparr>authdb := demo_db1, tkeys := [(100, 7)], challenges := [(''ab'',
     \<lparr>Binding = binding_of demo_lib (KeyID demo_d) demo_blinded, ChEpoch = 100, Expires = 360060000 * millisecond\<rparr>)]\<rparr>"

definition demo_issue_env :: "nat issue_env" where
  "demo_issue_env = \<lparr>ie_epoch = 100 * 3600 * second, ie_desc = demo_desc_env, ie_nonce = None, ie_minted = 0,
     ie_sweep = (\<lambda>k. 0), ie_answered = 100 * 3600 * second + 2000000,
     ie_member = \<lparr>me_lookup = demo_lookup, me_during = id, me_nows = (\<lambda>k. 0), me_pick = 0\<rparr>,
     ie_member_now = 100 * 3600 * second + 3000000, ie_waits = [], ie_recheck = demo_lookup,
     ie_commit = True, ie_desc2 = demo_desc_env\<rparr>"

definition demo_issue_req :: http_request where
  "demo_issue_req = \<lparr>Method = ''POST'', Path = ''/issue'', Body = Some ''x''\<rparr>"

lemma demo_author: "check_author demo_issue_lib demo_proof"
proof -
  have "decodeBase58 demo_pub 32 = Some (replicate 32 5)" "decodeBase58 (encodeBase58 (replicate 64 5)) 64 = Some (replicate 64 5)"
    using decode_encode_64 [of "replicate 32 5"] decode_encode_64 [of "replicate 64 5"] by (simp_all add: demo_pub_def)
  then show ?thesis
    by (simp add: check_author_def demo_proof_def demo_address_def demo_issue_lib_def demo_lib_def demo_lib0_def)
qed

lemma demo_challenge:
  "check_challenge p (100 * 3600 * second + 2000000) 100 (binding_of demo_issue_lib (KeyID demo_d) demo_blinded)
     (get_map (challenges demo_issue_auth) ''ab'') demo_proof"
  if "pin p = pin demo_policy" "revision p = revision demo_policy"
  using that
  by (simp add: check_challenge_def demo_issue_auth_def demo_proof_def demo_issue_lib_def binding_of_def unix_milli_def)
lemma demo_issue_descriptor:
  assumes "tkeys A = [(100, 7)]" and "latest_epoch rbt_bolt (authdb A) = 100"
  shows "descriptor demo_issue_lib rbt_bolt demo_issue_policy demo_desc_env 100 A = (A, Inr (demo_d, 7))"
proof -
  have "make_descriptor demo_issue_lib demo_issue_policy 100 7 = demo_d"
    by (simp add: demo_d_def make_descriptor_def demo_issue_lib_def demo_issue_policy_def ticketKeyID_def
        demo_lib_def)
  moreover have "clock_tx rbt_bolt 100 (authdb A) = Inr (authdb A)" "de_commit demo_desc_env"
    using assms(2) by (simp_all add: clock_tx_def demo_desc_env_def)
  ultimately show ?thesis
    using assms(1) by (simp add: descriptor_def load_key_def db_update_def Let_def)
qed

lemma demo_verdict_issue:
  "issue_verdict demo_issue_env 100 demo_address demo_issue_policy = (demo_issue_policy, demo_member)"
proof -
  have enter: "membership_enter (ie_member_now demo_issue_env) demo_issue_policy demo_address = (demo_issue_policy, Cached demo_member)"
    by (simp add: membership_enter_def demo_issue_policy_def demo_member_def demo_issue_env_def)
  show ?thesis
    by (simp add: issue_verdict_def membership_done [OF enter], simp add: demo_member_def unix_def)
qed

lemma demo_latest: "latest_epoch rbt_bolt demo_db1 = 100" "latest_epoch rbt_bolt (demo_db1\<lparr>quotaB := q\<rparr>) = 100"
  by (simp_all add: latest_epoch_def demo_db1_def parse_int_itoa)

lemma demo_issue_signed:
  assumes "authdb A = demo_db1" and "tkeys A = [(100, 7)]"
  shows "\<exists>A'. issue_signed demo_issue_lib rbt_bolt demo_issue_env demo_d demo_input demo_proof (demo_issue_policy, A)
    = ((demo_issue_policy, A'), Signatures demo_blinded)"
proof -
  let ?k = "quota_key demo_issue_lib 100 demo_address"
  have quota: "quota_tx rbt_bolt ?k (length demo_blinded) demo_db1 = Inr (demo_db1\<lparr>quotaB := RBT.insert ?k (itoa 1) RBT.empty\<rparr>)"
    by (simp add: quota_tx_def demo_blinded_def demo_db1_def demo_db_def Let_def)
  have sign: "sign_all demo_issue_lib 7 demo_blinded = Some demo_blinded"
    by (simp add: demo_blinded_def demo_issue_lib_def)
  have pr: "AuthorAddress demo_proof = demo_address" "Blinded demo_input = demo_blinded" "ie_commit demo_issue_env"
    "ie_desc2 demo_issue_env = demo_desc_env"
    by (simp_all add: demo_proof_def demo_input_def demo_issue_env_def)
  have "err demo_member = None" "member demo_member" "\<not> ExpiresAt demo_d > unix_milli (checked demo_member + ticketLifetime)"
    by (simp_all add: demo_member_def ticketLifetime_def unix_milli_def)
  moreover have "descriptor demo_issue_lib rbt_bolt demo_issue_policy demo_desc_env 100
      (A\<lparr>authdb := demo_db1\<lparr>quotaB := RBT.insert ?k (itoa 1) RBT.empty\<rparr>\<rparr>)
    = (A\<lparr>authdb := demo_db1\<lparr>quotaB := RBT.insert ?k (itoa 1) RBT.empty\<rparr>\<rparr>, Inr (demo_d, 7))"
    using assms demo_latest by (intro demo_issue_descriptor) simp_all
  ultimately show ?thesis
    using quota sign assms(1) by (simp add: issue_signed_def pr demo_verdict_issue db_update_def)
qed

lemma demo_handle:
  "\<exists>A'. handle demo_issue_lib rbt_bolt demo_issue_env demo_issue_req (demo_issue_policy, demo_issue_auth)
    = ((demo_issue_policy, A'), Signatures demo_blinded)"
proof -
  let ?A = "demo_issue_auth\<lparr>slots := 1\<rparr>"
  let ?A2 = "?A\<lparr>challenges := del_map ''ab'' (challenges demo_issue_auth)\<rparr>"
  have A: "tkeys ?A = [(100, 7)]" "authdb ?A = demo_db1" "slots demo_issue_auth = 0" by (simp_all add: demo_issue_auth_def demo_auth_def)
  have desc: "descriptor demo_issue_lib rbt_bolt demo_issue_policy demo_desc_env 100 ?A = (?A, Inr (demo_d, 7))"
    using A demo_latest(1) by (intro demo_issue_descriptor) simp_all
  obtain A' where sg: "issue_signed demo_issue_lib rbt_bolt demo_issue_env demo_d demo_input demo_proof (demo_issue_policy, ?A2)
      = ((demo_issue_policy, A'), Signatures demo_blinded)"
    using demo_issue_signed [of ?A2] A by auto
  have env: "ie_desc demo_issue_env = demo_desc_env" "epoch_of (ie_epoch demo_issue_env) = 100"
    "ie_answered demo_issue_env = 100 * 3600 * second + 2000000"
    by (simp_all add: demo_issue_env_def epoch_of_def unix_def)
  have inp: "InDescriptor demo_input = Some demo_d" "Blinded demo_input = demo_blinded" "Proof demo_input = Some demo_proof"
    "length demo_blinded = 1" "\<forall>b \<in> set demo_blinded. map_option length (b64_decode b) = Some 256" "Nonce demo_proof = ''ab''"
    by (simp_all add: demo_input_def demo_blinded_def demo_proof_def)
  have js: "strictJSON (fold_name demo_issue_lib) (input_fields (fold_name demo_issue_lib)) zero_input
      (scan_json demo_issue_lib ''x'') = Inr demo_input"
    using demo_issue_json by (simp add: demo_issue_lib_def)
  have mode: "Mode (config demo_issue_policy) = ''groups''" "pin demo_issue_policy = pin demo_policy"
    "revision demo_issue_policy = revision demo_policy" by (simp_all add: demo_issue_policy_def demo_policy_def demo_config_def)
  have "handle_slot demo_issue_lib rbt_bolt demo_issue_env demo_issue_req (demo_issue_policy, ?A)
      = ((demo_issue_policy, A'), Signatures demo_blinded)"
    using desc sg js demo_author demo_challenge [OF mode(2,3)]
    by (simp add: handle_slot_def demo_issue_req_def env inp mode(1) Let_def take_challenge_def)
  then show ?thesis by (simp add: handle_def A(3))
qed

theorem issue_sound_witness:
  "\<exists>A'. handle demo_issue_lib rbt_bolt demo_issue_env demo_issue_req (demo_issue_policy, demo_issue_auth)
      = ((demo_issue_policy, A'), Signatures demo_blinded)
    \<and> (\<exists>(inp :: issue_input) (pr :: relayProof). Proof inp = Some pr \<and> check_author demo_issue_lib pr \<and> get_map (challenges A') (Nonce pr) = None
        \<and> length demo_blinded = length (Blinded inp))"
proof -
  obtain A' where h: "handle demo_issue_lib rbt_bolt demo_issue_env demo_issue_req (demo_issue_policy, demo_issue_auth)
      = ((demo_issue_policy, A'), Signatures demo_blinded)" using demo_handle by blast
  from issue_sound [OF h] h show ?thesis by blast
qed

end
