(* ===== verification/Ticket_Runs.thy ===== *)
theory Ticket_Runs
  imports Tickets
begin

text \<open>
  Interleavings of the ticket authority. Requests run concurrently, so \<^verbatim>\<open>redeem\<close> and \<^verbatim>\<open>handle\<close>
  are not atomic; their critical sections are (\<^verbatim>\<open>descriptor\<close> holds the authority's mutex, a bbolt write
  transaction excludes every other, the challenge map is updated under the mutex). A run
  is any sequence of such sections, of any number of requests, with restarts of the relay on the
  same database (and possibly another policy) in between. \<open>redeem_steps\<close> and \<open>handle_steps\<close> show that the
  operations of the code are compositions of these steps.
\<close>

section \<open>Runs\<close>

text \<open>
  The history kept beside the state: tickets redeemed (epoch and identifier), quota
  reservations (epoch, address hash, number), nonces handed out and taken, and the latest hour that any
  transaction read from the clock.
\<close>

record history =
  h_spent :: "(int \<times> string) list"
  h_issued :: "((int \<times> string) \<times> nat) list"
  h_minted :: "string list"
  h_taken :: "string list"
  h_hour :: int

definition no_history :: "int \<Rightarrow> history" where
  "no_history h = \<lparr>h_spent = [], h_issued = [], h_minted = [], h_taken = [], h_hour = h\<rparr>"

text \<open>Epochs as they appear in twelve-digit keys, and clock readings between one day after the start
  of Unix time and the end of the 64-bit nanosecond clock.\<close>

definition sane_epoch :: "int \<Rightarrow> bool" where
  "sane_epoch e \<longleftrightarrow> 0 \<le> e \<and> e < 10 ^ 12"

definition sane_clock :: "time \<Rightarrow> bool" where
  "sane_clock t \<longleftrightarrow> 86400 * second \<le> t \<and> t < 2 ^ 63"

definition saw :: "int \<Rightarrow> history \<Rightarrow> history" where
  "saw h H = H\<lparr>h_hour := max h (h_hour H)\<rparr>"

inductive step ::
  "'k lib \<Rightarrow> 'b bolt \<Rightarrow> ('b, 'k) ticketAuthority \<times> history \<Rightarrow> ('b, 'k) ticketAuthority \<times> history \<Rightarrow> bool"
  for lib B where
  desc: "descriptor lib B p env e A = (A', r) \<Longrightarrow> CHR '':'' \<notin> set (revision p) \<Longrightarrow> sane_clock (de_now env) \<Longrightarrow>
    step lib B (A, H) (A', saw (epoch_of (de_now env)) H)"
| spend: "db_update commit (spend_tx B (epoch_of now - 12) (record_key e ident)) (authdb A) = (d', None) \<Longrightarrow>
    sane_epoch e \<Longrightarrow>
    step lib B (A, H) (A\<lparr>authdb := d'\<rparr>, saw (epoch_of now) (H\<lparr>h_spent := (e, ident) # h_spent H\<rparr>))"
| quota: "db_update commit (quota_tx B (record_key e ident) n) (authdb A) = (d', None) \<Longrightarrow>
    sane_epoch e \<Longrightarrow>
    step lib B (A, H) (A\<lparr>authdb := d'\<rparr>, H\<lparr>h_issued := ((e, ident), n) # h_issued H\<rparr>)"
| mint: "put_challenge nows n c A = (A', True) \<Longrightarrow>
    step lib B (A, H) (A', H\<lparr>h_minted := n # h_minted H\<rparr>)"
| full: "put_challenge nows n c A = (A', False) \<Longrightarrow> step lib B (A, H) (A', H)"
| taken: "take_challenge n A = (A', Some c) \<Longrightarrow>
    step lib B (A, H) (A', H\<lparr>h_taken := n # h_taken H\<rparr>)"
| missing: "take_challenge n A = (A', None) \<Longrightarrow> step lib B (A, H) (A', H)"
| slot: "step lib B (A, H) (A\<lparr>slots := s\<rparr>, H)"
| restart: "newTicketAuthority lib B p (Some (authdb A)) ok now env = Inr A' \<Longrightarrow>
    CHR '':'' \<notin> set (revision p) \<Longrightarrow> sane_clock (de_now env) \<Longrightarrow>
    step lib B (A, H) (A', saw (epoch_of (de_now env)) H)"

inductive steps ::
  "'k lib \<Rightarrow> 'b bolt \<Rightarrow> ('b, 'k) ticketAuthority \<times> history \<Rightarrow> ('b, 'k) ticketAuthority \<times> history \<Rightarrow> bool"
  for lib B where
  refl: "steps lib B S S"
| more: "steps lib B S S' \<Longrightarrow> step lib B S' S'' \<Longrightarrow> steps lib B S S''"

lemma steps_trans: "steps lib B S' S'' \<Longrightarrow> steps lib B S S' \<Longrightarrow> steps lib B S S''"
  by (induction rule: steps.induct) (auto intro: steps.more)

lemma steps_one: "step lib B S S' \<Longrightarrow> steps lib B S S'"
  by (blast intro: steps.refl steps.more)

text \<open>A transaction that fails to commit leaves no trace, so only committed ones are steps.\<close>

lemma db_update_failed: "db_update commit tx d = (d', Some e) \<Longrightarrow> d' = d"
  by (erule db_update_cases) auto

section \<open>The invariant\<close>

text \<open>What was issued to one address in one epoch.\<close>

definition total_issued :: "int \<times> string \<Rightarrow> history \<Rightarrow> int" where
  "total_issued k H = (\<Sum>x \<leftarrow> filter (\<lambda>x. fst x = k) (h_issued H). int (snd x))"

definition live :: "history \<Rightarrow> int \<Rightarrow> bool" where
  "live H e \<longleftrightarrow> sane_epoch e \<and> h_hour H < e + 12"

definition spent_inv :: "'b bolt \<Rightarrow> 'b tdb \<Rightarrow> history \<Rightarrow> bool" where
  "spent_inv B d H \<longleftrightarrow>
     (\<forall>e ident. live H e \<longrightarrow>
        count_list (h_spent H) (e, ident) \<le> (if bget B (spentB d) (record_key e ident) = None then 0 else 1))"

definition issued_inv :: "'b bolt \<Rightarrow> 'b tdb \<Rightarrow> history \<Rightarrow> bool" where
  "issued_inv B d H \<longleftrightarrow>
     (\<forall>e ident. live H e \<longrightarrow> total_issued (e, ident) H \<le> issued B d (record_key e ident))"

definition challenge_inv :: "('b, 'k) ticketAuthority \<Rightarrow> history \<Rightarrow> bool" where
  "challenge_inv A H \<longleftrightarrow>
     wf_map (challenges A) \<and> length (challenges A) \<le> 256
     \<and> (\<forall>n. count_list (h_taken H) n + (if get_map (challenges A) n = None then 0 else 1)
           \<le> count_list (h_minted H) n)"

definition run_inv :: "'b bolt \<Rightarrow> ('b, 'k) ticketAuthority \<times> history \<Rightarrow> bool" where
  "run_inv B S \<longleftrightarrow>
     (case S of (A, H) \<Rightarrow>
        db_inv B (authdb A) \<and> spent_inv B (authdb A) H \<and> issued_inv B (authdb A) H \<and> challenge_inv A H)"

lemma epoch_sane: "sane_clock t \<Longrightarrow> 24 \<le> epoch_of t \<and> epoch_of t < 10 ^ 7"
  by (auto simp: sane_clock_def epoch_of_def unix_def)

lemma live_saw [simp]: "live (saw h H) e \<longleftrightarrow> live H e \<and> h < e + 12"
  by (auto simp: live_def saw_def)

lemma history_saw [simp]:
  "h_spent (saw h H) = h_spent H" "h_issued (saw h H) = h_issued H"
  "h_minted (saw h H) = h_minted H" "h_taken (saw h H) = h_taken H" "total_issued k (saw h H) = total_issued k H"
  by (simp_all add: saw_def total_issued_def)

lemma live_upd [simp]:
  "live (H\<lparr>h_spent := a\<rparr>) e = live H e" "live (H\<lparr>h_issued := b\<rparr>) e = live H e"
  "live (H\<lparr>h_minted := m\<rparr>) e = live H e" "live (H\<lparr>h_taken := m\<rparr>) e = live H e"
  "total_issued k (H\<lparr>h_spent := a\<rparr>) = total_issued k H" "total_issued k (H\<lparr>h_minted := m\<rparr>) = total_issued k H"
  "total_issued k (H\<lparr>h_taken := m\<rparr>) = total_issued k H"
  by (simp_all add: live_def total_issued_def)

lemma live_key: "live H e \<Longrightarrow> key_epoch (record_key e i) = e \<and> wf_key (record_key e i)"
  by (auto simp: live_def sane_epoch_def wf_key_def)

context bolt_db
begin

text \<open>The clock transaction keeps every record of a live epoch.\<close>

lemma clock_history:
  assumes "clock_tx B h d = Inr d'" and "db_inv B d" and "spent_inv B d H" and "issued_inv B d H"
  shows "spent_inv B d' (saw h H)" and "issued_inv B d' (saw h H)"
proof -
  have kept: "bget B (spentB d') (record_key e i) = bget B (spentB d) (record_key e i)"
    "bget B (quotaB d') (record_key e i) = bget B (quotaB d) (record_key e i)"
    if "live (saw h H) e" for e i
    using clock_live [OF assms(1,2), of "record_key e i"] live_key [of H e i] that by auto
  show "spent_inv B d' (saw h H)" using assms(3) kept(1) by (auto simp: spent_inv_def)
  show "issued_inv B d' (saw h H)" using assms(4) kept(2) by (auto simp: issued_inv_def issued_def)
qed

lemma history_saw_mono:
  "spent_inv B d H \<Longrightarrow> spent_inv B d (saw h H)" "issued_inv B d H \<Longrightarrow> issued_inv B d (saw h H)"
  by (auto simp: spent_inv_def issued_inv_def)

lemma history_same_buckets:
  assumes "spentB d' = spentB d" and "quotaB d' = quotaB d"
  shows "spent_inv B d' H = spent_inv B d H" and "issued_inv B d' H = issued_inv B d H"
  using assms by (auto simp: spent_inv_def issued_inv_def issued_def)

lemma key_put_inv:
  assumes "db_inv B d1" and "spentB d' = spentB d1" "quotaB d' = quotaB d1"
    and "keysB d' = keysB d1 \<or> (\<exists>v. bput B (keysB d1) (key_name p e) v = Some (keysB d'))"
    and "CHR '':'' \<notin> set (revision p)" "0 \<le> e" "e < 2 ^ 63"
  shows "db_inv B d'"
proof -
  have nm: "wf_name (key_name p e)"
    unfolding wf_name_def key_name_def using assms(5-7) by (intro exI [of _ "revision p"] exI [of _ e]) simp
  have "wf_name k" if "bget B (keysB d') k \<noteq> None" for k
    using assms(4)
  proof
    assume "\<exists>v. bput B (keysB d1) (key_name p e) v = Some (keysB d')"
    then obtain v where "bput B (keysB d1) (key_name p e) v = Some (keysB d')" by blast
    from get_put [OF this, of k] show ?thesis
      using that nm assms(1) by (auto simp: db_inv_def split: if_splits)
  qed (use that assms(1) in \<open>auto simp: db_inv_def\<close>)
  then show ?thesis using assms(1-3) by (simp add: db_inv_def)
qed

lemma desc_inv:
  assumes "descriptor lib B p env e A = (A', r)" and "CHR '':'' \<notin> set (revision p)" "sane_clock (de_now env)"
    and "db_inv B (authdb A)" "spent_inv B (authdb A) H" "issued_inv B (authdb A) H"
  shows "db_inv B (authdb A')" "spent_inv B (authdb A') (saw (epoch_of (de_now env)) H)"
    "issued_inv B (authdb A') (saw (epoch_of (de_now env)) H)"
proof -
  obtain d1 where d1: "d1 = authdb A \<or> clock_tx B (epoch_of (de_now env)) (authdb A) = Inr d1"
    and fr: "spentB (authdb A') = spentB d1" "quotaB (authdb A') = quotaB d1"
    and k: "keysB (authdb A') = keysB d1
     \<or> (e = epoch_of (de_now env) \<and> (\<exists>v. bput B (keysB d1) (key_name p e) v = Some (keysB (authdb A'))))"
    using assms(1) by (rule descriptor_db)
  have inv1: "db_inv B d1" using d1 assms(4) clock_inv by auto
  have "spent_inv B d1 (saw (epoch_of (de_now env)) H)" "issued_inv B d1 (saw (epoch_of (de_now env)) H)"
    using d1 clock_history [OF _ assms(4-6)] history_saw_mono assms(5,6) by auto
  then show "spent_inv B (authdb A') (saw (epoch_of (de_now env)) H)"
    "issued_inv B (authdb A') (saw (epoch_of (de_now env)) H)"
    using history_same_buckets [OF fr] by auto
  have ep: "0 \<le> epoch_of (de_now env)" "epoch_of (de_now env) < 2 ^ 63" using epoch_sane [OF assms(3)] by auto
  have "keysB (authdb A') = keysB d1
     \<or> (\<exists>v. bput B (keysB d1) (key_name p (epoch_of (de_now env))) v = Some (keysB (authdb A')))"
    using k by auto
  from key_put_inv [OF inv1 fr this assms(2) ep] show "db_inv B (authdb A')" .
qed

end

lemma db_update_ok: "db_update commit tx d = (d', None) \<Longrightarrow> tx d = Inr d'"
  by (erule db_update_cases) auto

lemma record_key_eq:
  "sane_epoch e \<Longrightarrow> sane_epoch e' \<Longrightarrow> record_key e i = record_key e' i' \<longleftrightarrow> e = e' \<and> i = i'"
  using record_key_inj [of e i e' i'] by (auto simp: sane_epoch_def)

lemma sane_key: "sane_epoch e \<Longrightarrow> key_epoch (record_key e i) = e \<and> wf_key (record_key e i)"
  by (auto simp: sane_epoch_def wf_key_def)

context bolt_db
begin

lemma spend_history:
  assumes "spend_tx B (h - 12) (record_key e i) d = Inr d'" and "sane_epoch e"
    and "spent_inv B d H" "issued_inv B d H"
  shows "spent_inv B d' (saw h (H\<lparr>h_spent := (e, i) # h_spent H\<rparr>))"
    and "issued_inv B d' (saw h (H\<lparr>h_spent := (e, i) # h_spent H\<rparr>))"
proof -
  note m = spend_marks [OF assms(1)]
  have count: "count_list ((e, i) # h_spent H) (f, j) \<le> (if bget B (spentB d') (record_key f j) = None then 0 else 1)"
    if "live (saw h H) f" for f j
  proof (cases "(f, j) = (e, i)")
    case True
    have "key_epoch (record_key e i) > h - 12" using that True sane_key [OF assms(2), of i] by simp
    then have "bget B (spentB d) (record_key e i) = None" by (rule m(2))
    moreover have "live H e" using that True by simp
    ultimately have "count_list (h_spent H) (e, i) = 0"
      using assms(3) [unfolded spent_inv_def, rule_format, of e i] by simp
    then show ?thesis using m(1) True by simp
  next
    case False
    have lf: "live H f" "h < f + 12" using that by simp_all
    then have "record_key f j \<noteq> record_key e i" "key_epoch (record_key f j) > h - 12"
      using False record_key_eq [of f e j i] assms(2) live_key [OF lf(1), of j] by (auto simp: live_def)
    then have "bget B (spentB d') (record_key f j) = bget B (spentB d) (record_key f j)" using m(3) by blast
    moreover have "count_list (h_spent H) (f, j) \<le> (if bget B (spentB d) (record_key f j) = None then 0 else 1)"
      using assms(3) that by (simp add: spent_inv_def)
    ultimately show ?thesis using False by auto
  qed
  then show "spent_inv B d' (saw h (H\<lparr>h_spent := (e, i) # h_spent H\<rparr>))" by (simp add: spent_inv_def)
  have "issued B d' (record_key f j) = issued B d (record_key f j)" if "live (saw h H) f" for f j
    using m(5) [of "record_key f j"] that live_key [of H f j] by (simp add: issued_def)
  then show "issued_inv B d' (saw h (H\<lparr>h_spent := (e, i) # h_spent H\<rparr>))"
    using assms(4) by (simp add: issued_inv_def)
qed

lemma quota_history:
  assumes "quota_tx B (record_key e i) n d = Inr d'" and "sane_epoch e" and "db_inv B d"
    and "spent_inv B d H" "issued_inv B d H"
  shows "spent_inv B d' (H\<lparr>h_issued := ((e, i), n) # h_issued H\<rparr>)"
    and "issued_inv B d' (H\<lparr>h_issued := ((e, i), n) # h_issued H\<rparr>)"
proof -
  have "spentB d' = spentB d" using quota_ok(5) [OF assms(1)] .
  then show "spent_inv B d' (H\<lparr>h_issued := ((e, i), n) # h_issued H\<rparr>)"
    using assms(4) by (simp add: spent_inv_def)
  have "total_issued (f, j) (H\<lparr>h_issued := ((e, i), n) # h_issued H\<rparr>) \<le> issued B d' (record_key f j)"
    if "live H f" for f j
  proof -
    have tot: "total_issued (f, j) (H\<lparr>h_issued := ((e, i), n) # h_issued H\<rparr>)
        = total_issued (f, j) H + (if (f, j) = (e, i) then int n else 0)"
      by (auto simp: total_issued_def)
    have "total_issued (f, j) H \<le> issued B d (record_key f j)" using assms(5) that by (simp add: issued_inv_def)
    moreover have "record_key f j = record_key e i \<longleftrightarrow> (f, j) = (e, i)"
      using record_key_eq [of f e j i] assms(2) that by (auto simp: live_def)
    moreover have "wf_key (record_key e i)" using sane_key [OF assms(2)] by blast
    ultimately show ?thesis
      using quota_inv(2) [OF assms(1,3), of "record_key f j"] tot by (auto split: if_splits)
  qed
  then show "issued_inv B d' (H\<lparr>h_issued := ((e, i), n) # h_issued H\<rparr>)" by (simp add: issued_inv_def)
qed

end

lemma put_challenge_inv:
  assumes "challenge_inv A H"
  shows "put_challenge nows n c A = (A', True) \<Longrightarrow> challenge_inv A' (H\<lparr>h_minted := n # h_minted H\<rparr>)"
    and "put_challenge nows n c A = (A', False) \<Longrightarrow> challenge_inv A' H"
proof -
  let ?l = "filter (\<lambda>(k, c). \<not> nows k > Expires c) (challenges A)"
  have wf: "wf_map ?l" using assms by (auto simp: challenge_inv_def intro: wf_filter_map)
  have sub: "get_map (challenges A) k = None \<Longrightarrow> get_map ?l k = None" for k
    by (auto simp: map_of_eq_None_iff)
  have len: "length ?l \<le> 256"
    using assms by (intro order_trans [OF length_filter_le]) (simp add: challenge_inv_def)
  have cnt: "count_list (h_taken H) k + (if get_map ?l k = None then 0 else 1) \<le> count_list (h_minted H) k" for k
  proof -
    have "count_list (h_taken H) k + (if get_map (challenges A) k = None then 0 else 1) \<le> count_list (h_minted H) k"
      using assms by (simp add: challenge_inv_def)
    then show ?thesis using sub [of k] by (cases "get_map (challenges A) k = None") (simp, simp split: if_splits)
  qed
  show "challenge_inv A' (H\<lparr>h_minted := n # h_minted H\<rparr>)" if "put_challenge nows n c A = (A', True)"
  proof -
    have A': "A' = A\<lparr>challenges := set_map n c ?l\<rparr>" "length ?l < 256"
      using that by (auto simp: put_challenge_def Let_def split: if_splits)
    then have "length (challenges A') \<le> 256" using length_set_map_le [of n c ?l] by simp
    moreover have "count_list (h_taken H) k + (if get_map (challenges A') k = None then 0 else 1)
        \<le> count_list (n # h_minted H) k" for k
      using cnt [of k] A'(1) by (auto split: if_splits)
    ultimately show ?thesis using wf A'(1) by (simp add: challenge_inv_def wf_set_map)
  qed
  show "challenge_inv A' H" if "put_challenge nows n c A = (A', False)"
  proof -
    have "A' = A\<lparr>challenges := ?l\<rparr>" using that by (auto simp: put_challenge_def Let_def split: if_splits)
    then show ?thesis using wf len cnt by (simp add: challenge_inv_def)
  qed
qed

lemma take_challenge_inv:
  assumes "challenge_inv A H"
  shows "take_challenge n A = (A', Some c) \<Longrightarrow> challenge_inv A' (H\<lparr>h_taken := n # h_taken H\<rparr>)"
    and "take_challenge n A = (A', None) \<Longrightarrow> challenge_inv A' H"
proof -
  have cnt: "count_list (h_taken H) k + (if get_map (challenges A) k = None then 0 else 1)
      \<le> count_list (h_minted H) k" for k
    using assms by (simp add: challenge_inv_def)
  have wf: "wf_map (del_map n (challenges A))" "length (del_map n (challenges A)) \<le> 256"
    using assms length_del_map_le [of n "challenges A"] by (auto simp: challenge_inv_def intro: wf_del_map)
  show "challenge_inv A' (H\<lparr>h_taken := n # h_taken H\<rparr>)" if "take_challenge n A = (A', Some c)"
  proof -
    have A': "A' = A\<lparr>challenges := del_map n (challenges A)\<rparr>" "get_map (challenges A) n = Some c"
      using that by (auto simp: take_challenge_def)
    have "count_list (n # h_taken H) k + (if get_map (challenges A') k = None then 0 else 1)
        \<le> count_list (h_minted H) k" for k
      using cnt [of k] A' by (auto split: if_splits)
    then show ?thesis using wf A'(1) by (simp add: challenge_inv_def)
  qed
  show "challenge_inv A' H" if "take_challenge n A = (A', None)"
  proof -
    have A': "A' = A\<lparr>challenges := del_map n (challenges A)\<rparr>" using that by (auto simp: take_challenge_def)
    have "count_list (h_taken H) k + (if get_map (challenges A') k = None then 0 else 1)
        \<le> count_list (h_minted H) k" for k
      using cnt [of k] A' by (auto split: if_splits)
    then show ?thesis using wf A' by (simp add: challenge_inv_def)
  qed
qed

lemma challenge_frame [frame_simps]:
  "put_challenge nows n c A = (A', b) \<Longrightarrow> authdb A' = authdb A"
  "take_challenge n A = (A', x) \<Longrightarrow> authdb A' = authdb A"
  by (auto simp: put_challenge_def take_challenge_def Let_def split: if_splits)

lemma history_challenge [simp]:
  "spent_inv B d (H\<lparr>h_minted := m\<rparr>) = spent_inv B d H" "issued_inv B d (H\<lparr>h_minted := m\<rparr>) = issued_inv B d H"
  "spent_inv B d (H\<lparr>h_taken := m\<rparr>) = spent_inv B d H" "issued_inv B d (H\<lparr>h_taken := m\<rparr>) = issued_inv B d H"
  by (simp_all add: spent_inv_def issued_inv_def)

section \<open>Every run keeps the invariant\<close>

lemma new_authority:
  assumes "newTicketAuthority lib B p (Some d) ok now env = Inr A"
  obtains x where "descriptor lib B p env (epoch_of now)
      \<lparr>authdb = d, challenges = [], tkeys = [], slots = 0, listener = False\<rparr> = (A, Inr x)"
  using assms by (auto simp: newTicketAuthority_def split: if_splits prod.splits sum.splits)

context bolt_db
begin

lemma step_inv:
  assumes "step lib B S S'" and "run_inv B S"
  shows "run_inv B S'"
  using assms
proof (induction rule: step.induct)
  case (desc p env e A A' r H)
  then show ?case
    using desc_inv [OF desc.hyps] descriptor_frame(1) [OF desc.hyps(1)]
    by (auto simp: run_inv_def challenge_inv_def)
next
  case (spend commit now e ident A d' H)
  then show ?case
    using spend_history [OF db_update_ok [OF spend.hyps(1)]] spend_inv [OF db_update_ok [OF spend.hyps(1)]]
      sane_key [OF spend.hyps(2), of ident]
    by (auto simp: run_inv_def challenge_inv_def)
next
  case (quota commit e ident n A d' H)
  then show ?case
    using quota_history [OF db_update_ok [OF quota.hyps(1)]] quota_inv(1) [OF db_update_ok [OF quota.hyps(1)]]
      sane_key [OF quota.hyps(2), of ident]
    by (auto simp: run_inv_def challenge_inv_def)
next
  case (mint nows n c A A' H)
  then show ?case
    using put_challenge_inv(1) [OF _ mint.hyps] challenge_frame(1) [OF mint.hyps] by (simp add: run_inv_def)
next
  case (full nows n c A A' H)
  then show ?case
    using put_challenge_inv(2) [OF _ full.hyps] challenge_frame(1) [OF full.hyps] by (simp add: run_inv_def)
next
  case (taken n A A' c H)
  then show ?case
    using take_challenge_inv(1) [OF _ taken.hyps] challenge_frame(2) [OF taken.hyps] by (simp add: run_inv_def)
next
  case (missing n A A' H)
  then show ?case
    using take_challenge_inv(2) [OF _ missing.hyps] challenge_frame(2) [OF missing.hyps] by (simp add: run_inv_def)
next
  case (slot A H s)
  then show ?case by (simp add: run_inv_def challenge_inv_def)
next
  case (restart p A ok now env A' H)
  obtain x where d: "descriptor lib B p env (epoch_of now)
      \<lparr>authdb = authdb A, challenges = [], tkeys = [], slots = 0, listener = False\<rparr> = (A', Inr x)"
    using restart.hyps(1) by (rule new_authority)
  show ?case
    using desc_inv [OF d restart.hyps(2,3), of H] descriptor_frame(1) [OF d] restart.prems
    by (auto simp: run_inv_def challenge_inv_def intro: order_trans [OF le_add1])
qed

lemma steps_inv: "steps lib B S S' \<Longrightarrow> run_inv B S \<Longrightarrow> run_inv B S'"
  by (induction rule: steps.induct) (auto intro: step_inv)

lemma start_inv: "db_inv B (authdb A) \<Longrightarrow> challenges A = [] \<Longrightarrow> run_inv B (A, no_history h)"
  using issued_bounds
  by (auto simp: run_inv_def no_history_def spent_inv_def issued_inv_def total_issued_def challenge_inv_def)

end

section \<open>The operations are runs\<close>

lemma desc_steps:
  assumes "descriptor lib B p env e A = (A', r)" and "CHR '':'' \<notin> set (revision p)" "sane_clock (de_now env)"
  shows "steps lib B (A, H) (A', saw (epoch_of (de_now env)) H)"
  using step.desc [OF assms] by (rule steps_one)

lemma window_sane:
  assumes "sane_clock t" and "epoch_of t - 12 < e" "e \<le> epoch_of t"
  shows "sane_epoch e"
  using epoch_sane [OF assms(1)] assms(2,3) by (auto simp: sane_epoch_def)

lemma descriptor_window:
  assumes "descriptor lib B p env e A = (A', Inr x)"
  shows "epoch_of (de_now env) - 12 < e" and "e \<le> epoch_of (de_now env)"
  using assms by (auto simp: descriptor_def Let_def split: if_splits)

lemma spend_steps:
  assumes "db_update commit (spend_tx B (epoch_of now - 12) (record_key e ident)) (authdb A) = (d', x)"
    and "sane_epoch e"
  shows "\<exists>H'. steps lib B (A, H) (A\<lparr>authdb := d'\<rparr>, H')
    \<and> h_spent H' = (if x = None then (e, ident) # h_spent H else h_spent H)"
proof (cases x)
  case None
  then show ?thesis
    using steps_one [OF step.spend [OF assms(1) [unfolded None] assms(2)], of lib H] by (auto simp: saw_def)
next
  case (Some y)
  then have "A\<lparr>authdb := d'\<rparr> = A" using db_update_failed [of commit _ "authdb A" d' y] assms(1) by simp
  then show ?thesis using Some steps.refl [of lib B "(A, H)"] by (intro exI [of _ H]) simp
qed

text \<open>How far a call of \<^verbatim>\<open>redeem\<close> gets: not to the authority, to its key, or to the transaction.\<close>

lemma redeem_cases:
  assumes "redeem lib B p env raw A = (A', r)"
  obtains (early) y where "A' = A" "r = Inl y"
  | (key) v :: ticket and x y where "descriptor lib B p (re_desc env) (TkEpoch v) A = (A', x)" "r = Inl y"
  | (tx) v :: ticket and A1 desc key msg d' y where
    "descriptor lib B p (re_desc env) (TkEpoch v) A = (A1, Inr (desc, key))" "check_ticket lib desc key v = Some msg"
    "db_update (re_commit env)
       (spend_tx B (epoch_of (re_cutoff env) - 12) (record_key (TkEpoch v) (ticket_id lib msg))) (authdb A1) = (d', y)"
    "A' = A1\<lparr>authdb := d'\<rparr>"
    "case y of None \<Rightarrow> \<exists>u. r = Inr (ticket_id lib msg, u) | Some _ \<Rightarrow> \<exists>z. r = Inl z"
proof (cases "length raw \<le> 2048")
  case False
  then show ?thesis using assms early by (auto simp: redeem_def)
next
  case True
  show ?thesis
  proof (cases "strictJSON (fold_name lib) ticket_fields zero_ticket (scan_json lib raw)")
    case (Inl j)
    then show ?thesis using assms early by (auto simp: redeem_def split: if_splits)
  next
    case (Inr v)
    obtain A1 x where d: "descriptor lib B p (re_desc env) (TkEpoch v) A = (A1, x)" by fastforce
    show ?thesis
    proof (cases "A' = A1 \<and> (\<exists>y. r = Inl y)")
      case True
      then show ?thesis using d key by blast
    next
      case other: False
      then obtain desc k msg where ok: "x = Inr (desc, k)" "KeyID desc = TkKeyID v"
        "\<not> ExpiresAt desc \<le> unix_milli (re_now env)" "check_ticket lib desc k v = Some msg"
        using assms True Inr d by (auto simp: redeem_def split: if_splits option.splits sum.splits)
      obtain d' y where u: "db_update (re_commit env)
       (spend_tx B (epoch_of (re_cutoff env) - 12) (record_key (TkEpoch v) (ticket_id lib msg))) (authdb A1) = (d', y)"
        by fastforce
      show ?thesis
        using assms True Inr d ok u
        by (intro tx [OF d [unfolded ok(1)] ok(4) u]; cases y) (auto simp: redeem_def)
    qed
  qed
qed

text \<open>C2: Every call of \<^verbatim>\<open>redeem\<close>, on any input and with any outcome, is a run of the step system: it
  records exactly one spent ticket, with the identifier it returns, when it succeeds, and
  none when it fails. So what holds for all runs holds for all interleavings of redemptions.\<close>

theorem redeem_is_run:
  assumes "redeem lib B p env raw A = (A', r)"
    and "CHR '':'' \<notin> set (revision p)" and "sane_clock (de_now (re_desc env))"
  shows "\<exists>H'. steps lib B (A, H) (A', H')
    \<and> (case r of Inl _ \<Rightarrow> h_spent H' = h_spent H
       | Inr (ident, until) \<Rightarrow> \<exists>e. h_spent H' = (e, ident) # h_spent H)"
  using assms(1)
proof (cases rule: redeem_cases)
  case (early y)
  then show ?thesis using steps.refl [of lib B "(A, H)"] by (intro exI [of _ H]) simp
next
  case (key v x y)
  then show ?thesis
    using desc_steps [OF key(1) assms(2,3), of H] by auto
next
  case (tx v A1 desc key msg d' y)
  let ?H = "saw (epoch_of (de_now (re_desc env))) H"
  have "sane_epoch (TkEpoch v)" using window_sane [OF assms(3)] descriptor_window [OF tx(1)] by blast
  from spend_steps [OF tx(3) this, of lib ?H] obtain H' where H': "steps lib B (A1, ?H) (A', H')"
    "h_spent H' = (if y = None then (TkEpoch v, ticket_id lib msg) # h_spent ?H else h_spent ?H)"
    by (auto simp: tx(4))
  then show ?thesis
    using steps_trans [OF H'(1) desc_steps [OF tx(1) assms(2,3)]] tx(5)
    by (cases y) (auto intro!: exI [of _ H'])
qed

text \<open>C1: No ticket is spent twice. Over any interleaving of requests and restarts, starting from
  any well-formed database, a ticket of epoch \<open>e\<close> is redeemed at most once as long as no
  transaction has read a clock hour at or past \<open>e + 12\<close>, the hour at which the ticket expires.\<close>

theorem no_double_spend:
  assumes "bolt_db B" and "db_inv B (authdb A)" and "challenges A = []"
    and "steps lib B (A, no_history h) (A', H)" and "sane_epoch e" and "h_hour H < e + 12"
  shows "count_list (h_spent H) (e, ident) \<le> 1"
proof -
  have "spent_inv B (authdb A') H"
    using bolt_db.steps_inv [OF assms(1,4) bolt_db.start_inv [OF assms(1-3)]] by (simp add: run_inv_def)
  then have "count_list (h_spent H) (e, ident) \<le> (if bget B (spentB (authdb A')) (record_key e ident) = None then 0 else 1)"
    using assms(5,6) by (simp add: spent_inv_def live_def)
  then show ?thesis by (simp split: if_splits)
qed

text \<open>C6: Issuance is rationed. Over any interleaving of requests and restarts, the blind signatures
  reserved for one address in one epoch never exceed 24 before the epoch's tickets expire.\<close>

theorem issuance_rationed:
  assumes "bolt_db B" and "db_inv B (authdb A)" and "challenges A = []"
    and "steps lib B (A, no_history h) (A', H)" and "sane_epoch e" and "h_hour H < e + 12"
  shows "total_issued (e, ident) H \<le> 24"
proof -
  have "db_inv B (authdb A')" "issued_inv B (authdb A') H"
    using bolt_db.steps_inv [OF assms(1,4) bolt_db.start_inv [OF assms(1-3)]] by (simp_all add: run_inv_def)
  then show ?thesis
    using bolt_db.issued_bounds [OF assms(1), of "authdb A'" "record_key e ident"] assms(5,6)
    by (auto simp: issued_inv_def live_def intro: order_trans)
qed

text \<open>C19: A challenge is answered at most once: over any interleaving, a nonce is accepted no more often
  than it was handed out, and at most 256 challenges are outstanding.\<close>

theorem challenge_single_use:
  assumes "bolt_db B" and "db_inv B (authdb A)" and "challenges A = []"
    and "steps lib B (A, no_history h) (A', H)"
  shows "count_list (h_taken H) n \<le> count_list (h_minted H) n \<and> length (challenges A') \<le> 256"
proof -
  have "challenge_inv A' H"
    using bolt_db.steps_inv [OF assms(1,4) bolt_db.start_inv [OF assms(1-3)]] by (simp add: run_inv_def)
  then show ?thesis by (auto simp: challenge_inv_def intro: add_leD1)
qed

text \<open>C25: The database stays well-formed and bounded over any interleaving and any number of restarts:
  its keys can be read back, and neither the spent nor the quota bucket exceeds 100,000
  records.\<close>

theorem database_bounded:
  assumes "bolt_db B" and "db_inv B (authdb A)" and "challenges A = []"
    and "steps lib B (A, no_history h) (A', H)"
  shows "db_inv B (authdb A') \<and> length (bkeys B (spentB (authdb A'))) \<le> 100000
    \<and> length (bkeys B (quotaB (authdb A'))) \<le> 100000"
  using bolt_db.steps_inv [OF assms(1,4) bolt_db.start_inv [OF assms(1-3)]]
  by (simp add: run_inv_def db_inv_def)

section \<open>Witnesses\<close>

lemma demo_db_inv: "db_inv rbt_bolt (authdb demo_auth)"
  by (simp add: db_inv_def wf_bucket_def demo_auth_def demo_db_def)

lemma demo_no_challenges: "challenges demo_auth = []"
  by (simp add: demo_auth_def)

text \<open>A redemption and a reservation, as steps from the empty database.\<close>

definition demo_spent :: "((string, string) rbt, nat) ticketAuthority" where
  "demo_spent = demo_auth\<lparr>authdb := demo_db\<lparr>spentB := RBT.insert (record_key 100 ''id'') [CHR 0x01] RBT.empty\<rparr>\<rparr>"

definition demo_spent_history :: history where
  "demo_spent_history = \<lparr>h_spent = [(100, ''id'')], h_issued = [], h_minted = [], h_taken = [], h_hour = 100\<rparr>"

lemma demo_spent_run: "steps demo_lib rbt_bolt (demo_auth, no_history 0) (demo_spent, demo_spent_history)"
proof -
  have now: "epoch_of (100 * 3600 * second) = 100" by (simp add: epoch_of_def unix_def)
  have tx: "db_update True (spend_tx rbt_bolt (epoch_of (100 * 3600 * second) - 12) (record_key 100 ''id'')) (authdb demo_auth)
      = (authdb demo_spent, None)"
    unfolding now by (simp add: db_update_def spend_tx_def demo_auth_def demo_spent_def demo_db_def)
  have "step demo_lib rbt_bolt (demo_auth, no_history 0) (demo_auth\<lparr>authdb := authdb demo_spent\<rparr>,
      saw (epoch_of (100 * 3600 * second)) ((no_history 0)\<lparr>h_spent := (100, ''id'') # h_spent (no_history 0)\<rparr>))"
    by (rule step.spend [OF tx]) (simp add: sane_epoch_def)
  then have "step demo_lib rbt_bolt (demo_auth, no_history 0) (demo_spent, demo_spent_history)"
    unfolding now by (simp add: demo_spent_def demo_spent_history_def no_history_def saw_def)
  then show ?thesis by (rule steps_one)
qed

theorem no_double_spend_witness:
  "steps demo_lib rbt_bolt (demo_auth, no_history 0) (demo_spent, demo_spent_history)
   \<and> count_list (h_spent demo_spent_history) (100, ''id'') \<le> 1"
  using demo_spent_run
  by (intro conjI no_double_spend [OF rb.bolt_db_axioms demo_db_inv demo_no_challenges demo_spent_run])
     (simp_all add: sane_epoch_def demo_spent_history_def)

definition demo_issued :: "((string, string) rbt, nat) ticketAuthority" where
  "demo_issued = demo_auth\<lparr>authdb := demo_db\<lparr>quotaB := RBT.insert (record_key 100 ''ad'') (itoa 3) RBT.empty\<rparr>\<rparr>"

definition demo_issued_history :: history where
  "demo_issued_history = \<lparr>h_spent = [], h_issued = [((100, ''ad''), 3)], h_minted = [], h_taken = [], h_hour = 0\<rparr>"

lemma demo_issued_run: "steps demo_lib rbt_bolt (demo_auth, no_history 0) (demo_issued, demo_issued_history)"
proof -
  have tx: "db_update True (quota_tx rbt_bolt (record_key 100 ''ad'') 3) (authdb demo_auth) = (authdb demo_issued, None)"
    by (simp add: db_update_def quota_tx_def demo_auth_def demo_issued_def demo_db_def Let_def)
  have "step demo_lib rbt_bolt (demo_auth, no_history 0) (demo_auth\<lparr>authdb := authdb demo_issued\<rparr>,
      (no_history 0)\<lparr>h_issued := ((100, ''ad''), 3) # h_issued (no_history 0)\<rparr>)"
    by (rule step.quota [OF tx]) (simp add: sane_epoch_def)
  then have "step demo_lib rbt_bolt (demo_auth, no_history 0) (demo_issued, demo_issued_history)"
    by (simp add: demo_issued_def demo_issued_history_def no_history_def)
  then show ?thesis by (rule steps_one)
qed

theorem issuance_rationed_witness:
  "total_issued (100, ''ad'') demo_issued_history = 3 \<and> total_issued (100, ''ad'') demo_issued_history \<le> 24"
  by (intro conjI issuance_rationed [OF rb.bolt_db_axioms demo_db_inv demo_no_challenges demo_issued_run])
     (simp_all add: sane_epoch_def demo_issued_history_def total_issued_def)

theorem database_bounded_witness:
  "db_inv rbt_bolt (authdb demo_issued) \<and> length (bkeys rbt_bolt (spentB (authdb demo_issued))) \<le> 100000
   \<and> length (bkeys rbt_bolt (quotaB (authdb demo_issued))) \<le> 100000"
  by (rule database_bounded [OF rb.bolt_db_axioms demo_db_inv demo_no_challenges demo_issued_run])

text \<open>A challenge that is handed out and taken.\<close>

definition demo_ch :: issueChallenge where
  "demo_ch = \<lparr>Binding = ''b'', ChEpoch = 100, Expires = 60\<rparr>"

definition demo_taken_history :: history where
  "demo_taken_history = \<lparr>h_spent = [], h_issued = [], h_minted = [''n''], h_taken = [''n''], h_hour = 0\<rparr>"

lemma demo_taken_run: "steps demo_lib rbt_bolt (demo_auth, no_history 0) (demo_auth, demo_taken_history)"
proof -
  let ?A = "demo_auth\<lparr>challenges := [(''n'', demo_ch)]\<rparr>"
  let ?H = "(no_history 0)\<lparr>h_minted := [''n'']\<rparr>"
  have put: "put_challenge (\<lambda>k. 0) ''n'' demo_ch demo_auth = (?A, True)"
    by (simp add: put_challenge_def demo_auth_def)
  have 1: "step demo_lib rbt_bolt (demo_auth, no_history 0) (?A, ?H)"
    using step.mint [OF put, where H = "no_history 0"] by (simp add: no_history_def)
  have get: "take_challenge ''n'' ?A = (demo_auth, Some demo_ch)"
    by (simp add: take_challenge_def demo_auth_def)
  have 2: "step demo_lib rbt_bolt (?A, ?H) (demo_auth, demo_taken_history)"
    using step.taken [OF get, where H = ?H] by (simp add: no_history_def demo_taken_history_def)
  from steps.more [OF steps_one [OF 1] 2] show ?thesis .
qed

theorem challenge_single_use_witness:
  "count_list (h_taken demo_taken_history) ''n'' \<le> count_list (h_minted demo_taken_history) ''n''
   \<and> length (challenges demo_auth) \<le> 256"
  by (rule challenge_single_use [OF rb.bolt_db_axioms demo_db_inv demo_no_challenges demo_taken_run])

theorem redeem_is_run_witness:
  "\<exists>H'. steps demo_lib rbt_bolt (demo_auth, no_history 0) (demo_auth\<lparr>authdb := demo_db2, tkeys := [(100, 7)]\<rparr>, H')
   \<and> (\<exists>e. h_spent H' = [(e, ticket_id demo_lib demo_msg)])"
proof -
  have "sane_clock (de_now (re_desc demo_redeem_env))"
    by (simp add: sane_clock_def demo_redeem_env_def demo_desc_env_def)
  from redeem_is_run [OF demo_redeem revision_colon this, of "no_history 0"]
  show ?thesis by (simp add: no_history_def)
qed

end
