(* ===== verification/Net_Addr.thy ===== *)
theory Net_Addr
  imports Go_Std
begin

unbundle bit_operations_syntax

text \<open>
  The part of Go's \<^verbatim>\<open>net/netip\<close> the relay uses: addresses with their zone, addresses with a
  port, the classification predicates, \<^verbatim>\<open>Unmap\<close> and containment in a prefix. The lemmas
  reduce every predicate to the octets of an IPv4 address or to the leading bits of an
  IPv6 address.
\<close>

section \<open>Addresses\<close>

text \<open>The zero \<^verbatim>\<open>Addr\<close> is invalid; an IPv6 address carries a zone, empty for none.\<close>

datatype addr =
    NoAddr
  | IPv4 byte byte byte byte
  | IPv6 "128 word" string

datatype addr_port = AddrPort (ap_addr: addr) (ap_port: "16 word")

definition is_valid :: "addr \<Rightarrow> bool" where
  "is_valid a \<longleftrightarrow> a \<noteq> NoAddr"

fun is4 :: "addr \<Rightarrow> bool" where
  "is4 (IPv4 a b c d) = True"
| "is4 _ = False"

fun zone :: "addr \<Rightarrow> string" where
  "zone (IPv6 w z) = z"
| "zone _ = []"

text \<open>\<^verbatim>\<open>Is4In6\<close>: the prefix \<^verbatim>\<open>::ffff:0:0/96\<close>, whatever the zone.\<close>

fun is4in6 :: "addr \<Rightarrow> bool" where
  "is4in6 (IPv6 w z) = (drop_bit 32 w = 0xFFFF)"
| "is4in6 _ = False"

definition low_octet :: "nat \<Rightarrow> 128 word \<Rightarrow> byte" where
  "low_octet i w = ucast (drop_bit (8 * i) w)"

fun unmap :: "addr \<Rightarrow> addr" where
  "unmap (IPv6 w z) =
     (if is4in6 (IPv6 w z) then IPv4 (low_octet 3 w) (low_octet 2 w) (low_octet 1 w) (low_octet 0 w)
      else IPv6 w z)"
| "unmap a = a"

text \<open>\<^verbatim>\<open>As4\<close>, on an IPv4 address.\<close>

fun as4 :: "addr \<Rightarrow> byte list" where
  "as4 (IPv4 a b c d) = [a, b, c, d]"
| "as4 _ = []"

text \<open>\<^verbatim>\<open>AsSlice\<close> has four or sixteen bytes; only its length is used.\<close>

fun addr_size :: "addr \<Rightarrow> nat" where
  "addr_size NoAddr = 0"
| "addr_size (IPv4 a b c d) = 4"
| "addr_size (IPv6 w z) = 16"

section \<open>Classification\<close>

definition is_unspecified :: "addr \<Rightarrow> bool" where
  "is_unspecified a \<longleftrightarrow> a = IPv4 0 0 0 0 \<or> a = IPv6 0 []"

fun loopback_bits :: "addr \<Rightarrow> bool" where
  "loopback_bits (IPv4 a b c d) = (a = 127)"
| "loopback_bits (IPv6 w z) = (w = 1)"
| "loopback_bits NoAddr = False"

fun multicast_bits :: "addr \<Rightarrow> bool" where
  "multicast_bits (IPv4 a b c d) = (a AND 0xF0 = 0xE0)"
| "multicast_bits (IPv6 w z) = (drop_bit 120 w = 0xFF)"
| "multicast_bits NoAddr = False"

fun link_local_bits :: "addr \<Rightarrow> bool" where
  "link_local_bits (IPv4 a b c d) = (a = 169 \<and> b = 254)"
| "link_local_bits (IPv6 w z) = (drop_bit 118 w = 0x3FA)"
| "link_local_bits NoAddr = False"

fun private_bits :: "addr \<Rightarrow> bool" where
  "private_bits (IPv4 a b c d) = (a = 10 \<or> (a = 172 \<and> b AND 0xF0 = 16) \<or> (a = 192 \<and> b = 168))"
| "private_bits (IPv6 w z) = (drop_bit 121 w = 0x7E)"
| "private_bits NoAddr = False"

text \<open>Each predicate first maps an IPv4-mapped IPv6 address to its IPv4 address.\<close>

definition is_loopback :: "addr \<Rightarrow> bool" where
  "is_loopback a = loopback_bits (unmap a)"

definition is_multicast :: "addr \<Rightarrow> bool" where
  "is_multicast a = multicast_bits (unmap a)"

definition is_link_local_unicast :: "addr \<Rightarrow> bool" where
  "is_link_local_unicast a = link_local_bits (unmap a)"

definition is_private :: "addr \<Rightarrow> bool" where
  "is_private a = private_bits (unmap a)"

definition is_global_unicast :: "addr \<Rightarrow> bool" where
  "is_global_unicast a =
     (let a = unmap a in
      a \<noteq> NoAddr \<and> a \<noteq> IPv4 0 0 0 0 \<and> a \<noteq> IPv4 255 255 255 255 \<and> a \<noteq> IPv6 0 []
      \<and> \<not> is_loopback a \<and> \<not> is_multicast a \<and> \<not> is_link_local_unicast a)"

text \<open>\<^verbatim>\<open>Prefix.Contains\<close> for an IPv6 prefix without a zone: an address with a zone is never
  contained.\<close>

fun prefix6_contains :: "128 word \<Rightarrow> nat \<Rightarrow> addr \<Rightarrow> bool" where
  "prefix6_contains p n (IPv6 w z) = (z = [] \<and> drop_bit (128 - n) w = drop_bit (128 - n) p)"
| "prefix6_contains p n _ = False"

section \<open>Lemmas\<close>

lemma unmap_unmap [simp]: "unmap (unmap a) = unmap a"
  by (cases a) auto

lemma unmap_valid [simp]: "unmap a = NoAddr \<longleftrightarrow> a = NoAddr"
  by (cases a) auto

lemma unmap_IPv4 [simp]: "unmap (IPv4 a b c d) = IPv4 a b c d"
  by simp

lemma not_is4in6_unmap [simp]: "\<not> is4in6 (unmap a)"
  by (cases a) auto

lemma is4_unmap: "is4 (unmap a) \<longleftrightarrow> is4 a \<or> is4in6 a"
  by (cases a) auto

lemma zone_unmap: "zone (unmap a) \<noteq> [] \<Longrightarrow> zone (unmap a) = zone a"
  by (cases a) auto

lemma classify_unmap [addr_simps]:
  "is_loopback (unmap a) = is_loopback a"
  "is_multicast (unmap a) = is_multicast a"
  "is_link_local_unicast (unmap a) = is_link_local_unicast a"
  "is_private (unmap a) = is_private a"
  "is_global_unicast (unmap a) = is_global_unicast a"
  by (simp_all add: is_loopback_def is_multicast_def is_link_local_unicast_def is_private_def
      is_global_unicast_def)

lemma classify_IPv4 [addr_simps]:
  "is_loopback (IPv4 a b c d) \<longleftrightarrow> a = 127"
  "is_multicast (IPv4 a b c d) \<longleftrightarrow> a AND 0xF0 = 0xE0"
  "is_link_local_unicast (IPv4 a b c d) \<longleftrightarrow> a = 169 \<and> b = 254"
  "is_private (IPv4 a b c d) \<longleftrightarrow> a = 10 \<or> (a = 172 \<and> b AND 0xF0 = 16) \<or> (a = 192 \<and> b = 168)"
  "is_unspecified (IPv4 a b c d) \<longleftrightarrow> a = 0 \<and> b = 0 \<and> c = 0 \<and> d = 0"
  by (simp_all add: is_loopback_def is_multicast_def is_link_local_unicast_def is_private_def
      is_unspecified_def)

lemma classify_IPv6 [addr_simps]:
  assumes "\<not> is4in6 (IPv6 w z)"
  shows "is_loopback (IPv6 w z) \<longleftrightarrow> w = 1"
    and "is_multicast (IPv6 w z) \<longleftrightarrow> drop_bit 120 w = 0xFF"
    and "is_link_local_unicast (IPv6 w z) \<longleftrightarrow> drop_bit 118 w = 0x3FA"
    and "is_private (IPv6 w z) \<longleftrightarrow> drop_bit 121 w = 0x7E"
  using assms by (simp_all add: is_loopback_def is_multicast_def is_link_local_unicast_def
      is_private_def)

text \<open>The class D and class E blocks are the octets from 224 on: \<open>a AND 0xF0 = 0xE0\<close> lies there.\<close>

lemma multicast_octet: "(a :: byte) AND 0xF0 = 0xE0 \<Longrightarrow> 224 \<le> a"
proof -
  assume h: "a AND 0xF0 = 0xE0"
  have "a AND 0xF0 \<le> a" by (simp add: word_and_le2)
  with h show ?thesis by simp
qed

end
