(* ===== verification/Target_Policy.thy ===== *)
theory Target_Policy
  imports Net_Addr
begin

unbundle bit_operations_syntax

text \<open>
  \<^verbatim>\<open>publiclyRoutable\<close> of \<^verbatim>\<open>internal/relay/server.go\<close>, the test for forwarding targets and for the
  advertised address. Its cascade of predicates and octet comparisons is shown equivalent to
  a table of reserved address ranges, for IPv4 and for IPv6.
\<close>

section \<open>The test\<close>

text \<open>The comparisons on the octets of an IPv4 address.\<close>

fun reserved_octets :: "byte list \<Rightarrow> bool" where
  "reserved_octets [a, b, c, d] =
     (a = 0 \<or> a \<ge> 224 \<or> (a = 100 \<and> b \<ge> 64 \<and> b \<le> 127) \<or> (a = 192 \<and> b = 0)
      \<or> (a = 198 \<and> (b = 18 \<or> b = 19)) \<or> (a = 198 \<and> b = 51 \<and> c = 100) \<or> (a = 203 \<and> b = 0 \<and> c = 113))"
| "reserved_octets _ = False"

definition publiclyRoutable :: "addr \<Rightarrow> bool" where
  "publiclyRoutable address =
     (let address = unmap address in
      if \<not> is_valid address \<or> is_unspecified address \<or> is_loopback address \<or> is_multicast address
         \<or> is_link_local_unicast address \<or> is_private address then False
      else if is4 address \<and> reserved_octets (as4 address) then False
      else if prefix6_contains 0x20010db8000000000000000000000000 32 address then False
      else True)"

lemma publiclyRoutable_unmap [simp]: "publiclyRoutable (unmap a) = publiclyRoutable a"
  by (simp add: publiclyRoutable_def)

section \<open>Reserved ranges\<close>

definition quad :: "nat \<Rightarrow> nat \<Rightarrow> nat \<Rightarrow> nat \<Rightarrow> nat" where
  "quad a b c d = a * 16777216 + b * 65536 + c * 256 + d"

definition in_ranges :: "(nat \<times> nat) list \<Rightarrow> nat \<Rightarrow> bool" where
  "in_ranges rs v \<longleftrightarrow> (\<exists>(lo, hi) \<in> set rs. lo \<le> v \<and> v \<le> hi)"

text \<open>This network, private use, carrier-grade NAT, loopback, link-local, private use, IETF protocol
  assignments with TEST-NET-1, private use, benchmarking, TEST-NET-2, TEST-NET-3, multicast and reserved.\<close>

definition reserved4 :: "(nat \<times> nat) list" where
  "reserved4 =
     [(quad 0 0 0 0, quad 0 255 255 255), (quad 10 0 0 0, quad 10 255 255 255),
      (quad 100 64 0 0, quad 100 127 255 255), (quad 127 0 0 0, quad 127 255 255 255),
      (quad 169 254 0 0, quad 169 254 255 255), (quad 172 16 0 0, quad 172 31 255 255),
      (quad 192 0 0 0, quad 192 0 255 255), (quad 192 168 0 0, quad 192 168 255 255),
      (quad 198 18 0 0, quad 198 19 255 255), (quad 198 51 100 0, quad 198 51 100 255),
      (quad 203 0 113 0, quad 203 0 113 255), (quad 224 0 0 0, quad 255 255 255 255)]"

text \<open>Unspecified, loopback, multicast, link-local, unique local, documentation: by leading bits.\<close>

definition block :: "nat \<Rightarrow> nat \<Rightarrow> nat \<times> nat" where
  "block n c = (c * 2 ^ n, c * 2 ^ n + (2 ^ n - 1))"

definition reserved6 :: "(nat \<times> nat) list" where
  "reserved6 = [(0, 0), (1, 1), block 120 0xFF, block 118 0x3FA, block 121 0x7E, block 96 0x20010db8]"

section \<open>Equivalence for IPv4\<close>

lemma high_nibble: "(b :: byte) AND 0xF0 = push_bit 4 (drop_bit 4 b)"
proof -
  have f0: "(0xF0 :: byte) = NOT (mask 4)" by (simp add: mask_eq_exp_minus_1)
  show ?thesis
    unfolding f0 by (intro bit_word_eqI) (auto simp: bit_simps)
qed

lemma high_nibble_unat: "unat ((b :: byte) AND 0xF0) = 16 * (unat b div 16)"
proof -
  have "unat b < 256" using unsigned_less [of b] by simp
  then have "unat b div 16 < 16" "16 * (unat b div 16) < 256" by linarith+
  then have m: "unat b div 16 mod 256 = unat b div 16" "16 * (unat b div 16) mod 256 = 16 * (unat b div 16)"
    by (intro mod_less; linarith)+
  have "unat (b AND 0xF0) = 16 * (unat b div 16 mod 256) mod 256"
    unfolding high_nibble
    by (simp add: push_bit_eq_mult unat_word_ariths unsigned_drop_bit_eq drop_bit_eq_div mult.commute)
  then show ?thesis by (simp only: m)
qed
lemma private_octet: "(b :: byte) AND 0xF0 = 16 \<longleftrightarrow> 16 \<le> unat b \<and> unat b \<le> 31"
proof -
  have "b AND 0xF0 = 16 \<longleftrightarrow> unat (b AND 0xF0) = 16" by (simp add: word_unat_eq_iff)
  then show ?thesis unfolding high_nibble_unat by auto
qed
lemma multicast_range: "(b :: byte) AND 0xF0 = 0xE0 \<longleftrightarrow> 224 \<le> unat b \<and> unat b \<le> 239"
proof -
  have "b AND 0xF0 = 0xE0 \<longleftrightarrow> unat (b AND 0xF0) = 224" by (simp add: word_unat_eq_iff)
  then show ?thesis unfolding high_nibble_unat by auto
qed

text \<open>The order of addresses is the lexicographic order of their octets.\<close>

lemma quad_less:
  assumes "b < 256" "c < 256" "d < 256" "b' < 256" "c' < 256" "d' < 256"
  shows "quad a b c d \<le> quad a' b' c' d' \<longleftrightarrow>
    a < a' \<or> (a = a' \<and> (b < b' \<or> (b = b' \<and> (c < c' \<or> (c = c' \<and> d \<le> d')))))"
proof -
  have c1: "a < a' \<Longrightarrow> quad a b c d < quad a' b' c' d'" "a' < a \<Longrightarrow> quad a' b' c' d' < quad a b c d"
    using assms unfolding quad_def by linarith+
  have c2: "a = a' \<Longrightarrow> b < b' \<Longrightarrow> quad a b c d < quad a' b' c' d'" "a = a' \<Longrightarrow> b' < b \<Longrightarrow> quad a' b' c' d' < quad a b c d"
    using assms unfolding quad_def by linarith+
  have c3: "a = a' \<Longrightarrow> b = b' \<Longrightarrow> c < c' \<Longrightarrow> quad a b c d < quad a' b' c' d'"
    "a = a' \<Longrightarrow> b = b' \<Longrightarrow> c' < c \<Longrightarrow> quad a' b' c' d' < quad a b c d"
    using assms unfolding quad_def by linarith+
  have c4: "a = a' \<Longrightarrow> b = b' \<Longrightarrow> c = c' \<Longrightarrow> (quad a b c d \<le> quad a' b' c' d') = (d \<le> d')"
    unfolding quad_def by simp
  show ?thesis
    using c1 c2 c3 c4 by (metis less_imp_le linorder_neqE_nat not_le)
qed

lemma reserved4_octets:
  assumes "a < 256" "b < 256" "c < 256" "d < 256"
  shows "quad 0 0 0 0 \<le> quad a b c d \<and> quad a b c d \<le> quad 0 255 255 255 \<longleftrightarrow> a = 0"
    and "quad 10 0 0 0 \<le> quad a b c d \<and> quad a b c d \<le> quad 10 255 255 255 \<longleftrightarrow> a = 10"
    and "quad 100 64 0 0 \<le> quad a b c d \<and> quad a b c d \<le> quad 100 127 255 255 \<longleftrightarrow> (a = 100 \<and> 64 \<le> b \<and> b \<le> 127)"
    and "quad 127 0 0 0 \<le> quad a b c d \<and> quad a b c d \<le> quad 127 255 255 255 \<longleftrightarrow> a = 127"
    and "quad 169 254 0 0 \<le> quad a b c d \<and> quad a b c d \<le> quad 169 254 255 255 \<longleftrightarrow> (a = 169 \<and> b = 254)"
    and "quad 172 16 0 0 \<le> quad a b c d \<and> quad a b c d \<le> quad 172 31 255 255 \<longleftrightarrow> (a = 172 \<and> 16 \<le> b \<and> b \<le> 31)"
    and "quad 192 0 0 0 \<le> quad a b c d \<and> quad a b c d \<le> quad 192 0 255 255 \<longleftrightarrow> (a = 192 \<and> b = 0)"
    and "quad 192 168 0 0 \<le> quad a b c d \<and> quad a b c d \<le> quad 192 168 255 255 \<longleftrightarrow> (a = 192 \<and> b = 168)"
    and "quad 198 18 0 0 \<le> quad a b c d \<and> quad a b c d \<le> quad 198 19 255 255 \<longleftrightarrow> (a = 198 \<and> 18 \<le> b \<and> b \<le> 19)"
    and "quad 198 51 100 0 \<le> quad a b c d \<and> quad a b c d \<le> quad 198 51 100 255 \<longleftrightarrow> (a = 198 \<and> b = 51 \<and> c = 100)"
    and "quad 203 0 113 0 \<le> quad a b c d \<and> quad a b c d \<le> quad 203 0 113 255 \<longleftrightarrow> (a = 203 \<and> b = 0 \<and> c = 113)"
    and "quad 224 0 0 0 \<le> quad a b c d \<and> quad a b c d \<le> quad 255 255 255 255 \<longleftrightarrow> 224 \<le> a"
  using assms by (simp_all add: quad_less, linarith+)

lemma in_reserved4:
  assumes "a < 256" "b < 256" "c < 256" "d < 256"
  shows "in_ranges reserved4 (quad a b c d) \<longleftrightarrow>
    a = 0 \<or> a = 10 \<or> (a = 100 \<and> 64 \<le> b \<and> b \<le> 127) \<or> a = 127 \<or> (a = 169 \<and> b = 254)
    \<or> (a = 172 \<and> 16 \<le> b \<and> b \<le> 31) \<or> (a = 192 \<and> b = 0) \<or> (a = 192 \<and> b = 168)
    \<or> (a = 198 \<and> 18 \<le> b \<and> b \<le> 19) \<or> (a = 198 \<and> b = 51 \<and> c = 100) \<or> (a = 203 \<and> b = 0 \<and> c = 113)
    \<or> 224 \<le> a"
  unfolding in_ranges_def reserved4_def
  by (simp only: list.set bex_simps prod.case reserved4_octets [OF assms] simp_thms)

lemma byte_nums:
  fixes x :: byte
  shows "x = 0 \<longleftrightarrow> unat x = 0" "x = 10 \<longleftrightarrow> unat x = 10" "x = 18 \<longleftrightarrow> unat x = 18" "x = 19 \<longleftrightarrow> unat x = 19"
    "x = 51 \<longleftrightarrow> unat x = 51" "x = 100 \<longleftrightarrow> unat x = 100" "x = 113 \<longleftrightarrow> unat x = 113" "x = 127 \<longleftrightarrow> unat x = 127"
    "x = 168 \<longleftrightarrow> unat x = 168" "x = 169 \<longleftrightarrow> unat x = 169" "x = 172 \<longleftrightarrow> unat x = 172" "x = 192 \<longleftrightarrow> unat x = 192"
    "x = 198 \<longleftrightarrow> unat x = 198" "x = 203 \<longleftrightarrow> unat x = 203" "x = 254 \<longleftrightarrow> unat x = 254"
    "64 \<le> x \<longleftrightarrow> 64 \<le> unat x" "x \<le> 127 \<longleftrightarrow> unat x \<le> 127" "224 \<le> x \<longleftrightarrow> 224 \<le> unat x"
  by (simp_all add: word_unat_eq_iff word_le_nat_alt)

lemma routable4_octets:
  "publiclyRoutable (IPv4 a b c d) \<longleftrightarrow>
     \<not> ((a = 0 \<and> b = 0 \<and> c = 0 \<and> d = 0) \<or> a = 127 \<or> a AND 0xF0 = 0xE0 \<or> (a = 169 \<and> b = 254)
        \<or> a = 10 \<or> (a = 172 \<and> b AND 0xF0 = 16) \<or> (a = 192 \<and> b = 168) \<or> reserved_octets [a, b, c, d])"
  by (simp add: publiclyRoutable_def Let_def addr_simps is_valid_def del: reserved_octets.simps)

lemma routable4:
  "publiclyRoutable (IPv4 a b c d) \<longleftrightarrow>
     \<not> in_ranges reserved4 (quad (unat a) (unat b) (unat c) (unat d))"
proof -
  have bound: "unat a < 256" "unat b < 256" "unat c < 256" "unat d < 256"
    using unsigned_less [of a] unsigned_less [of b] unsigned_less [of c] unsigned_less [of d] by simp_all
  have b2: "(unat b = 18 \<or> unat b = 19) = (18 \<le> unat b \<and> unat b \<le> 19)" by auto
  have m: "224 \<le> unat a \<and> unat a \<le> 239 \<Longrightarrow> 224 \<le> unat a" by simp
  show ?thesis
    unfolding routable4_octets in_reserved4 [OF bound] reserved_octets.simps private_octet multicast_range byte_nums b2
    using m by blast
qed

section \<open>Equivalence for IPv6\<close>

lemma in_block: "fst (block n c) \<le> v \<and> v \<le> snd (block n c) \<longleftrightarrow> v div 2 ^ n = c"
proof -
  have pos: "(0 :: nat) < 2 ^ n" by simp
  have "c * 2 ^ n \<le> v \<and> v \<le> c * 2 ^ n + (2 ^ n - 1) \<longleftrightarrow> c * 2 ^ n \<le> v \<and> v < Suc c * 2 ^ n"
    using pos by (simp only: mult_Suc) linarith
  also have "\<dots> \<longleftrightarrow> c \<le> v div 2 ^ n \<and> v div 2 ^ n < Suc c"
    using less_eq_div_iff_mult_less_eq [OF pos, of c v] div_less_iff_less_mult [OF pos, of v "Suc c"] by simp
  also have "\<dots> \<longleftrightarrow> v div 2 ^ n = c" by auto
  finally show ?thesis by (simp add: block_def)
qed

lemma leading_bits:
  "drop_bit n (w :: 128 word) = c \<longleftrightarrow> unat w div 2 ^ n = unat c"
proof -
  have take_bit_unat: "take_bit 128 (unat w) = unat w"
    using unsigned_less [of w, where ?'a = nat] by (intro take_bit_nat_eq_self) simp
  have "unat (drop_bit n w) = unat w div 2 ^ n" 
    by (simp only: unsigned_drop_bit_eq) (simp add: drop_bit_eq_div take_bit_unat)
  then show ?thesis by (simp only: word_unat_eq_iff)
qed

lemma in_reserved6:
  "in_ranges reserved6 v \<longleftrightarrow> v = 0 \<or> v = 1 \<or> v div 2 ^ 120 = 0xFF \<or> v div 2 ^ 118 = 0x3FA \<or> v div 2 ^ 121 = 0x7E
     \<or> v div 2 ^ 96 = 0x20010db8"
proof -
  have "in_ranges reserved6 v \<longleftrightarrow> (\<exists>r \<in> set reserved6. fst r \<le> v \<and> v \<le> snd r)"
    by (force simp: in_ranges_def)
  also have "\<dots> \<longleftrightarrow> (0 \<le> v \<and> v \<le> 0) \<or> (1 \<le> v \<and> v \<le> 1) \<or> v div 2 ^ 120 = 0xFF \<or> v div 2 ^ 118 = 0x3FA
      \<or> v div 2 ^ 121 = 0x7E \<or> v div 2 ^ 96 = 0x20010db8"
    unfolding reserved6_def by (simp only: list.set bex_simps in_block fst_conv snd_conv simp_thms)
  finally have r: "in_ranges reserved6 v \<longleftrightarrow> (0 \<le> v \<and> v \<le> 0) \<or> (1 \<le> v \<and> v \<le> 1) \<or> v div 2 ^ 120 = 0xFF
      \<or> v div 2 ^ 118 = 0x3FA \<or> v div 2 ^ 121 = 0x7E \<or> v div 2 ^ 96 = 0x20010db8" .
  have "(0 \<le> v \<and> v \<le> 0) = (v = 0)" "(1 \<le> v \<and> v \<le> 1) = (v = 1)" by auto
  then show ?thesis by (simp only: r)
qed

lemma routable6:
  assumes "\<not> is4in6 (IPv6 w [])"
  shows "publiclyRoutable (IPv6 w []) \<longleftrightarrow> \<not> in_ranges reserved6 (unat w)"
proof -
  have w: "w = 0 \<longleftrightarrow> unat w = 0" "w = 1 \<longleftrightarrow> unat w = 1" by (simp_all add: word_unat_eq_iff)
  have "unmap (IPv6 w []) = IPv6 w []" using assms by simp
  then have "publiclyRoutable (IPv6 w []) \<longleftrightarrow>
      \<not> (w = 0 \<or> w = 1 \<or> drop_bit 120 w = 0xFF \<or> drop_bit 118 w = 0x3FA \<or> drop_bit 121 w = 0x7E \<or> drop_bit 96 w = 0x20010db8)"
    using classify_IPv6 [OF assms] by (simp add: publiclyRoutable_def Let_def is_valid_def is_unspecified_def)
  then show ?thesis unfolding in_reserved6 w leading_bits by simp
qed

section \<open>Any address\<close>

text \<open>An address that is reserved, and one that an operator may open: private use and loopback.\<close>

definition local4 :: "(nat \<times> nat) list" where
  "local4 = [(quad 10 0 0 0, quad 10 255 255 255), (quad 127 0 0 0, quad 127 255 255 255),
     (quad 172 16 0 0, quad 172 31 255 255), (quad 192 168 0 0, quad 192 168 255 255)]"

definition local6 :: "(nat \<times> nat) list" where
  "local6 = [(1, 1), block 121 0x7E]"

fun reserved :: "addr \<Rightarrow> bool" where
  "reserved (IPv4 a b c d) = in_ranges reserved4 (quad (unat a) (unat b) (unat c) (unat d))"
| "reserved (IPv6 w z) = (z \<noteq> [] \<or> in_ranges reserved6 (unat w))"
| "reserved NoAddr = True"

fun local_use :: "addr \<Rightarrow> bool" where
  "local_use (IPv4 a b c d) = in_ranges local4 (quad (unat a) (unat b) (unat c) (unat d))"
| "local_use (IPv6 w z) = (z = [] \<and> in_ranges local6 (unat w))"
| "local_use NoAddr = False"

lemma byte_bounds: "unat (a :: byte) < 256"
  using unsigned_less [of a, where ?'a = nat] by simp

lemma local_use4: "local_use (IPv4 a b c d) \<longleftrightarrow> is_private (IPv4 a b c d) \<or> is_loopback (IPv4 a b c d)"
proof -
  note o = reserved4_octets [OF byte_bounds [of a] byte_bounds [of b] byte_bounds [of c] byte_bounds [of d]]
  have "local_use (IPv4 a b c d) \<longleftrightarrow> unat a = 10 \<or> unat a = 127 \<or> (unat a = 172 \<and> 16 \<le> unat b \<and> unat b \<le> 31)
      \<or> (unat a = 192 \<and> unat b = 168)"
    unfolding local_use.simps in_ranges_def local4_def by (simp only: list.set bex_simps prod.case o simp_thms)
  then show ?thesis unfolding addr_simps private_octet byte_nums by blast
qed

lemma local_use6:
  assumes "\<not> is4in6 (IPv6 w [])"
  shows "local_use (IPv6 w []) \<longleftrightarrow> is_private (IPv6 w []) \<or> is_loopback (IPv6 w [])"
proof -
  have w: "w = 1 \<longleftrightarrow> unat w = 1" by (simp add: word_unat_eq_iff)
  have "in_ranges local6 (unat w) \<longleftrightarrow> (\<exists>r \<in> set local6. fst r \<le> unat w \<and> unat w \<le> snd r)"
    by (force simp: in_ranges_def)
  also have "\<dots> \<longleftrightarrow> (1 \<le> unat w \<and> unat w \<le> 1) \<or> unat w div 2 ^ 121 = 0x7E"
    unfolding local6_def by (simp only: list.set bex_simps in_block fst_conv snd_conv simp_thms)
  also have "(1 \<le> unat w \<and> unat w \<le> 1) = (unat w = 1)" by auto
  finally show ?thesis
    using classify_IPv6 [OF assms] by (simp only: local_use.simps w leading_bits) auto
qed

lemma reserved_not_routable4: "is_unspecified (IPv4 a b c d) \<or> is_multicast (IPv4 a b c d) \<Longrightarrow> reserved (IPv4 a b c d)"
  using routable4 [of a b c d] unfolding routable4_octets by (auto simp: addr_simps)

lemma not_local_special4:
  "is_unspecified (IPv4 a b c d) \<or> is_multicast (IPv4 a b c d) \<Longrightarrow> \<not> local_use (IPv4 a b c d)"
  unfolding local_use4 by (auto simp: addr_simps multicast_range byte_nums)

lemma special6:
  assumes "\<not> is4in6 (IPv6 w [])" and "is_unspecified (IPv6 w []) \<or> is_multicast (IPv6 w [])"
  shows "reserved (IPv6 w []) \<and> \<not> local_use (IPv6 w [])"
proof -
  have "\<not> publiclyRoutable (IPv6 w [])" using assms by (auto simp: publiclyRoutable_def Let_def)
  moreover have "\<not> (is_private (IPv6 w []) \<or> is_loopback (IPv6 w []))"
  proof
    assume "is_private (IPv6 w []) \<or> is_loopback (IPv6 w [])"
    then have l: "drop_bit 121 w = 0x7E \<or> w = 1" using classify_IPv6 [OF assms(1)] by blast
    have "w = 0 \<or> drop_bit 120 w = 0xFF" using assms(2) classify_IPv6 [OF assms(1)] by (auto simp: is_unspecified_def)
    then show False
    proof
      assume "w = 0"
      then show False using l by simp
    next
      assume m: "drop_bit 120 w = 0xFF"
      have "drop_bit 121 w = drop_bit 1 (drop_bit 120 w)" by simp
      also have "\<dots> = 0x7F" unfolding m by simp
      finally have "w = 1" using l by simp
      then show False using m by simp
    qed
  qed
  ultimately show ?thesis using routable6 [OF assms(1)] local_use6 [OF assms(1)] by simp
qed

end
