(* ===== verification/Admission.thy ===== *)
theory Admission
  imports Relay_Prelude "HOL-Library.Multiset"
begin

text \<open>
  Bounded admission, the contract the connection counters of the access policy and the session
  counters of the server share. A crowd is the multiset of sources that were admitted and have not
  left; the locale \<open>admission\<close> states what the operations promise about the two counters, and shows
  once that over any interleaving the counters are exact and the crowd is bounded in total and per
  source.
\<close>

text \<open>Runs: admissions, departures of members, and other operations on the same state.\<close>

inductive crowd ::
  "('s \<Rightarrow> string \<Rightarrow> 's option) \<Rightarrow> ('s \<Rightarrow> string \<Rightarrow> 's) \<Rightarrow> ('s \<Rightarrow> 's \<Rightarrow> bool) \<Rightarrow> 's \<Rightarrow> 's \<Rightarrow> string multiset \<Rightarrow> bool"
  for admit leave other s0 where
  start: "crowd admit leave other s0 s0 {#}"
| admitted: "crowd admit leave other s0 s act \<Longrightarrow> admit s k = Some s' \<Longrightarrow>
    crowd admit leave other s0 s' (add_mset k act)"
| left: "crowd admit leave other s0 s act \<Longrightarrow> k \<in># act \<Longrightarrow>
    crowd admit leave other s0 (leave s k) (act - {#k#})"
| aside: "crowd admit leave other s0 s act \<Longrightarrow> other s s' \<Longrightarrow> crowd admit leave other s0 s' act"

locale admission =
  fixes admit :: "'s \<Rightarrow> string \<Rightarrow> 's option"
    and leave :: "'s \<Rightarrow> string \<Rightarrow> 's"
    and other :: "'s \<Rightarrow> 's \<Rightarrow> bool"
    and total :: "'s \<Rightarrow> int"
    and per :: "'s \<Rightarrow> string \<Rightarrow> int"
    and cap :: "'s \<Rightarrow> int"
    and share :: int
    and inv :: "'s \<Rightarrow> bool"
  assumes admit_inv: "inv s \<Longrightarrow> admit s k = Some s' \<Longrightarrow> inv s' \<and> cap s' = cap s"
    and admit_room: "inv s \<Longrightarrow> admit s k = Some s' \<Longrightarrow> total s < cap s \<and> per s k < share"
    and admit_count: "inv s \<Longrightarrow> admit s k = Some s' \<Longrightarrow>
        total s' = total s + 1 \<and> per s' j = per s j + (if j = k then 1 else 0)"
    and leave_inv: "inv s \<Longrightarrow> 0 < per s k \<Longrightarrow> inv (leave s k) \<and> cap (leave s k) = cap s"
    and leave_count: "inv s \<Longrightarrow> 0 < per s k \<Longrightarrow>
        total (leave s k) = total s - 1 \<and> per (leave s k) j = per s j - (if j = k then 1 else 0)"
    and other_keeps: "inv s \<Longrightarrow> other s s' \<Longrightarrow>
        inv s' \<and> cap s' = cap s \<and> total s' = total s \<and> per s' j = per s j"
begin

definition exact :: "'s \<Rightarrow> string multiset \<Rightarrow> bool" where
  "exact s act \<longleftrightarrow> inv s \<and> total s = int (size act) \<and> (\<forall>k. per s k = int (count act k))"

lemma exact_admit:
  assumes "exact s act" and "admit s k = Some s'"
  shows "exact s' (add_mset k act)"
  using assms admit_inv [of s k s'] admit_count [of s k s'] by (auto simp: exact_def)

lemma exact_leave:
  assumes "exact s act" and "k \<in># act"
  shows "exact (leave s k) (act - {#k#})"
proof -
  have "0 < per s k" using assms by (simp add: exact_def)
  moreover have "int (size (act - {#k#})) = int (size act) - 1"
    using assms(2) size_Suc_Diff1 [of k act] by linarith
  moreover have "int (count (act - {#k#}) j) = int (count act j) - (if j = k then 1 else 0)" for j
    using assms(2) by (auto simp: of_nat_diff)
  ultimately show ?thesis
    using assms(1) leave_inv [of s k] leave_count [of s k] by (simp add: exact_def)
qed

lemma crowd_exact:
  assumes "crowd admit leave other s0 s act" and "exact s0 {#}"
  shows "exact s act \<and> cap s = cap s0"
  using assms
proof (induction rule: crowd.induct)
  case (admitted s act k s')
  then show ?case using exact_admit [of s act k s'] admit_inv [of s k s'] by (simp add: exact_def)
next
  case (left s act k)
  then have "0 < per s k" by (simp add: exact_def)
  then show ?case using left exact_leave [of s act k] leave_inv [of s k] by (simp add: exact_def)
next
  case (aside s act s')
  then show ?case using other_keeps [of s s'] by (auto simp: exact_def)
qed simp

lemma crowd_bounded:
  assumes "crowd admit leave other s0 s act" and "exact s0 {#}" and "0 \<le> cap s0" and "0 \<le> share"
  shows "int (size act) \<le> cap s0 \<and> int (count act k) \<le> share"
  using assms
proof (induction rule: crowd.induct)
  case (admitted s act j s')
  have ex: "exact s act" "cap s = cap s0" using crowd_exact [OF admitted.hyps(1) admitted.prems(1)] by auto
  then have "int (size act) < cap s0" "int (count act j) < share"
    using admit_room [of s j s'] admitted.hyps(2) by (auto simp: exact_def)
  then show ?case using admitted by auto
next
  case (left s act j)
  have "size (act - {#j#}) \<le> size act" "count (act - {#j#}) k \<le> count act k"
    by (simp_all add: size_mset_mono)
  then show ?case using left by linarith
qed auto

end

section \<open>Counters in a map\<close>

text \<open>The bookkeeping both components use: a total, and a map of positive counters that add up to it.\<close>

definition counters_ok :: "int \<Rightarrow> (string, int) gomap \<Rightarrow> bool" where
  "counters_ok n m \<longleftrightarrow> wf_map m \<and> (\<forall>(k, v) \<in> set m. 1 \<le> v) \<and> n = sum_map m"

lemma counters_empty [simp]: "counters_ok 0 []"
  by (simp add: counters_ok_def)

lemma get_num_cases:
  assumes "counters_ok n m"
  shows "get_num m k = 0 \<or> ((k, get_num m k) \<in> set m \<and> 1 \<le> get_num m k)"
proof (cases "get_map m k")
  case None
  then show ?thesis by (simp add: get_num_def)
next
  case (Some v)
  then have "(k, v) \<in> set m" by (rule map_of_SomeD)
  with Some assms show ?thesis by (auto simp: get_num_def counters_ok_def)
qed

lemma get_num_nonneg: "counters_ok n m \<Longrightarrow> 0 \<le> get_num m k"
  using get_num_cases [of n m k] by auto

lemma counters_inc:
  assumes "counters_ok n m"
  shows "counters_ok (n + 1) (set_map k (get_num m k + 1) m)"
proof -
  have wf: "wf_map m" using assms by (simp add: counters_ok_def)
  have "1 \<le> v" if "(j, v) \<in> set (set_map k (get_num m k + 1) m)" for j v
    using set_set_mapD [OF that wf] assms get_num_nonneg [OF assms, of k] by (auto simp: counters_ok_def)
  then show ?thesis using assms sum_set_map [OF wf] by (auto simp: counters_ok_def)
qed

lemma counters_dec:
  assumes "counters_ok n m" and "1 < get_num m k"
  shows "counters_ok (n - 1) (set_map k (get_num m k - 1) m)"
proof -
  have wf: "wf_map m" using assms(1) by (simp add: counters_ok_def)
  have "1 \<le> v" if "(j, v) \<in> set (set_map k (get_num m k - 1) m)" for j v
    using set_set_mapD [OF that wf] assms by (auto simp: counters_ok_def)
  then show ?thesis using assms sum_set_map [OF wf] by (auto simp: counters_ok_def)
qed

lemma counters_del:
  assumes "counters_ok n m" and "get_num m k = 1"
  shows "counters_ok (n - 1) (del_map k m)"
  using assms sum_del_map [of m k] by (auto simp: counters_ok_def dest: set_del_mapD)

lemma counters_length: "counters_ok n m \<Longrightarrow> int (length m) \<le> n"
proof (induction m arbitrary: n)
  case (Cons x m)
  obtain k v where x: "x = (k, v)" by fastforce
  have "counters_ok (n - v) m" "1 \<le> v"
    using Cons.prems by (auto simp: counters_ok_def wf_map_def sum_map_def x)
  then show ?case using Cons.IH [of "n - v"] by simp
qed (simp add: counters_ok_def)

lemma counters_total:
  assumes "counters_ok n m"
  shows "get_num m k \<le> n"
proof -
  have le: "(j, v) \<in> set m \<Longrightarrow> v \<le> n" for j v
    using assms
  proof (induction m arbitrary: n)
    case (Cons x m)
    have "counters_ok (n - snd x) m" "1 \<le> snd x"
      using Cons.prems(2) by (auto simp: counters_ok_def wf_map_def sum_map_def split: prod.splits)
    then show ?case using Cons.IH [of "n - snd x"] Cons.prems(1) counters_length [of "n - snd x" m] by auto
  qed simp
  show ?thesis using get_num_cases [OF assms, of k] le counters_length [OF assms] by auto
qed

end
