(* ===== verification/Connections.thy ===== *)
theory Connections
  imports Tickets Admission
begin

text \<open>
  Connections of \<^verbatim>\<open>internal/relay/access.go\<close>: \<^verbatim>\<open>connectionContext\<close> with its counters,
  \<^verbatim>\<open>connectionAuthorization\<close> with its timer, \<^verbatim>\<open>expire\<close> and \<^verbatim>\<open>authorize\<close>; and \<^verbatim>\<open>sourceHost\<close> of \<^verbatim>\<open>server.go\<close>.

  The counters satisfy the contract of \<open>Admission\<close>. One connection is a step system over its
  requests and its timers; a timer that was stopped may still run, since stopping does not recall a
  function that has already been started.
\<close>

section \<open>Data\<close>

text \<open>\<open>timer\<close> is the pending timer, as the time it fires and the generation it carries; stopping it leaves none.\<close>

record connectionAuthorization =
  authorizedUntil :: time
  address :: string
  timer :: "(time \<times> 64 word) option"
  attempts :: int
  timerGeneration :: "64 word"
  has_conn :: bool

text \<open>The host of a remote address, or the whole text when it cannot be split.\<close>

definition sourceHost :: "string \<Rightarrow> string" where
  "sourceHost value =
     (case split_host_port value of
        None \<Rightarrow> value
      | Some (host, port) \<Rightarrow> if host = [] then value else host)"

section \<open>Connection counters\<close>

text \<open>The critical sections: counting a connection of a source in, unless a limit is reached, and out.\<close>

definition enter_source :: "accessPolicy \<Rightarrow> string \<Rightarrow> accessPolicy option" where
  "enter_source p source =
     (if connectionCount p \<ge> 512 \<or> get_num (connections p) source \<ge> 32 then None
      else Some (p\<lparr>connectionCount := connectionCount p + 1,
                   connections := set_map source (get_num (connections p) source + 1) (connections p)\<rparr>))"

definition leave_source :: "accessPolicy \<Rightarrow> string \<Rightarrow> accessPolicy" where
  "leave_source p source =
     (let m = set_map source (get_num (connections p) source - 1) (connections p)
      in p\<lparr>connectionCount := connectionCount p - 1,
           connections := (if get_num m source = 0 then del_map source m else m)\<rparr>)"

text \<open>\<open>now\<close> is when the timer is armed. \<open>None\<close>: the connection was closed with
  error 0x515203 and gets no authorization.\<close>

definition connectionContext ::
  "time \<Rightarrow> string \<Rightarrow> accessPolicy \<Rightarrow> accessPolicy \<times> connectionAuthorization option" where
  "connectionContext now remote p =
     (case enter_source p (sourceHost remote) of
        None \<Rightarrow> (p, None)
      | Some p' \<Rightarrow>
          (p', Some (let a = \<lparr>authorizedUntil = zero_time, address = [], timer = None, attempts = 0,
                              timerGeneration = 0, has_conn = True\<rparr> in
               if Mode (config p) = ''groups'' then
                 a\<lparr>timerGeneration := timerGeneration a + 1,
                   timer := Some (now + 15 * second, timerGeneration a + 1)\<rparr>
               else a)))"

text \<open>The function that runs when the connection ends: it counts the source out and stops the timer.\<close>

definition connectionDone ::
  "string \<Rightarrow> accessPolicy \<Rightarrow> connectionAuthorization \<Rightarrow> accessPolicy \<times> connectionAuthorization" where
  "connectionDone remote p a = (leave_source p (sourceHost remote), a\<lparr>timer := None\<rparr>)"

text \<open>\<open>expire\<close> closes the connection (error 0x515202) when its generation is still the current one.\<close>

definition expire :: "64 word \<Rightarrow> connectionAuthorization \<Rightarrow> bool" where
  "expire generation a \<longleftrightarrow> timerGeneration a = generation"

section \<open>Authorization\<close>

text \<open>The request headers that are read, and the surroundings of one call: the clock at the first check, the
  redemption, and the clock when the timer is armed.\<close>

record auth_headers =
  RelayProof :: string
  RelayRenew :: string
  RelayTicket :: string

record 'k auth_env =
  ae_now :: time
  ae_redeem :: "'k redeem_env"
  ae_arm :: time

text \<open>Admitted with an account and the expiry header, or refused with the challenge header.\<close>

datatype auth_reply =
    Allow string "int option"
  | Deny reply "string option"

definition ticket_required :: string where
  "ticket_required = ''{\"type\":\"masque-ticket-required-v1\"}''"

definition authorize ::
  "'k lib \<Rightarrow> 'b bolt \<Rightarrow> 'k auth_env \<Rightarrow> auth_headers \<Rightarrow> accessPolicy
     \<Rightarrow> ('b, 'k) ticketAuthority option \<Rightarrow> connectionAuthorization option
     \<Rightarrow> ('b, 'k) ticketAuthority option \<times> connectionAuthorization option \<times> auth_reply" where
  "authorize lib B env hdr p tickets conn =
     (if Mode (config p) = ''public'' then (tickets, conn, Allow [] None)
      else case (conn, tickets) of
        (Some a, Some A) \<Rightarrow>
          if RelayProof hdr \<noteq> [] then (tickets, conn, Deny (accessError 403 ''RELAY_PROOF_INVALID'') None)
          else if ae_now env < authorizedUntil a \<and> RelayRenew hdr \<noteq> ''1'' then
            (tickets, conn, Allow (address a) (Some (unix_milli (authorizedUntil a))))
          else if RelayTicket hdr = [] then
            (tickets, conn, Deny (accessError 401 ''RELAY_AUTH_REQUIRED'') (Some ticket_required))
          else (let a1 = a\<lparr>attempts := attempts a + 1\<rparr> in
            if attempts a1 > 8 then
              (tickets, Some a1, Deny (accessError 429 ''RELAY_AUTH_RATE_LIMITED'') None)
            else (case redeem lib B p (ae_redeem env) (RelayTicket hdr) A of
                    (A', Inl _) \<Rightarrow> (Some A', Some a1, Deny (accessError 403 ''RELAY_PROOF_INVALID'') None)
                  | (A', Inr (ident, until)) \<Rightarrow>
                      let g = timerGeneration a1 + 1;
                          a2 = a1\<lparr>address := ''ticket:'' @ ident, authorizedUntil := until,
                                  timerGeneration := g, attempts := 0,
                                  timer := (if has_conn a1 then Some (max (ae_arm env) until, g) else None)\<rparr>
                      in (Some A', Some a2, Allow (address a2) (Some (unix_milli until)))))
      | _ \<Rightarrow> (tickets, conn, Deny (accessError 503 ''RELAY_AUTH_UNAVAILABLE'') None))"

section \<open>The counters are exact and bounded\<close>

definition conns_ok :: "accessPolicy \<Rightarrow> bool" where
  "conns_ok p \<longleftrightarrow> counters_ok (connectionCount p) (connections p)"

text \<open>Whatever else happens to the policy leaves the two counters alone.\<close>

definition same_conns :: "accessPolicy \<Rightarrow> accessPolicy \<Rightarrow> bool" where
  "same_conns p p' \<longleftrightarrow> connectionCount p' = connectionCount p \<and> connections p' = connections p"

lemma leave_source_ok:
  assumes "conns_ok p" and "0 < get_num (connections p) k"
  shows "conns_ok (leave_source p k)"
    and "get_num (connections (leave_source p k)) j = get_num (connections p) j - (if j = k then 1 else 0)"
proof -
  let ?m = "connections p"
  show "get_num (connections (leave_source p k)) j = get_num ?m j - (if j = k then 1 else 0)"
    by (simp add: leave_source_def Let_def)
  have wf: "wf_map ?m" using assms(1) by (simp add: conns_ok_def counters_ok_def)
  show "conns_ok (leave_source p k)"
  proof (cases "get_num ?m k = 1")
    case True
    have "wf_map (set_map k 0 ?m)" using wf by blast
    then have "sum_map (del_map k (set_map k 0 ?m)) = sum_map ?m - 1"
      using sum_del_map [of "set_map k 0 ?m" k] sum_set_map [OF wf, of k 0] True by simp
    moreover have "\<forall>(j, v) \<in> set (del_map k (set_map k 0 ?m)). 1 \<le> v"
      using assms(1) by (auto simp: conns_ok_def counters_ok_def dest!: set_del_mapD set_set_mapD)
    ultimately show ?thesis
      using True assms(1) wf by (auto simp: leave_source_def Let_def conns_ok_def counters_ok_def)
  next
    case False
    then show ?thesis
      using counters_dec [of "connectionCount p" ?m k] assms by (simp add: leave_source_def Let_def conns_ok_def)
  qed
qed

interpretation conn: admission enter_source leave_source same_conns connectionCount "\<lambda>p. get_num (connections p)"
  "\<lambda>p. 512" 32 conns_ok
proof
  fix p p' :: accessPolicy and k j :: string
  assume ok: "conns_ok p"
  show "enter_source p k = Some p' \<Longrightarrow> conns_ok p' \<and> (512 :: int) = 512"
    using counters_inc [of "connectionCount p" "connections p" k] ok
    by (auto simp: enter_source_def conns_ok_def split: if_splits)
  show "enter_source p k = Some p' \<Longrightarrow> connectionCount p < 512 \<and> get_num (connections p) k < 32"
    by (auto simp: enter_source_def split: if_splits)
  show "enter_source p k = Some p' \<Longrightarrow> connectionCount p' = connectionCount p + 1 \<and>
      get_num (connections p') j = get_num (connections p) j + (if j = k then 1 else 0)"
    by (auto simp: enter_source_def split: if_splits)
  show "0 < get_num (connections p) k \<Longrightarrow> conns_ok (leave_source p k) \<and> (512 :: int) = 512"
    using leave_source_ok(1) [OF ok] by simp
  show "0 < get_num (connections p) k \<Longrightarrow> connectionCount (leave_source p k) = connectionCount p - 1 \<and>
      get_num (connections (leave_source p k)) j = get_num (connections p) j - (if j = k then 1 else 0)"
    using leave_source_ok(2) [OF ok] by (simp add: leave_source_def Let_def)
  show "same_conns p p' \<Longrightarrow> conns_ok p' \<and> (512 :: int) = 512 \<and> connectionCount p' = connectionCount p \<and>
      get_num (connections p') j = get_num (connections p) j"
    using ok by (simp add: same_conns_def conns_ok_def)
qed

text \<open>C28: The relay holds at most 512 connections, at most 32 from one source, and counts them exactly: over
  any interleaving of connections coming and going with other work on the policy, the stored
  count equals the number of open connections, the entry of a source equals its number, and a source without
  connections has no entry.\<close>

theorem connections_bounded:
  assumes "newAccessPolicy parse hash c pn = Inr p0"
    and "crowd enter_source leave_source same_conns p0 p act"
  shows "connectionCount p = int (size act) \<and> size act \<le> 512
    \<and> get_num (connections p) src = int (count act src) \<and> count act src \<le> 32
    \<and> length (connections p) \<le> size act"
proof -
  have "connectionCount p0 = 0" "connections p0 = []"
    using assms(1) by (auto simp: newAccessPolicy_def split: sum.splits)
  then have start: "conn.exact p0 {#}" by (simp add: conn.exact_def conns_ok_def get_num_def)
  have exact: "conn.exact p act" using conn.crowd_exact [OF assms(2) start] by blast
  then have "int (length (connections p)) \<le> connectionCount p"
    by (metis conn.exact_def conns_ok_def counters_length)
  then show ?thesis
    using exact conn.crowd_bounded [OF assms(2) start, of src] by (simp add: conn.exact_def)
qed

theorem connections_bounded_witness:
  "connectionCount (demo_policy\<lparr>connectionCount := 1, connections := [(''10.0.0.1'', 1)]\<rparr>) = int (size {#''10.0.0.1''#})
   \<and> size {#''10.0.0.1''#} \<le> 512
   \<and> get_num (connections (demo_policy\<lparr>connectionCount := 1, connections := [(''10.0.0.1'', 1)]\<rparr>)) ''10.0.0.1''
     = int (count {#''10.0.0.1''#} ''10.0.0.1'')
   \<and> count {#''10.0.0.1''#} ''10.0.0.1'' \<le> 32
   \<and> length (connections (demo_policy\<lparr>connectionCount := 1, connections := [(''10.0.0.1'', 1)]\<rparr>)) \<le> size {#''10.0.0.1''#}"
proof (rule connections_bounded [OF demo_policy_new])
  have "enter_source demo_policy ''10.0.0.1'' = Some (demo_policy\<lparr>connectionCount := 1, connections := [(''10.0.0.1'', 1)]\<rparr>)"
    by (simp add: enter_source_def demo_policy_def get_num_def)
  then show "crowd enter_source leave_source same_conns demo_policy
      (demo_policy\<lparr>connectionCount := 1, connections := [(''10.0.0.1'', 1)]\<rparr>) {#''10.0.0.1''#}"
    by (rule crowd.admitted [where s = demo_policy and act = "{#}", OF crowd.start])
qed

section \<open>Authorization is sound\<close>

text \<open>C22: In groups mode a request is admitted only on a current authorization or a redeemed ticket.
  A request that carries an identity proof is never admitted. Either the authorization of the
  connection is still running, and nothing changes, or the ticket in the request was redeemed by
  this call, the account is the ticket, and the authorization runs until the deadline of the redemption.\<close>

theorem authorize_sound:
  assumes "Mode (config p) = ''groups''"
    and "authorize lib B env hdr p tickets conn = (tickets', conn', Allow account expires)"
  shows "RelayProof hdr = [] \<and> (\<exists>a A. conn = Some a \<and> tickets = Some A
    \<and> ((ae_now env < authorizedUntil a \<and> account = address a \<and> tickets' = tickets \<and> conn' = conn)
      \<or> (\<exists>A' a' ident until. redeem lib B p (ae_redeem env) (RelayTicket hdr) A = (A', Inr (ident, until))
          \<and> tickets' = Some A' \<and> conn' = Some a' \<and> account = ''ticket:'' @ ident \<and> address a' = account
          \<and> authorizedUntil a' = until \<and> attempts a < 8 \<and> attempts a' = 0)))"
  using assms
  by (auto simp: authorize_def accessError_def Let_def split: option.splits if_splits prod.splits sum.splits)

text \<open>Fail closed. In groups mode, without a ticket authority or without a connection record, or with an
  identity proof, the request is refused and nothing changes; and after eight tickets without success no further ticket
  of the connection reaches the authority until its running authorization, if any, covers the request.\<close>

theorem authorize_fails_closed:
  assumes "Mode (config p) = ''groups''"
    and "tickets = None \<or> conn = None \<or> RelayProof hdr \<noteq> [] \<or>
         (\<exists>a. conn = Some a \<and> 8 \<le> attempts a \<and> authorizedUntil a \<le> ae_now env)"
  shows "\<exists>conn' r ch. authorize lib B env hdr p tickets conn = (tickets, conn', Deny r ch)"
  using assms
  by (auto simp: authorize_def Let_def split: option.splits if_splits)

lemma demo_groups: "Mode (config demo_policy) = ''groups''"
  by (simp add: demo_policy_def demo_config_def)

definition demo_conn :: connectionAuthorization where
  "demo_conn = \<lparr>authorizedUntil = zero_time, address = [], timer = Some (15 * second, 1), attempts = 0,
     timerGeneration = 1, has_conn = True\<rparr>"

definition demo_auth_env :: "nat auth_env" where
  "demo_auth_env = \<lparr>ae_now = 100 * 3600 * second, ae_redeem = demo_redeem_env, ae_arm = 100 * 3600 * second + 5\<rparr>"

definition demo_hdr :: auth_headers where
  "demo_hdr = \<lparr>RelayProof = [], RelayRenew = [], RelayTicket = ''t''\<rparr>"

definition demo_authorized :: connectionAuthorization where
  "demo_authorized = \<lparr>authorizedUntil = 112 * 3600 * second + 3, address = ''ticket:'' @ ticket_id demo_lib demo_msg,
     timer = Some (112 * 3600 * second + 3, 2), attempts = 0, timerGeneration = 2, has_conn = True\<rparr>"

lemma demo_authorize:
  "authorize demo_lib rbt_bolt demo_auth_env demo_hdr demo_policy (Some demo_auth) (Some demo_conn)
   = (Some (demo_auth\<lparr>authdb := demo_db2, tkeys := [(100, 7)]\<rparr>), Some demo_authorized,
      Allow (''ticket:'' @ ticket_id demo_lib demo_msg) (Some 403200000))"
  using demo_redeem demo_groups
  by (simp add: authorize_def demo_auth_env_def demo_hdr_def demo_conn_def demo_authorized_def zero_time_def Let_def
      unix_milli_def)

theorem authorize_sound_witness:
  "RelayProof demo_hdr = [] \<and> (\<exists>A' ident until. redeem demo_lib rbt_bolt demo_policy (ae_redeem demo_auth_env)
     (RelayTicket demo_hdr) demo_auth = (A', Inr (ident, until)))"
  using authorize_sound [OF demo_groups demo_authorize] by (auto simp: demo_auth_env_def demo_conn_def zero_time_def)

theorem authorize_fails_closed_witness:
  "\<exists>conn' r ch. authorize demo_lib rbt_bolt demo_auth_env demo_hdr demo_policy (Some demo_auth)
     (Some (demo_conn\<lparr>attempts := 8\<rparr>)) = (Some demo_auth, conn', Deny r ch)"
  by (rule authorize_fails_closed [OF demo_groups]) (simp add: demo_conn_def zero_time_def demo_auth_env_def)

section \<open>The life of a connection\<close>

text \<open>
  The state of one connection in groups mode: its authorization, every timer that was ever armed, newest
  first, and whether one of them closed it. Any of the timers may run at any time.
\<close>

inductive conn_run :: "'k lib \<Rightarrow> 'b bolt \<Rightarrow> accessPolicy \<Rightarrow> connectionAuthorization \<times> (time \<times> 64 word) list \<times> bool \<Rightarrow> bool"
  for lib B p where
  accept: "connectionContext now remote q = (q', Some a) \<Longrightarrow> config q = config p \<Longrightarrow> timer a = Some t \<Longrightarrow>
    conn_run lib B p (a, [t], False)"
| keep: "conn_run lib B p (a, ts, cl) \<Longrightarrow> authorize lib B env hdr p tickets (Some a) = (tickets', Some a', r) \<Longrightarrow>
    timerGeneration a' = timerGeneration a \<Longrightarrow> conn_run lib B p (a', ts, cl)"
| rearm: "conn_run lib B p (a, ts, cl) \<Longrightarrow> authorize lib B env hdr p tickets (Some a) = (tickets', Some a', r) \<Longrightarrow>
    timerGeneration a' \<noteq> timerGeneration a \<Longrightarrow> timer a' = Some t \<Longrightarrow> conn_run lib B p (a', t # ts, cl)"
| fire: "conn_run lib B p (a, ts, cl) \<Longrightarrow> (t, g) \<in> set ts \<Longrightarrow> conn_run lib B p (a, ts, cl \<or> expire g a)"

lemma authorize_timer:
  assumes "authorize lib B env hdr p tickets (Some a) = (tickets', Some a', r)"
  shows "has_conn a' = has_conn a
    \<and> (timerGeneration a' = timerGeneration a \<and> timer a' = timer a \<and> authorizedUntil a' = authorizedUntil a
      \<or> timerGeneration a' = timerGeneration a + 1
        \<and> (has_conn a \<longrightarrow> timer a' = Some (max (ae_arm env) (authorizedUntil a'), timerGeneration a')))"
  using assms
  by (auto simp: authorize_def Let_def split: option.splits if_splits prod.splits sum.splits)

lemma word_next: "(w :: 64 word) + 1 \<noteq> w"
  by simp

definition timers_ok :: "connectionAuthorization \<Rightarrow> (time \<times> 64 word) list \<Rightarrow> bool" where
  "timers_ok a ts \<longleftrightarrow>
     has_conn a \<and> ts \<noteq> [] \<and> timer a = Some (hd ts) \<and> timerGeneration a = of_nat (length ts)
     \<and> map snd ts = rev (map of_nat [1..<Suc (length ts)]) \<and> (tl ts \<noteq> [] \<longrightarrow> authorizedUntil a \<le> fst (hd ts))"

lemma conn_run_timers:
  assumes "conn_run lib B p (a, ts, cl)"
  shows "timers_ok a ts"
  using assms
proof (induction "(a, ts, cl)" arbitrary: a ts cl rule: conn_run.induct)
  case (accept now remote q q' a t)
  then show ?case
    by (auto simp: connectionContext_def timers_ok_def Let_def split: option.splits if_splits)
next
  case (keep a ts cl env hdr tickets tickets' a' r)
  then show ?case using authorize_timer [OF keep.hyps(3)] by (auto simp: timers_ok_def)
next
  case (rearm a ts cl env hdr tickets tickets' a' r t)
  have "timerGeneration a' = timerGeneration a + 1"
    "timer a' = Some (max (ae_arm env) (authorizedUntil a'), timerGeneration a')" "has_conn a'"
    using authorize_timer [OF rearm.hyps(3)] rearm.hyps(2,4) by (auto simp: timers_ok_def)
  then show ?case using rearm.hyps(2,5) by (auto simp: timers_ok_def add.commute)
qed

lemma timer_generations:
  assumes "timers_ok a (t # ts)" and "(t', g) \<in> set ts" and "length ts < 2 ^ 64 - 1"
  shows "g \<noteq> timerGeneration a"
proof -
  have "map snd ts = rev (map of_nat [1..<Suc (length ts)])" using assms(1) by (simp add: timers_ok_def)
  moreover have "g \<in> set (map snd ts)" using assms(2) by force
  ultimately have "g \<in> of_nat ` set [1..<Suc (length ts)]" by (metis set_rev set_map)
  then obtain i where i: "g = of_nat i" "i < Suc (length ts)" by (auto simp del: upt_Suc)
  have "timerGeneration a = of_nat (Suc (length ts))" using assms(1) by (simp add: timers_ok_def)
  moreover have "(of_nat i :: 64 word) \<noteq> of_nat (Suc (length ts))"
  proof
    assume "(of_nat i :: 64 word) = of_nat (Suc (length ts))"
    then have "unat (of_nat i :: 64 word) = unat (of_nat (Suc (length ts)) :: 64 word)" by (rule arg_cong)
    then show False using i(2) assms(3) by (simp only: unat_of_nat) (simp add: take_bit_nat_eq_self)
  qed
  ultimately show ?thesis using i(1) by simp
qed

text \<open>C33: A renewal is never undone by an old timer: whatever timers of earlier authorizations still run
  after a renewal, they do not close the connection, as long as fewer than \<open>2 ^ 64 - 1\<close> renewals happened before.\<close>

theorem stale_timers_harmless:
  assumes "conn_run lib B p (a, t # ts, cl)" and "(t', g) \<in> set ts" and "length ts < 2 ^ 64 - 1"
  shows "\<not> expire g a"
  using timer_generations [OF conn_run_timers [OF assms(1)] assms(2,3)] by (simp add: expire_def)

text \<open>Expiry is always armed. At any moment of a connection in groups mode the newest timer is the one the
  authorization holds; it closes the connection when it runs, whatever requests are in flight; and once a
  ticket was redeemed it does not run before the authorization ends.\<close>

theorem expiry_armed:
  assumes "conn_run lib B p (a, ts, cl)"
  shows "\<exists>t g rest. ts = (t, g) # rest \<and> timer a = Some (t, g) \<and> expire g a
    \<and> (rest \<noteq> [] \<longrightarrow> authorizedUntil a \<le> t)"
proof -
  have ok: "timers_ok a ts" using conn_run_timers [OF assms] .
  then obtain t g rest where ts: "ts = (t, g) # rest" by (cases ts) (auto simp: timers_ok_def)
  have "g = of_nat (length ts)" using ok by (simp add: timers_ok_def ts)
  then show ?thesis using ok ts by (auto simp: timers_ok_def expire_def)
qed

text \<open>A redeemed ticket sets the timer to the end of the authorization (or to now when that has passed), under a
  fresh generation, and announces the same instant in the response.\<close>

theorem renewal_sets_timer:
  assumes "authorize lib B env hdr p tickets (Some a) = (tickets', Some a', Allow account expires)"
    and "has_conn a" and "timerGeneration a' \<noteq> timerGeneration a"
  shows "timerGeneration a' = timerGeneration a + 1 \<and> expires = Some (unix_milli (authorizedUntil a'))
    \<and> timer a' = Some (max (ae_arm env) (authorizedUntil a'), timerGeneration a')"
  using assms
  by (auto simp: authorize_def Let_def split: option.splits if_splits prod.splits sum.splits)

lemma demo_accept: "conn_run demo_lib rbt_bolt demo_policy (demo_conn, [(15 * second, 1)], False)"
proof (rule conn_run.accept)
  show "connectionContext 0 ''10.0.0.1:5'' demo_policy
      = (the (enter_source demo_policy (sourceHost ''10.0.0.1:5'')), Some demo_conn)"
    by (simp add: connectionContext_def enter_source_def demo_policy_def demo_config_def demo_conn_def get_num_def)
qed (simp_all add: demo_conn_def)

lemma demo_rearm:
  "conn_run demo_lib rbt_bolt demo_policy (demo_authorized, [(112 * 3600 * second + 3, 2), (15 * second, 1)], False)"
  by (rule conn_run.rearm [OF demo_accept demo_authorize]) (simp_all add: demo_conn_def demo_authorized_def)

theorem stale_timers_harmless_witness: "\<not> expire 1 demo_authorized"
  by (rule stale_timers_harmless [OF demo_rearm, of "15 * second"]) simp_all

theorem expiry_armed_witness:
  "\<exists>t g rest. [(112 * 3600 * second + 3, 2), (15 * second, 1)] = (t, g) # rest \<and> timer demo_authorized = Some (t, g)
   \<and> expire g demo_authorized \<and> authorizedUntil demo_authorized \<le> t"
  using expiry_armed [OF demo_rearm] by auto

theorem renewal_sets_timer_witness:
  "timer demo_authorized = Some (max (ae_arm demo_auth_env) (authorizedUntil demo_authorized), 2)"
proof -
  have "has_conn demo_conn" "timerGeneration demo_authorized \<noteq> timerGeneration demo_conn" "timerGeneration demo_authorized = 2"
    by (simp_all add: demo_conn_def demo_authorized_def)
  with renewal_sets_timer [OF demo_authorize] show ?thesis by simp
qed

end
