(* ===== verification/Datagram_Buffer.thy ===== *)
theory Datagram_Buffer
  imports Go_Std "HOL-Library.Sublist"
begin

text \<open>
  The receive buffers that the repository adds to its copy of quic-go: \<^verbatim>\<open>third_party/quic-go/internal/datagrambuffer/buffer.go\<close>. A queue is a ring that
  grows on demand, with limits on packets, bytes and age; all queues of the process draw on one budget.

  Callers serialise the access to one queue, but the counters of the process are shared and atomic. An operation on a queue is therefore a
  function of the queue and of the answers of \<^verbatim>\<open>reserve\<close>, and yields the list of its accesses to the shared counters, in order. The theory \<open>Datagram_Pool\<close> interleaves
  the accesses of all queues. \<open>None\<close> is a run-time panic (an index out of range, a division by zero). The results here are that a queue never
  panics and that the ring is a first-in-first-out list.
\<close>

section \<open>Statistics and the shared budget\<close>

record buffer_stats =
  QueuedBytes :: int
  PeakBytes :: int
  DroppedFull :: "64 word"
  DroppedBudget :: "64 word"
  DroppedExpired :: "64 word"
  MaxResidenceMicros :: "64 word"
  RawPacketDrops :: "64 word"

definition zero_stats :: buffer_stats where
  "zero_stats = \<lparr>QueuedBytes = 0, PeakBytes = 0, DroppedFull = 0, DroppedBudget = 0, DroppedExpired = 0, MaxResidenceMicros = 0,
     RawPacketDrops = 0\<rparr>"

abbreviation GlobalLimit :: int where
  "GlobalLimit \<equiv> 33554432"

abbreviation packetOverhead :: int where
  "packetOverhead \<equiv> 64"

abbreviation BurstPackets :: nat where
  "BurstPackets \<equiv> 1024"

abbreviation BurstBytes :: int where
  "BurstBytes \<equiv> 1048576"

abbreviation BurstAge :: duration where
  "BurstAge \<equiv> 50 * millisecond"

text \<open>The accesses to the shared counters: a call of \<^verbatim>\<open>reserve\<close> with its answer, a subtraction from \<^verbatim>\<open>used\<close>, an increment of a drop counter,
  and the part of a granted \<^verbatim>\<open>reserve\<close> that lifts \<^verbatim>\<open>peak\<close> to a value of \<^verbatim>\<open>used\<close>.\<close>

datatype drop_kind = Full | Budget | Expired

datatype access = Reserve int bool | Release int | Drop drop_kind | Raise int

section \<open>Queues\<close>

record entry =
  e_data :: "byte list"
  e_at :: time

definition zero_entry :: entry where
  "zero_entry = \<lparr>e_data = [], e_at = zero_time\<rparr>"

record Queue =
  q_items :: "entry list"
  q_head :: nat
  q_count :: nat
  q_bytes :: int
  q_ringCharge :: int
  q_limit :: nat
  q_maxAge :: duration
  q_closed :: bool
  q_stats :: buffer_stats

definition New :: "nat \<Rightarrow> Queue" where
  "New lim = \<lparr>q_items = [], q_head = 0, q_count = 0, q_bytes = 0, q_ringCharge = 0, q_limit = lim, q_maxAge = 0, q_closed = False,
     q_stats = zero_stats\<rparr>"

definition EnableBurst :: "Queue \<Rightarrow> Queue" where
  "EnableBurst q = q\<lparr>q_limit := BurstPackets, q_maxAge := BurstAge\<rparr>"

definition charge_of :: "byte list \<Rightarrow> int" where
  "charge_of bs = int (length bs) + packetOverhead"

definition count_drop :: "drop_kind \<Rightarrow> Queue \<Rightarrow> Queue" where
  "count_drop k q =
     (let st = q_stats q in
      q\<lparr>q_stats := (case k of
          Full \<Rightarrow> st\<lparr>DroppedFull := DroppedFull st + 1\<rparr>
        | Budget \<Rightarrow> st\<lparr>DroppedBudget := DroppedBudget st + 1\<rparr>
        | Expired \<Rightarrow> st\<lparr>DroppedExpired := DroppedExpired st + 1\<rparr>)\<rparr>)"

definition note_age :: "duration \<Rightarrow> Queue \<Rightarrow> Queue" where
  "note_age age q =
     (if age > 0
      then q\<lparr>q_stats := (q_stats q)\<lparr>MaxResidenceMicros := max (MaxResidenceMicros (q_stats q)) (of_int (go_quot age microsecond))\<rparr>\<rparr>
      else q)"

lemma note_age_fields [simp]:
  "q_items (note_age a q) = q_items q" "q_head (note_age a q) = q_head q" "q_count (note_age a q) = q_count q"
  "q_bytes (note_age a q) = q_bytes q" "q_ringCharge (note_age a q) = q_ringCharge q" "q_limit (note_age a q) = q_limit q"
  "q_maxAge (note_age a q) = q_maxAge q" "q_closed (note_age a q) = q_closed q"
  by (simp_all add: note_age_def)

definition remove_entry :: "time \<Rightarrow> Queue \<Rightarrow> (Queue \<times> byte list \<times> access list) option" where
  "remove_entry now q =
     (if length (q_items q) \<le> q_head q then None
      else
        let e = q_items q ! q_head q;
            charge = charge_of (e_data e);
            q1 = q\<lparr>q_items := (q_items q)[q_head q := zero_entry],
                   q_head := (q_head q + 1) mod length (q_items q),
                   q_count := q_count q - 1,
                   q_bytes := q_bytes q - charge\<rparr>;
            big = (q_count q1 = 0 \<and> length (q_items q1) > 32);
            q2 = (if big then q1\<lparr>q_ringCharge := 0, q_items := [], q_head := 0\<rparr> else q1)
        in Some (note_age (now - e_at e) q2, e_data e, Release charge # (if big then [Release (q_ringCharge q1)] else [])))"

text \<open>The loop of \<^verbatim>\<open>expire\<close>.\<close>

definition stale :: "time \<Rightarrow> Queue \<Rightarrow> bool" where
  "stale now q \<longleftrightarrow> now - e_at (q_items q ! q_head q) > q_maxAge q"

function expire_queue :: "time \<Rightarrow> Queue \<Rightarrow> (Queue \<times> access list) option" where
  "expire_queue now q =
     (if q_count q > 0 \<and> q_maxAge q > 0 then
        if length (q_items q) \<le> q_head q then None
        else if stale now q then
          (case remove_entry now q of
             None \<Rightarrow> None
           | Some (q1, _, acts) \<Rightarrow>
               (case expire_queue now (count_drop Expired q1) of
                  None \<Rightarrow> None
                | Some (q2, acts2) \<Rightarrow> Some (q2, acts @ Drop Expired # acts2)))
        else Some (q, [])
      else Some (q, []))"
  by pat_completeness auto
termination
  by (relation "measure (\<lambda>(now, q). q_count q)")
    (auto simp: remove_entry_def count_drop_def Let_def split: if_splits drop_kind.splits)

declare expire_queue.simps [simp del]

text \<open>The growth of a full ring: the entries in order at the front of a larger one.\<close>

definition grown :: "Queue \<Rightarrow> nat" where
  "grown q = min (q_limit q) (max 8 (length (q_items q) * 2))"

definition grow :: "Queue \<Rightarrow> Queue option" where
  "grow q =
     (let n = grown q in
      if n < q_count q then None
      else Some (q\<lparr>q_items := map (\<lambda>i. q_items q ! ((q_head q + i) mod length (q_items q))) [0..<q_count q]
                              @ replicate (n - q_count q) zero_entry,
                   q_ringCharge := int n * 64, q_head := 0\<rparr>))"

definition place :: "byte list \<Rightarrow> time \<Rightarrow> Queue \<Rightarrow> Queue option" where
  "place bs now q =
     (if q_items q = [] then None
      else
        let q1 = q\<lparr>q_items := (q_items q)[(q_head q + q_count q) mod length (q_items q) := \<lparr>e_data = bs, e_at = now\<rparr>],
                   q_count := q_count q + 1,
                   q_bytes := q_bytes q + charge_of bs\<rparr>
        in Some (q1\<lparr>q_stats := (q_stats q1)\<lparr>PeakBytes := max (PeakBytes (q_stats q1)) (q_bytes q1 + q_ringCharge q1)\<rparr>\<rparr>))"

text \<open>\<open>a1\<close> and \<open>a2\<close> are the answers of \<^verbatim>\<open>reserve\<close> for the packet and for a larger ring.\<close>

definition Push :: "bool \<Rightarrow> bool \<Rightarrow> byte list \<Rightarrow> time \<Rightarrow> Queue \<Rightarrow> (Queue \<times> bool \<times> access list) option" where
  "Push a1 a2 bs now q0 =
     (if q_closed q0 then Some (q0, False, [])
      else (case expire_queue now q0 of
        None \<Rightarrow> None
      | Some (q, acts) \<Rightarrow>
          let charge = charge_of bs in
          if q_count q \<ge> q_limit q \<or> q_bytes q + charge > BurstBytes
          then Some (count_drop Full q, False, acts @ [Drop Full])
          else if \<not> a1 then Some (count_drop Budget q, False, acts @ [Reserve charge False, Drop Budget])
          else if q_count q = length (q_items q) then
            if \<not> a2
            then Some (count_drop Budget q, False,
                   acts @ [Reserve charge True, Reserve (int (grown q) * 64) False, Release charge, Drop Budget])
            else (case grow q of
                None \<Rightarrow> None
              | Some q1 \<Rightarrow> map_option (\<lambda>q2. (q2, True,
                    acts @ [Reserve charge True, Reserve (int (grown q) * 64) True, Release (q_ringCharge q)])) (place bs now q1))
          else map_option (\<lambda>q2. (q2, True, acts @ [Reserve charge True])) (place bs now q)))"

definition Pop :: "time \<Rightarrow> Queue \<Rightarrow> (Queue \<times> byte list option \<times> access list) option" where
  "Pop now q0 =
     (case expire_queue now q0 of
        None \<Rightarrow> None
      | Some (q, acts) \<Rightarrow>
          if q_count q = 0 then Some (q, None, acts)
          else (case remove_entry now q of
                  None \<Rightarrow> None
                | Some (q1, bs, acts2) \<Rightarrow> Some (q1, Some bs, acts @ acts2)))"

definition Close_queue :: "Queue \<Rightarrow> Queue \<times> access list" where
  "Close_queue q =
     (if q_closed q then (q, [])
      else (q\<lparr>q_closed := True, q_ringCharge := 0, q_items := [], q_count := 0, q_bytes := 0, q_head := 0\<rparr>,
            [Release (q_bytes q + q_ringCharge q)]))"

definition Queue_Stats :: "Queue \<Rightarrow> buffer_stats" where
  "Queue_Stats q = (q_stats q)\<lparr>QueuedBytes := q_bytes q + q_ringCharge q\<rparr>"

section \<open>The list a ring stands for\<close>

definition contents :: "Queue \<Rightarrow> entry list" where
  "contents q = map (\<lambda>i. q_items q ! ((q_head q + i) mod length (q_items q))) [0..<q_count q]"

definition total_charge :: "entry list \<Rightarrow> int" where
  "total_charge es = sum_list (map (\<lambda>e. charge_of (e_data e)) es)"

definition wf_queue :: "Queue \<Rightarrow> bool" where
  "wf_queue q \<longleftrightarrow> q_count q \<le> length (q_items q) \<and> (q_head q = 0 \<or> q_head q < length (q_items q))
     \<and> q_bytes q = total_charge (contents q) \<and> q_bytes q \<le> BurstBytes \<and> q_ringCharge q = int (length (q_items q)) * 64
     \<and> length (q_items q) \<le> q_limit q \<and> q_limit q \<le> BurstPackets \<and> (q_closed q \<longrightarrow> q_items q = [])"

lemma total_charge_simps [simp]:
  "total_charge [] = 0" "total_charge (e # es) = charge_of (e_data e) + total_charge es"
  "total_charge (es @ fs) = total_charge es + total_charge fs"
  by (simp_all add: total_charge_def)

lemma charge_pos: "0 < charge_of bs"
  by (simp add: charge_of_def)

lemma total_charge_nonneg: "0 \<le> total_charge es"
  by (induction es) (auto simp: charge_of_def)

lemma total_charge_dropWhile: "total_charge (dropWhile P es) \<le> total_charge es"
  by (induction es) (auto simp: charge_of_def)

lemma length_contents [simp]: "length (contents q) = q_count q"
  by (simp add: contents_def)

lemma contents_empty [simp]: "q_count q = 0 \<Longrightarrow> contents q = []"
  by (simp add: contents_def)

text \<open>Positions in the ring.\<close>

lemma wrap: "(h :: nat) < n \<Longrightarrow> i < n \<Longrightarrow> (h + i) mod n = (if h + i < n then h + i else h + i - n)"
  by (simp add: mod_if)

lemma wrap_inject: "(h :: nat) < n \<Longrightarrow> i < n \<Longrightarrow> j < n \<Longrightarrow> (h + i) mod n = (h + j) mod n \<longleftrightarrow> i = j"
  by (auto simp: wrap split: if_splits)

lemma contents_stats [simp]:
  "contents (count_drop k q) = contents q" "contents (q\<lparr>q_stats := st\<rparr>) = contents q" "contents (q\<lparr>q_bytes := b\<rparr>) = contents q"
  by (simp_all add: contents_def count_drop_def Let_def)

lemma wf_count_drop [simp]: "wf_queue (count_drop k q) \<longleftrightarrow> wf_queue q"
  by (simp add: wf_queue_def contents_def count_drop_def Let_def)

lemma contents_remove:
  assumes "0 < q_count q" "q_count q \<le> length (q_items q)" "q_head q < length (q_items q)"
  shows "contents q = q_items q ! q_head q
     # contents (q\<lparr>q_items := (q_items q)[q_head q := z], q_head := (q_head q + 1) mod length (q_items q), q_count := q_count q - 1\<rparr>)"
proof -
  let ?n = "length (q_items q)" and ?h = "q_head q"
  obtain k where k: "q_count q = Suc k" using assms(1) by (cases "q_count q") auto
  have "(q_items q)[?h := z] ! (((?h + 1) mod ?n + i) mod ?n) = q_items q ! ((?h + Suc i) mod ?n)" if "i < k" for i
  proof -
    have "Suc i < ?n" using that k assms(2) by simp
    then have "(?h + Suc i) mod ?n \<noteq> (?h + 0) mod ?n" using wrap_inject [OF assms(3)] assms(3) by (metis nat.distinct(1) less_nat_zero_code neq0_conv)
    then have "(?h + Suc i) mod ?n \<noteq> ?h" using assms(3) by simp
    moreover have "((?h + 1) mod ?n + i) mod ?n = (?h + Suc i) mod ?n" by (simp add: mod_simps)
    ultimately show ?thesis by simp
  qed
  then show ?thesis using assms(3) by (simp add: contents_def k upt_conv_Cons map_Suc_upt [symmetric] del: upt_Suc)
qed

lemma contents_place:
  assumes "q_count q < length (q_items q)" "q_head q < length (q_items q)"
  shows "contents (q\<lparr>q_items := (q_items q)[(q_head q + q_count q) mod length (q_items q) := e], q_count := q_count q + 1\<rparr>) = contents q @ [e]"
proof -
  let ?n = "length (q_items q)" and ?h = "q_head q" and ?c = "q_count q"
  have n: "0 < ?n" using assms(1) by linarith
  have "(q_items q)[(?h + ?c) mod ?n := e] ! ((?h + i) mod ?n) = q_items q ! ((?h + i) mod ?n)" if "i < ?c" for i
    using wrap_inject [OF assms(2), of "?c" i] that assms(1) by (simp add: nth_list_update)
  then show ?thesis using n by (simp add: contents_def)
qed

lemma contents_ring: "length ring = k \<Longrightarrow> contents (q\<lparr>q_items := ring @ zs, q_head := 0, q_count := k\<rparr>) = ring"
proof -
  assume k: "length ring = k"
  have "(ring @ zs) ! (i mod (k + length zs)) = ring ! i" if "i < k" for i using that k by (simp add: nth_append)
  then have "contents (q\<lparr>q_items := ring @ zs, q_head := 0, q_count := k\<rparr>) = map (\<lambda>i. ring ! i) [0..<k]"
    using k by (simp add: contents_def)
  then show ?thesis using k map_nth [of ring] by simp
qed

section \<open>The books of a queue\<close>

text \<open>What a queue has reserved, what an access changes of it, and that no moment between the accesses finds it below zero.\<close>

definition held :: "Queue \<Rightarrow> int" where
  "held q = q_bytes q + q_ringCharge q"

fun delta :: "access \<Rightarrow> int" where
  "delta (Reserve c granted) = (if granted then c else 0)"
| "delta (Release c) = - c"
| "delta _ = 0"

fun ledger_ok :: "int \<Rightarrow> access list \<Rightarrow> bool" where
  "ledger_ok h [] = (0 \<le> h)"
| "ledger_ok h (a # as) = (0 \<le> h \<and> ledger_ok (h + delta a) as)"

definition net :: "access list \<Rightarrow> int" where
  "net as = sum_list (map delta as)"

definition dropped :: "drop_kind \<Rightarrow> Queue \<Rightarrow> 64 word" where
  "dropped k q = (case k of Full \<Rightarrow> DroppedFull (q_stats q) | Budget \<Rightarrow> DroppedBudget (q_stats q) | Expired \<Rightarrow> DroppedExpired (q_stats q))"

definition drops :: "drop_kind \<Rightarrow> access list \<Rightarrow> 64 word" where
  "drops k as = of_nat (length (filter (\<lambda>a. a = Drop k) as))"

lemma net_simps [simp]: "net [] = 0" "net (a # as) = delta a + net as" "net (as @ bs) = net as + net bs"
  by (simp_all add: net_def)

lemma drops_simps [simp]:
  "drops k [] = 0" "drops k (a # as) = (if a = Drop k then 1 else 0) + drops k as" "drops k (as @ bs) = drops k as + drops k bs"
  by (simp_all add: drops_def)

lemma ledger_ok_append: "ledger_ok h (as @ bs) \<longleftrightarrow> ledger_ok h as \<and> ledger_ok (h + net as) bs"
proof (induction as arbitrary: h)
  case Nil
  then show ?case by (cases bs) auto
qed (simp add: add.assoc)

lemma dropped_count_drop [simp]: "dropped k (count_drop j q) = dropped k q + (if k = j then 1 else 0)"
  by (cases k; cases j) (simp_all add: dropped_def count_drop_def Let_def)

lemma dropped_note_age [simp]: "dropped k (note_age a q) = dropped k q"
  by (simp add: dropped_def note_age_def split: drop_kind.splits)

lemma dropped_update [simp]:
  "dropped k (q\<lparr>q_items := i\<rparr>) = dropped k q" "dropped k (q\<lparr>q_head := h\<rparr>) = dropped k q" "dropped k (q\<lparr>q_count := c\<rparr>) = dropped k q"
  "dropped k (q\<lparr>q_bytes := b\<rparr>) = dropped k q" "dropped k (q\<lparr>q_ringCharge := r\<rparr>) = dropped k q"
  by (simp_all add: dropped_def split: drop_kind.splits)

lemma held_count_drop [simp]: "held (count_drop k q) = held q"
  by (simp add: held_def count_drop_def Let_def)

text \<open>An operation releases no negative amount and leaves lifting the peak to \<^verbatim>\<open>reserve\<close>.\<close>

fun fair :: "access \<Rightarrow> bool" where
  "fair (Release c) = (0 \<le> c)"
| "fair (Raise v) = False"
| "fair _ = True"

definition books :: "Queue \<Rightarrow> access list \<Rightarrow> Queue \<Rightarrow> bool" where
  "books q as q' \<longleftrightarrow> held q' = held q + net as \<and> ledger_ok (held q) as \<and> (\<forall>k. dropped k q' = dropped k q + drops k as)
     \<and> list_all fair as"

lemma books_trans: "books q as q1 \<Longrightarrow> books q1 bs q2 \<Longrightarrow> books q (as @ bs) q2"
  by (simp add: books_def ledger_ok_append)

lemma wf_held: "wf_queue q \<Longrightarrow> 0 \<le> held q"
  using total_charge_nonneg by (simp add: wf_queue_def held_def)

lemma wf_head: "wf_queue q \<Longrightarrow> 0 < q_count q \<Longrightarrow> q_head q < length (q_items q)"
  by (auto simp: wf_queue_def)

text \<open>Whatever does not change when an entry leaves.\<close>

definition same_profile :: "Queue \<Rightarrow> Queue \<Rightarrow> bool" where
  "same_profile q q' \<longleftrightarrow> q_limit q' = q_limit q \<and> q_maxAge q' = q_maxAge q \<and> q_closed q' = q_closed q"

definition last_of_big :: "Queue \<Rightarrow> bool" where
  "last_of_big q \<longleftrightarrow> q_count q = 1 \<and> length (q_items q) > 32"

lemma remove_fields:
  assumes "remove_entry now q = Some (q', bs, as)" and "0 < q_count q"
  shows "q_items q' = (if last_of_big q then [] else (q_items q)[q_head q := zero_entry])"
    and "q_head q' = (if last_of_big q then 0 else (q_head q + 1) mod length (q_items q))"
    and "q_count q' = q_count q - 1" and "q_bytes q' = q_bytes q - charge_of bs"
    and "q_ringCharge q' = (if last_of_big q then 0 else q_ringCharge q)"
    and "same_profile q q'" and "dropped k q' = dropped k q" and "bs = e_data (q_items q ! q_head q)"
    and "as = Release (charge_of bs) # (if last_of_big q then [Release (q_ringCharge q)] else [])"
proof -
  let ?e = "q_items q ! q_head q"
  let ?q1 = "q\<lparr>q_items := (q_items q)[q_head q := zero_entry], q_head := (q_head q + 1) mod length (q_items q),
    q_count := q_count q - 1, q_bytes := q_bytes q - charge_of (e_data ?e)\<rparr>"
  have c: "q_count ?q1 = 0 \<and> length (q_items ?q1) > 32 \<longleftrightarrow> last_of_big q" using assms(2) by (auto simp: last_of_big_def)
  have r: "q' = note_age (now - e_at ?e) (if last_of_big q then ?q1\<lparr>q_ringCharge := 0, q_items := [], q_head := 0\<rparr> else ?q1)"
    "bs = e_data ?e" "as = Release (charge_of (e_data ?e)) # (if last_of_big q then [Release (q_ringCharge q)] else [])"
    using assms(1) unfolding remove_entry_def Let_def c by (auto split: if_splits)
  then show "q_items q' = (if last_of_big q then [] else (q_items q)[q_head q := zero_entry])"
    "q_head q' = (if last_of_big q then 0 else (q_head q + 1) mod length (q_items q))"
    "q_count q' = q_count q - 1" "q_bytes q' = q_bytes q - charge_of bs"
    "q_ringCharge q' = (if last_of_big q then 0 else q_ringCharge q)"
    "same_profile q q'" "dropped k q' = dropped k q" "bs = e_data ?e"
    "as = Release (charge_of bs) # (if last_of_big q then [Release (q_ringCharge q)] else [])"
    by (simp_all add: same_profile_def)
qed

lemma remove_ok:
  assumes wf: "wf_queue q" and some: "0 < q_count q"
  obtains q' e as where "remove_entry now q = Some (q', e_data e, as)" "contents q = e # contents q'" "wf_queue q'" "books q as q'"
    "same_profile q q'" "e = q_items q ! q_head q"
proof -
  let ?n = "length (q_items q)"
  let ?e = "q_items q ! q_head q"
  let ?q0 = "q\<lparr>q_items := (q_items q)[q_head q := zero_entry], q_head := (q_head q + 1) mod ?n, q_count := q_count q - 1\<rparr>"
  have h: "q_head q < ?n" by (rule wf_head [OF wf some])
  have n: "0 < ?n" using h by linarith
  note w = wf [unfolded wf_queue_def]
  have cs: "contents q = ?e # contents ?q0"
    using contents_remove [OF some _ h, of zero_entry] w by simp
  obtain q' as where r: "remove_entry now q = Some (q', e_data ?e, as)" using h by (auto simp: remove_entry_def Let_def)
  note f = remove_fields [OF r some]
  have c: "contents q' = contents ?q0"
    using some by (cases "last_of_big q") (auto simp: contents_def f(1-3) last_of_big_def)
  have pos: "0 \<le> total_charge (contents q')" "0 < charge_of (e_data ?e)" by (rule total_charge_nonneg charge_pos)+
  have b: "q_bytes q' = total_charge (contents q')" using w cs by (simp add: f(4) c)
  have last: "last_of_big q \<Longrightarrow> q_bytes q' = 0" using b by (simp add: contents_def f(3) last_of_big_def)
  have "wf_queue q'"
    using w b pos n some f(6) by (auto simp: wf_queue_def f(1-3,5) f(4) last_of_big_def same_profile_def)
  moreover have "books q as q'"
    using w pos last b cs f(7) by (auto simp: books_def held_def f(4,5,9) c)
  ultimately show thesis using that [OF r] cs c f(6) by simp
qed

section \<open>Operations on the list\<close>

text \<open>What the expiry leaves.\<close>

definition fresh :: "time \<Rightarrow> Queue \<Rightarrow> entry list" where
  "fresh now q = (if q_maxAge q > 0 then dropWhile (\<lambda>e. now - e_at e > q_maxAge q) (contents q) else contents q)"

lemma same_profile_drop [simp]: "same_profile q (count_drop k q') \<longleftrightarrow> same_profile q q'"
  by (simp add: same_profile_def count_drop_def Let_def)

lemma same_profile_trans: "same_profile q q1 \<Longrightarrow> same_profile q1 q2 \<Longrightarrow> same_profile q q2"
  by (simp add: same_profile_def)

lemma books_drop: "books q as q1 \<Longrightarrow> wf_queue q1 \<Longrightarrow> books q (as @ [Drop k]) (count_drop k q1)"
  by (auto simp: books_def ledger_ok_append dest: wf_held)

lemma books_refl: "wf_queue q \<Longrightarrow> books q [] q"
  by (simp add: books_def wf_held)

lemma expire_ok:
  "wf_queue q \<Longrightarrow> \<exists>q' as. expire_queue now q = Some (q', as) \<and> contents q' = fresh now q \<and> wf_queue q' \<and> books q as q' \<and> same_profile q q'"
proof (induction now q rule: expire_queue.induct)
  case (1 now q)
  show ?case
  proof (cases "0 < q_count q \<and> 0 < q_maxAge q")
    case False
    then show ?thesis using 1(2) by (auto simp: expire_queue.simps [of now q] fresh_def books_refl same_profile_def)
  next
    case True
    obtain q1 e as where r: "remove_entry now q = Some (q1, e_data e, as)" "contents q = e # contents q1" "wf_queue q1" "books q as q1"
      "same_profile q q1" "e = q_items q ! q_head q" using True by (metis remove_ok [OF 1(2)])
    have h: "\<not> length (q_items q) \<le> q_head q" using wf_head [OF 1(2)] True by simp
    show ?thesis
    proof (cases "stale now q")
      case False
      then show ?thesis using True h r(2,6) 1(2)
        by (auto simp: expire_queue.simps [of now q] stale_def fresh_def books_refl same_profile_def)
    next
      case st: True
      from 1(1) [OF True h st r(1) refl refl] r(3) obtain q2 as2 where e: "expire_queue now (count_drop Expired q1) = Some (q2, as2)"
        "contents q2 = fresh now (count_drop Expired q1)" "wf_queue q2" "books (count_drop Expired q1) as2 q2"
        "same_profile (count_drop Expired q1) q2" by auto
      have "books q (as @ Drop Expired # as2) q2"
        using books_trans [OF books_drop [OF r(4,3)] e(4)] by simp
      moreover have "contents q2 = fresh now q"
        using e(2) r(2,5,6) st True by (simp add: fresh_def stale_def same_profile_def count_drop_def Let_def contents_def)
      moreover have "same_profile q q2" using e(5) r(5) by (simp add: same_profile_def count_drop_def Let_def)
      ultimately show ?thesis using True h st r(1) e(1,3) by (simp add: expire_queue.simps [of now q])
    qed
  qed
qed

lemma grow_ok:
  assumes wf: "wf_queue q" and c: "q_count q = length (q_items q)" "q_count q < q_limit q"
  obtains q' where "grow q = Some q'" "contents q' = contents q" "q_count q' = q_count q" "q_bytes q' = q_bytes q" "same_profile q q'"
    "q_head q' = 0" "length (q_items q') = grown q" "q_ringCharge q' = int (grown q) * 64" "q_count q < grown q" "q_stats q' = q_stats q"
proof -
  have g: "q_count q < grown q" using c by (auto simp: grown_def)
  let ?q = "q\<lparr>q_items := contents q @ replicate (grown q - q_count q) zero_entry, q_ringCharge := int (grown q) * 64, q_head := 0\<rparr>"
  have "grow q = Some ?q" using g by (simp add: grow_def contents_def Let_def)
  moreover have "contents ?q = contents q"
    using contents_ring [where ring = "contents q" and q = "q\<lparr>q_ringCharge := int (grown q) * 64\<rparr>"] by (simp add: contents_def)
  ultimately show thesis using g by (intro that [of ?q]) (simp_all add: same_profile_def)
qed

lemma place_ok:
  assumes "q_count q < length (q_items q)" "q_head q < length (q_items q)"
  obtains q' where "place bs now q = Some q'" "contents q' = contents q @ [\<lparr>e_data = bs, e_at = now\<rparr>]" "q_count q' = q_count q + 1"
    "q_bytes q' = q_bytes q + charge_of bs" "same_profile q q'" "q_head q' = q_head q" "length (q_items q') = length (q_items q)"
    "q_ringCharge q' = q_ringCharge q" "\<forall>k. dropped k q' = dropped k q"
proof -
  have ne: "q_items q \<noteq> []" using assms(1) by auto
  obtain q' where p: "place bs now q = Some q'" using ne by (simp add: place_def Let_def)
  have "contents q' = contents q @ [\<lparr>e_data = bs, e_at = now\<rparr>]"
    using p ne contents_place [OF assms, of "\<lparr>e_data = bs, e_at = now\<rparr>"] by (auto simp: place_def Let_def contents_def)
  then show thesis
    using p ne by (intro that [of q']) (auto simp: place_def Let_def same_profile_def dropped_def split: drop_kind.splits)
qed

text \<open>The abstract queue has room for another packet.\<close>

definition room :: "time \<Rightarrow> byte list \<Rightarrow> Queue \<Rightarrow> bool" where
  "room now bs q \<longleftrightarrow> \<not> q_closed q \<and> length (fresh now q) < q_limit q \<and> total_charge (fresh now q) + charge_of bs \<le> BurstBytes"

lemma wf_closed: "wf_queue q \<Longrightarrow> q_closed q \<Longrightarrow> contents q = []"
  by (auto simp: wf_queue_def intro: contents_empty)

lemma place_wf:
  assumes wf: "wf_queue q" and as: "books q0 as q" and "q_count q < length (q_items q)" and "q_bytes q + charge_of bs \<le> BurstBytes" and "\<not> q_closed q"
  obtains q' where "place bs now q = Some q'" "contents q' = contents q @ [\<lparr>e_data = bs, e_at = now\<rparr>]" "wf_queue q'" "same_profile q q'"
    "books q0 (as @ [Reserve (charge_of bs) True]) q'"
proof -
  note w = wf [unfolded wf_queue_def]
  have h: "q_head q < length (q_items q)" using w assms(3) by auto
  obtain q' where p: "place bs now q = Some q'" "contents q' = contents q @ [\<lparr>e_data = bs, e_at = now\<rparr>]" "q_count q' = q_count q + 1"
    "q_bytes q' = q_bytes q + charge_of bs" "same_profile q q'" "q_head q' = q_head q" "length (q_items q') = length (q_items q)"
    "q_ringCharge q' = q_ringCharge q" "\<forall>k. dropped k q' = dropped k q" using place_ok [OF assms(3) h] .
  have "wf_queue q'" using w p(2-8) assms(3-5) h by (auto simp: wf_queue_def same_profile_def)
  moreover have "books q0 (as @ [Reserve (charge_of bs) True]) q'"
    using as p(4,8,9) wf_held [OF wf] charge_pos [of bs] by (auto simp: books_def ledger_ok_append held_def)
  ultimately show thesis using that p(1,2,5) by blast
qed

text \<open>A full ring is replaced by a larger one before the packet is placed.\<close>

lemma grow_place_wf:
  assumes wf: "wf_queue q" and as: "books q0 as q" and full: "q_count q = length (q_items q)" "q_count q < q_limit q"
    and b: "q_bytes q + charge_of bs \<le> BurstBytes" and op: "\<not> q_closed q"
  obtains q1 q' where "grow q = Some q1" "place bs now q1 = Some q'" "contents q' = contents q @ [\<lparr>e_data = bs, e_at = now\<rparr>]" "wf_queue q'"
    "same_profile q q'" "books q0 (as @ [Reserve (charge_of bs) True, Reserve (int (grown q) * 64) True, Release (q_ringCharge q)]) q'"
proof -
  note w = wf [unfolded wf_queue_def] and h = wf_held [OF wf] and pos = charge_pos [of bs] total_charge_nonneg [of "contents q"]
  obtain q1 where g: "grow q = Some q1" "contents q1 = contents q" "q_count q1 = q_count q" "q_bytes q1 = q_bytes q" "same_profile q q1"
    "q_head q1 = 0" "length (q_items q1) = grown q" "q_ringCharge q1 = int (grown q) * 64" "q_count q < grown q" "q_stats q1 = q_stats q"
    using grow_ok [OF wf full] .
  have "grown q \<le> q_limit q" by (simp add: grown_def)
  then have wf1: "wf_queue q1" using w g op by (auto simp: wf_queue_def same_profile_def)
  have bk: "books q0 (as @ [Reserve (int (grown q) * 64) True, Release (q_ringCharge q)]) q1"
    using as h g(4,8,10) w pos by (auto simp: books_def ledger_ok_append held_def dropped_def split: drop_kind.splits)
  have "q_count q1 < length (q_items q1)" "q_bytes q1 + charge_of bs \<le> BurstBytes" "\<not> q_closed q1"
    using g b op by (auto simp: same_profile_def)
  from place_wf [OF wf1 bk this] obtain q' where p: "place bs now q1 = Some q'" "contents q' = contents q1 @ [\<lparr>e_data = bs, e_at = now\<rparr>]"
    "wf_queue q'" "same_profile q1 q'"
    "books q0 ((as @ [Reserve (int (grown q) * 64) True, Release (q_ringCharge q)]) @ [Reserve (charge_of bs) True]) q'" .
  from p(5) have "books q0 (as @ [Reserve (charge_of bs) True, Reserve (int (grown q) * 64) True, Release (q_ringCharge q)]) q'"
    using as h pos w by (auto simp: books_def ledger_ok_append held_def)
  then show thesis using that [OF g(1) p(1)] g(2,5) p(2-4) same_profile_trans by metis
qed

lemma push_refused:
  assumes "books q as q1" "wf_queue q1"
  shows "books q (as @ [Reserve c False, Drop Budget]) (count_drop Budget q1)"
    and "0 \<le> c \<Longrightarrow> books q (as @ [Reserve c True, Reserve c' False, Release c, Drop Budget]) (count_drop Budget q1)"
  using assms(1) wf_held [OF assms(2)] by (auto simp: books_def ledger_ok_append)

lemma push_ok:
  assumes "wf_queue q"
  shows "\<exists>q' ok as. Push a1 a2 bs now q = Some (q', ok, as) \<and> wf_queue q' \<and> books q as q' \<and> same_profile q q'
    \<and> contents q' = fresh now q @ (if ok then [\<lparr>e_data = bs, e_at = now\<rparr>] else [])
    \<and> (ok \<longrightarrow> room now bs q \<and> a1) \<and> (room now bs q \<and> a1 \<and> a2 \<longrightarrow> ok)"
proof (cases "q_closed q")
  case True
  then have "Push a1 a2 bs now q = Some (q, False, []) \<and> contents q = fresh now q \<and> \<not> room now bs q"
    using wf_closed [OF assms] by (simp add: Push_def fresh_def room_def)
  then show ?thesis using assms by (intro exI [of _ q] exI [of _ False] exI [of _ "[]"]) (simp add: books_refl same_profile_def)
next
  case opn: False
  obtain q1 as where e: "expire_queue now q = Some (q1, as)" "contents q1 = fresh now q" "wf_queue q1" "books q as q1" "same_profile q q1"
    using expire_ok [OF assms, of now] by blast
  note w = e(3) [unfolded wf_queue_def]
  have op: "\<not> q_closed q1" and lim: "q_limit q1 = q_limit q" using opn e(5) by (simp_all add: same_profile_def)
  have c1: "q_count q1 = length (fresh now q)" using length_contents [of q1] e(2) by simp
  have b1: "q_bytes q1 = total_charge (fresh now q)" using w e(2) by simp
  have full: "q_limit q1 \<le> q_count q1 \<or> BurstBytes < q_bytes q1 + charge_of bs \<longleftrightarrow> \<not> room now bs q"
    using opn by (auto simp: room_def c1 b1 lim)
  have pos: "0 \<le> charge_of bs" using charge_pos [of bs] by simp
  note refused = books_drop [OF e(4,3)] push_refused(1) [OF e(4,3)] push_refused(2) [OF e(4,3) pos]
  have bounds: "q_count q1 < q_limit q1" "q_bytes q1 + charge_of bs \<le> BurstBytes" if "room now bs q" using that full by auto
  consider "\<not> (room now bs q \<and> a1)" | "room now bs q" a1 "q_count q1 < length (q_items q1)"
    | "room now bs q" a1 "q_count q1 = length (q_items q1)" using w by fastforce
  then show ?thesis
  proof cases
    case 1
    then show ?thesis using opn e refused by (auto simp: Push_def Let_def full)
  next
    case 2
    from place_wf [OF e(3,4) 2(3) bounds(2) [OF 2(1)] op] obtain q2 where "place bs now q1 = Some q2"
      "contents q2 = contents q1 @ [\<lparr>e_data = bs, e_at = now\<rparr>]" "wf_queue q2" "same_profile q1 q2"
      "books q (as @ [Reserve (charge_of bs) True]) q2" .
    then show ?thesis using 2 opn e(1,2,5) by (auto simp: Push_def Let_def full intro: same_profile_trans)
  next
    case 3
    note bd = bounds [OF 3(1)]
    from grow_place_wf [OF e(3,4) 3(3) bd op] obtain q2 q3 where g: "grow q1 = Some q2" "place bs now q2 = Some q3"
      "contents q3 = contents q1 @ [\<lparr>e_data = bs, e_at = now\<rparr>]" "wf_queue q3" "same_profile q1 q3"
      "books q (as @ [Reserve (charge_of bs) True, Reserve (int (grown q1) * 64) True, Release (q_ringCharge q1)]) q3" .
    have "Push a1 a2 bs now q = Some (if a2
        then (q3, True, as @ [Reserve (charge_of bs) True, Reserve (int (grown q1) * 64) True, Release (q_ringCharge q1)])
        else (count_drop Budget q1, False, as @ [Reserve (charge_of bs) True, Reserve (int (grown q1) * 64) False, Release (charge_of bs), Drop Budget]))"
      using bd 3(2,3) opn e(1) g(1,2) by (simp add: Push_def Let_def)
    then show ?thesis using 3(1,2) g(3-6) e(2,3,5) refused(3) same_profile_trans [OF e(5) g(5)] by (cases a2) auto
  qed
qed

lemma pop_ok:
  assumes "wf_queue q"
  shows "\<exists>q' r as. Pop now q = Some (q', r, as) \<and> wf_queue q' \<and> books q as q' \<and> same_profile q q'
    \<and> (case fresh now q of [] \<Rightarrow> r = None \<and> contents q' = [] | e # es \<Rightarrow> r = Some (e_data e) \<and> contents q' = es)"
proof -
  obtain q1 as where e: "expire_queue now q = Some (q1, as)" "contents q1 = fresh now q" "wf_queue q1" "books q as q1" "same_profile q q1"
    using expire_ok [OF assms, of now] by blast
  have c1: "q_count q1 = length (fresh now q)" using length_contents [of q1] e(2) by simp
  show ?thesis
  proof (cases "fresh now q")
    case Nil
    then show ?thesis using e c1 by (simp add: Pop_def)
  next
    case (Cons x xs)
    then have "0 < q_count q1" using c1 by simp
    from remove_ok [OF e(3) this, of now] obtain q2 y as2 where r: "remove_entry now q1 = Some (q2, e_data y, as2)" "contents q1 = y # contents q2"
      "wf_queue q2" "books q1 as2 q2" "same_profile q1 q2" "y = q_items q1 ! q_head q1" .
    then show ?thesis using Cons c1 e books_trans [OF e(4) r(4)] same_profile_trans [OF e(5) r(5)] by (auto simp: Pop_def)
  qed
qed

lemma close_ok:
  assumes "wf_queue q" and "Close_queue q = (q', as)"
  shows "wf_queue q' \<and> books q as q' \<and> q_closed q' \<and> held q' = 0 \<and> contents q' = []"
  using assms wf_held [OF assms(1)] wf_closed [OF assms(1)]
  by (auto simp: Close_queue_def books_def held_def dropped_def wf_queue_def contents_def split: if_splits drop_kind.splits)

lemma burst_ok: "wf_queue q \<Longrightarrow> wf_queue (EnableBurst q) \<and> books q [] (EnableBurst q) \<and> contents (EnableBurst q) = contents q"
  using wf_held [of q] by (auto simp: EnableBurst_def books_def held_def dropped_def wf_queue_def contents_def split: drop_kind.splits)

lemma new_ok: "lim \<le> BurstPackets \<Longrightarrow> wf_queue (New lim) \<and> contents (New lim) = [] \<and> held (New lim) = 0 \<and> dropped k (New lim) = 0"
  by (auto simp: New_def wf_queue_def contents_def held_def dropped_def zero_stats_def split: drop_kind.splits)

section \<open>Delivery in order\<close>

text \<open>The contract of a lossy queue towards its users: what is taken out, with what is still inside, is a subsequence of what was put in.
  The first argument of an operation is what it depends on besides the queue and the datagram.\<close>

datatype ('e, 'd) event = Arrive 'e 'd | Take 'e | Aside 'e

fun deliver ::
  "('e \<Rightarrow> 'd \<Rightarrow> 's \<Rightarrow> 's option) \<Rightarrow> ('e \<Rightarrow> 's \<Rightarrow> ('s \<times> 'd option) option) \<Rightarrow> ('e \<Rightarrow> 's \<Rightarrow> 's option)
     \<Rightarrow> ('e, 'd) event list \<Rightarrow> 's \<Rightarrow> ('s \<times> 'd list) option" where
  "deliver push pop other [] s = Some (s, [])"
| "deliver push pop other (Arrive e d # evs) s = (case push e d s of None \<Rightarrow> None | Some s' \<Rightarrow> deliver push pop other evs s')"
| "deliver push pop other (Take e # evs) s =
     (case pop e s of
        None \<Rightarrow> None
      | Some (s', r) \<Rightarrow>
          (case deliver push pop other evs s' of None \<Rightarrow> None | Some (s2, out) \<Rightarrow> Some (s2, (case r of None \<Rightarrow> out | Some d \<Rightarrow> d # out))))"
| "deliver push pop other (Aside e # evs) s = (case other e s of None \<Rightarrow> None | Some s' \<Rightarrow> deliver push pop other evs s')"

fun arrivals :: "('e, 'd) event list \<Rightarrow> 'd list" where
  "arrivals [] = []"
| "arrivals (Arrive e d # evs) = d # arrivals evs"
| "arrivals (Take e # evs) = arrivals evs"
| "arrivals (Aside e # evs) = arrivals evs"

locale lossy_queue =
  fixes push :: "'e \<Rightarrow> 'd \<Rightarrow> 's \<Rightarrow> 's option"
    and pop :: "'e \<Rightarrow> 's \<Rightarrow> ('s \<times> 'd option) option"
    and other :: "'e \<Rightarrow> 's \<Rightarrow> 's option"
    and content :: "'s \<Rightarrow> 'd list"
    and inv :: "'s \<Rightarrow> bool"
  assumes push_law: "inv s \<Longrightarrow> \<exists>s'. push e d s = Some s' \<and> inv s' \<and> subseq (content s') (content s @ [d])"
    and pop_law: "inv s \<Longrightarrow> \<exists>s' r. pop e s = Some (s', r) \<and> inv s' \<and> subseq (case r of None \<Rightarrow> content s' | Some d \<Rightarrow> d # content s') (content s)"
    and other_law: "inv s \<Longrightarrow> \<exists>s'. other e s = Some s' \<and> inv s' \<and> subseq (content s') (content s)"
begin

lemma in_order: "inv s \<Longrightarrow> \<exists>s' out. deliver push pop other evs s = Some (s', out) \<and> inv s' \<and> subseq (out @ content s') (content s @ arrivals evs)"
proof (induction evs arbitrary: s rule: arrivals.induct)
  case 1
  then show ?case by simp
next
  case (2 e d evs)
  obtain s1 where p: "push e d s = Some s1" "inv s1" "subseq (content s1) (content s @ [d])" using push_law [OF 2(2)] by blast
  from 2(1) [OF p(2)] obtain s' out where d: "deliver push pop other evs s1 = Some (s', out)" "inv s'" "subseq (out @ content s') (content s1 @ arrivals evs)" by blast
  have "subseq (content s1 @ arrivals evs) ((content s @ [d]) @ arrivals evs)" using p(3) by (simp only: subseq_append)
  then show ?case using subseq_order.trans [OF d(3)] p(1) d(1,2) by simp
next
  case (3 e evs)
  obtain s1 r where p: "pop e s = Some (s1, r)" "inv s1" "subseq (case r of None \<Rightarrow> content s1 | Some d \<Rightarrow> d # content s1) (content s)"
    using pop_law [OF 3(2)] by blast
  from 3(1) [OF p(2)] obtain s' out where d: "deliver push pop other evs s1 = Some (s', out)" "inv s'" "subseq (out @ content s') (content s1 @ arrivals evs)" by blast
  let ?pre = "case r of None \<Rightarrow> [] | Some d \<Rightarrow> [d]"
  have "subseq (?pre @ out @ content s') (?pre @ content s1 @ arrivals evs)" using d(3) by (simp only: subseq_append')
  moreover have "subseq ((?pre @ content s1) @ arrivals evs) (content s @ arrivals evs)" 
  proof -
    have "subseq (?pre @ content s1) (content s)" using p(3) by (cases r) simp_all
    then show ?thesis by (simp only: subseq_append)
  qed
  ultimately have "subseq (?pre @ out @ content s') (content s @ arrivals evs)" by (metis append.assoc subseq_order.trans)
  then show ?case using p(1) d(1,2) by (cases r) auto
next
  case (4 e evs)
  obtain s1 where p: "other e s = Some s1" "inv s1" "subseq (content s1) (content s)" using other_law [OF 4(2)] by blast
  from 4(1) [OF p(2)] obtain s' out where d: "deliver push pop other evs s1 = Some (s', out)" "inv s'" "subseq (out @ content s') (content s1 @ arrivals evs)" by blast
  have "subseq (content s1 @ arrivals evs) (content s @ arrivals evs)" using p(3) by (simp only: subseq_append)
  then show ?case using subseq_order.trans [OF d(3)] p(1) d(1,2) by simp
qed

end

text \<open>The operations as a user of a queue sees them; the bare operation is either the end of the queue or its burst profile.\<close>

type_synonym moment = "bool \<times> bool \<times> time"

definition dq_push :: "moment \<Rightarrow> byte list \<Rightarrow> Queue \<Rightarrow> Queue option" where
  "dq_push m bs q = (case m of (a1, a2, now) \<Rightarrow> map_option fst (Push a1 a2 bs now q))"

definition dq_pop :: "moment \<Rightarrow> Queue \<Rightarrow> (Queue \<times> byte list option) option" where
  "dq_pop m q = (case m of (a1, a2, now) \<Rightarrow> map_option (\<lambda>(q', r, as). (q', r)) (Pop now q))"

definition dq_other :: "moment \<Rightarrow> Queue \<Rightarrow> Queue option" where
  "dq_other m q = Some (if fst m then fst (Close_queue q) else EnableBurst q)"

lemma fresh_subseq: "subseq (map e_data (fresh now q)) (map e_data (contents q))"
proof -
  have "subseq (fresh now q) (contents q)" by (simp add: fresh_def suffix_dropWhile suffix_imp_subseq)
  then show ?thesis by (rule subseq_map)
qed

interpretation dq: lossy_queue dq_push dq_pop dq_other "\<lambda>q. map e_data (contents q)" wf_queue
proof unfold_locales
  fix q :: Queue and m :: moment and bs :: "byte list"
  assume wf: "wf_queue q"
  obtain a1 a2 now where m: "m = (a1, a2, now)" by (cases m)
  obtain q' ok as where p: "Push a1 a2 bs now q = Some (q', ok, as)" "wf_queue q'"
    "contents q' = fresh now q @ (if ok then [\<lparr>e_data = bs, e_at = now\<rparr>] else [])" using push_ok [OF wf, of a1 a2 bs now] by (elim exE conjE) (rule that)
  have "subseq (map e_data (fresh now q) @ (if ok then [bs] else [])) (map e_data (contents q) @ [bs])"
    using fresh_subseq by (intro list_emb_append_mono) auto
  then have "subseq (map e_data (contents q')) (map e_data (contents q) @ [bs])" using p(3) by (cases ok) simp_all
  then show "\<exists>s'. dq_push m bs q = Some s' \<and> wf_queue s' \<and> subseq (map e_data (contents s')) (map e_data (contents q) @ [bs])"
    using p by (simp add: dq_push_def m)
  obtain q2 r as2 where pop: "Pop now q = Some (q2, r, as2)" "wf_queue q2"
    "case fresh now q of [] \<Rightarrow> r = None \<and> contents q2 = [] | e # es \<Rightarrow> r = Some (e_data e) \<and> contents q2 = es" using pop_ok [OF wf, of now] by (elim exE conjE) (rule that)
  have "(case r of None \<Rightarrow> map e_data (contents q2) | Some d \<Rightarrow> d # map e_data (contents q2)) = map e_data (fresh now q)"
    using pop(3) by (cases "fresh now q") simp_all
  then show "\<exists>s' r. dq_pop m q = Some (s', r) \<and> wf_queue s'
      \<and> subseq (case r of None \<Rightarrow> map e_data (contents s') | Some d \<Rightarrow> d # map e_data (contents s')) (map e_data (contents q))"
    using pop(1,2) fresh_subseq [of now q] by (simp add: dq_pop_def m)
  show "\<exists>s'. dq_other m q = Some s' \<and> wf_queue s' \<and> subseq (map e_data (contents s')) (map e_data (contents q))"
    using burst_ok [OF wf] close_ok [OF wf] by (cases "Close_queue q") (auto simp: dq_other_def)
qed

section \<open>Properties\<close>

lemma fresh_hd: "fresh now q = e # es \<Longrightarrow> 0 < q_maxAge q \<Longrightarrow> now - e_at e \<le> q_maxAge q"
  by (auto simp: fresh_def dest: dropWhile_eq_Cons_conv [THEN iffD1])

lemma wf_bounds: "wf_queue q \<Longrightarrow> q_count q \<le> BurstPackets \<and> q_bytes q \<le> BurstBytes \<and> q_ringCharge q \<le> 65536"
  by (auto simp: wf_queue_def)

text \<open>C14: The ring is a bounded first-in-first-out list. On every well-formed queue, \<^verbatim>\<open>Push\<close> and \<^verbatim>\<open>Pop\<close> end without a panic; first the expired entries leave at
  the front, then \<^verbatim>\<open>Push\<close> appends the packet exactly when the queue is open and has room and the budget grants it, and \<^verbatim>\<open>Pop\<close> hands out the
  oldest packet left, which is never older than the age limit of the profile. Whether the ring wraps around, grows, or is given back is invisible.
  A queue never holds more than 1024 packets, one MiB with overhead, and a ring of 64 KiB.\<close>

theorem ring_refines_fifo:
  assumes "wf_queue q"
  shows "(\<exists>q' ok as. Push a1 a2 bs now q = Some (q', ok, as) \<and> wf_queue q'
      \<and> contents q' = fresh now q @ (if ok then [\<lparr>e_data = bs, e_at = now\<rparr>] else [])
      \<and> (ok \<longrightarrow> room now bs q \<and> a1) \<and> (room now bs q \<and> a1 \<and> a2 \<longrightarrow> ok)
      \<and> q_count q' \<le> 1024 \<and> q_bytes q' \<le> 1024 * 1024 \<and> q_ringCharge q' \<le> 64 * 1024)
    \<and> (\<exists>q' r as. Pop now q = Some (q', r, as) \<and> wf_queue q'
      \<and> (case fresh now q of
           [] \<Rightarrow> r = None \<and> contents q' = []
         | e # es \<Rightarrow> r = Some (e_data e) \<and> contents q' = es \<and> (0 < q_maxAge q \<longrightarrow> now - e_at e \<le> q_maxAge q)))"
proof
  obtain q' ok as where p: "Push a1 a2 bs now q = Some (q', ok, as)" "wf_queue q'"
    "contents q' = fresh now q @ (if ok then [\<lparr>e_data = bs, e_at = now\<rparr>] else [])"
    "ok \<longrightarrow> room now bs q \<and> a1" "room now bs q \<and> a1 \<and> a2 \<longrightarrow> ok"
    using push_ok [OF assms, of a1 a2 bs now] by (elim exE conjE) (rule that)
  show "\<exists>q' ok as. Push a1 a2 bs now q = Some (q', ok, as) \<and> wf_queue q'
      \<and> contents q' = fresh now q @ (if ok then [\<lparr>e_data = bs, e_at = now\<rparr>] else [])
      \<and> (ok \<longrightarrow> room now bs q \<and> a1) \<and> (room now bs q \<and> a1 \<and> a2 \<longrightarrow> ok)
      \<and> q_count q' \<le> 1024 \<and> q_bytes q' \<le> 1024 * 1024 \<and> q_ringCharge q' \<le> 64 * 1024"
    by (intro exI conjI, (rule p)+) (use wf_bounds [OF p(2)] in simp_all)
  obtain q2 r as2 where pop: "Pop now q = Some (q2, r, as2)" "wf_queue q2"
    "case fresh now q of [] \<Rightarrow> r = None \<and> contents q2 = [] | e # es \<Rightarrow> r = Some (e_data e) \<and> contents q2 = es" using pop_ok [OF assms, of now] by (elim exE conjE) (rule that)
  have "case fresh now q of
      [] \<Rightarrow> r = None \<and> contents q2 = []
    | e # es \<Rightarrow> r = Some (e_data e) \<and> contents q2 = es \<and> (0 < q_maxAge q \<longrightarrow> now - e_at e \<le> q_maxAge q)"
  proof (cases "fresh now q")
    case (Cons e es)
    then show ?thesis using pop(3) fresh_hd [OF Cons] by simp
  qed (use pop(3) in simp)
  then show "\<exists>q' r as. Pop now q = Some (q', r, as) \<and> wf_queue q'
      \<and> (case fresh now q of
           [] \<Rightarrow> r = None \<and> contents q' = []
         | e # es \<Rightarrow> r = Some (e_data e) \<and> contents q' = es \<and> (0 < q_maxAge q \<longrightarrow> now - e_at e \<le> q_maxAge q))"
    using pop(1,2) by (intro exI conjI)
qed

text \<open>Datagrams are lost or late but never reordered, duplicated or made up. For every sequence of arrivals, receptions, and changes of the profile, on a
  new queue, the datagrams received, followed by those still queued, are a subsequence of those that arrived.\<close>

theorem datagrams_in_order:
  assumes "lim \<le> 1024"
  shows "\<exists>q' out. deliver dq_push dq_pop dq_other evs (New lim) = Some (q', out) \<and> wf_queue q'
    \<and> subseq (out @ map e_data (contents q')) (arrivals evs)"
  using dq.in_order [of "New lim" evs] new_ok [OF assms] by simp

section \<open>A worked queue\<close>

definition demo_queue :: Queue where
  "demo_queue = (EnableBurst (New 32))\<lparr>q_items := replicate 7 zero_entry @ [\<lparr>e_data = [7], e_at = 0\<rparr>], q_head := 7, q_count := 1,
     q_bytes := 65, q_ringCharge := 512\<rparr>"

lemma demo_queue_wf: "wf_queue demo_queue"
  by (simp add: demo_queue_def wf_queue_def contents_def EnableBurst_def New_def charge_of_def nth_append)

lemma demo_fresh: "fresh millisecond demo_queue = [\<lparr>e_data = [7], e_at = 0\<rparr>]" "fresh second demo_queue = []"
  by (simp_all add: fresh_def contents_def demo_queue_def EnableBurst_def New_def nth_append)

theorem ring_refines_fifo_witness:
  "(\<exists>q' as. Push True True [8, 9] millisecond demo_queue = Some (q', True, as)
      \<and> contents q' = [\<lparr>e_data = [7], e_at = 0\<rparr>, \<lparr>e_data = [8, 9], e_at = millisecond\<rparr>])
   \<and> (\<exists>q' as. Pop second demo_queue = Some (q', None, as))"
proof
  have room: "room millisecond [8, 9] demo_queue"
    by (simp add: room_def demo_fresh charge_of_def) (simp add: demo_queue_def EnableBurst_def New_def)
  obtain q' ok as where "Push True True [8, 9] millisecond demo_queue = Some (q', ok, as)" "room millisecond [8, 9] demo_queue \<and> True \<and> True \<longrightarrow> ok"
    "contents q' = fresh millisecond demo_queue @ (if ok then [\<lparr>e_data = [8, 9], e_at = millisecond\<rparr>] else [])"
    using conjunct1 [OF ring_refines_fifo [OF demo_queue_wf, of True True "[8, 9]" millisecond]] by (elim exE conjE) (rule that)
  then show "\<exists>q' as. Push True True [8, 9] millisecond demo_queue = Some (q', True, as)
      \<and> contents q' = [\<lparr>e_data = [7], e_at = 0\<rparr>, \<lparr>e_data = [8, 9], e_at = millisecond\<rparr>]"
    using room by (simp add: demo_fresh)
  show "\<exists>q' as. Pop second demo_queue = Some (q', None, as)"
    using conjunct2 [OF ring_refines_fifo [OF demo_queue_wf, of True True "[]" second]] by (auto simp: demo_fresh)
qed

theorem datagrams_in_order_witness:
  "\<exists>q' out. deliver dq_push dq_pop dq_other [Arrive (True, True, 0) [1], Arrive (False, True, 1) [2], Take (True, True, 2)] (New 32) = Some (q', out)
     \<and> subseq out [[1], [2]]"
proof -
  obtain q' out where d: "deliver dq_push dq_pop dq_other [Arrive (True, True, 0) [1], Arrive (False, True, 1) [2], Take (True, True, 2)] (New 32) = Some (q', out)"
    "subseq (out @ map e_data (contents q')) [[1], [2]]"
    using datagrams_in_order [of 32 "[Arrive (True, True, 0) [1], Arrive (False, True, 1) [2], Take (True, True, 2)]"] by auto
  have "subseq out (out @ map e_data (contents q'))" by (simp add: prefix_imp_subseq)
  with d show ?thesis using subseq_order.trans by blast
qed

end
