(* ===== verification/Sessions.thy ===== *)
theory Sessions
  imports Target_Policy Connections Datagram_Buffer
begin

text \<open>
  The state of the server of \<^verbatim>\<open>internal/relay/server.go\<close> and the operations on it: the target
  test, the session counters (\<^verbatim>\<open>acquire\<close>, \<^verbatim>\<open>release\<close>), \<^verbatim>\<open>Close\<close> and the pressure log. The session counters
  satisfy the contract of \<open>Admission\<close>.
\<close>

section \<open>Data\<close>

record Config =
  Access :: AccessConfig
  ListenAddress :: string
  PublicAddress :: string
  ServerName :: string
  CertificatePath :: string
  PrivateKeyPath :: string
  AllowedTargets :: "addr_port list"
  AllowPrivateTargets :: bool
  AllowLocalAdvertise :: bool
  MaxSessions :: int

text \<open>The ticket authority is threaded separately; of its pointers (\<^verbatim>\<open>tickets\<close>, \<^verbatim>\<open>server\<close>, \<^verbatim>\<open>udp\<close>) the server only records
  whether they are set.\<close>

record Server =
  srv_config :: Config
  allowedTargets :: "addr_port list"
  activeByAddress :: "(string, int) gomap"
  activeSessions :: int
  closed :: bool
  has_tickets :: bool
  has_server :: bool
  has_udp :: bool

section \<open>Targets\<close>

definition targetAllowed :: "Server \<Rightarrow> addr_port \<Rightarrow> bool" where
  "targetAllowed s target =
     (if \<not> is_valid (ap_addr target) \<or> ap_port target = 0 then False
      else (let target = AddrPort (unmap (ap_addr target)) (ap_port target); address = ap_addr target in
        if is_unspecified address \<or> is_multicast address \<or> zone address \<noteq> [] then False
        else if publiclyRoutable address then True
        else if is_private address \<or> is_loopback address then
          target \<in> set (allowedTargets s) \<or> AllowPrivateTargets (srv_config s)
        else False))"

section \<open>Sessions\<close>

definition acquire :: "Server \<Rightarrow> string \<Rightarrow> Server \<times> bool" where
  "acquire s source =
     (if closed s \<or> activeSessions s \<ge> MaxSessions (srv_config s) \<or> get_num (activeByAddress s) source \<ge> 8
      then (s, False)
      else (s\<lparr>activeSessions := activeSessions s + 1,
              activeByAddress := set_map source (get_num (activeByAddress s) source + 1) (activeByAddress s)\<rparr>, True))"

definition release :: "Server \<Rightarrow> string \<Rightarrow> Server" where
  "release s source =
     s\<lparr>activeSessions := (if activeSessions s > 0 then activeSessions s - 1 else activeSessions s),
       activeByAddress :=
         (if get_num (activeByAddress s) source \<le> 1 then del_map source (activeByAddress s)
          else set_map source (get_num (activeByAddress s) source - 1) (activeByAddress s))\<rparr>"

definition ActiveSessions :: "Server \<Rightarrow> int" where
  "ActiveSessions s = activeSessions s"

section \<open>Closing\<close>

text \<open>What \<^verbatim>\<open>Close\<close> shuts down, in order; the authority closes its listener, when it has one, and its
  database.\<close>

datatype closing = StopMetrics | CloseProxy | CloseHTTP | CloseListener | CloseDB | CloseUDP

definition authority_close :: "('b, 'k) ticketAuthority \<Rightarrow> closing list" where
  "authority_close A = (if listener A then [CloseListener] else []) @ [CloseDB]"

definition Close :: "string option \<Rightarrow> ('b, 'k) ticketAuthority option \<Rightarrow> Server \<Rightarrow> Server \<times> closing list \<times> string option" where
  "Close udp_close tickets s =
     (if closed s then (s, [], None)
      else (s\<lparr>closed := True\<rparr>,
        [StopMetrics, CloseProxy] @ (if has_server s then [CloseHTTP] else [])
          @ (case tickets of None \<Rightarrow> [] | Some A \<Rightarrow> authority_close A) @ (if has_udp s then [CloseUDP] else []),
        if has_udp s then udp_close else None))"

text \<open>\<^verbatim>\<open>Shutdown\<close>: \<^verbatim>\<open>Close\<close> runs in a goroutine; when the context ends first (\<open>ctx_err\<close>) its error is returned, and
  \<^verbatim>\<open>Close\<close> still runs to its end.\<close>

definition Shutdown :: "string option \<Rightarrow> string option \<Rightarrow> ('b, 'k) ticketAuthority option \<Rightarrow> Server
    \<Rightarrow> Server \<times> closing list \<times> string option" where
  "Shutdown ctx_err udp_close tickets s =
     (let (s', cs, err) = Close udp_close tickets s in
      if \<not> has_server s then (s', cs, err)
      else (s', cs, case ctx_err of None \<Rightarrow> err | Some e \<Rightarrow> Some e))"

section \<open>The pressure log\<close>

text \<open>The log works on snapshots of the receive-buffer counters; the drop counters are unsigned and their differences wrap.\<close>

text \<open>One tick: a report of the differences when a drop counter changed.\<close>

definition pressure_report :: "buffer_stats \<Rightarrow> buffer_stats \<Rightarrow> buffer_stats option" where
  "pressure_report previous now =
     (if DroppedFull now \<noteq> DroppedFull previous \<or> DroppedBudget now \<noteq> DroppedBudget previous
         \<or> DroppedExpired now \<noteq> DroppedExpired previous \<or> RawPacketDrops now \<noteq> RawPacketDrops previous
      then Some (now\<lparr>DroppedFull := DroppedFull now - DroppedFull previous,
                     DroppedBudget := DroppedBudget now - DroppedBudget previous,
                     DroppedExpired := DroppedExpired now - DroppedExpired previous,
                     RawPacketDrops := RawPacketDrops now - RawPacketDrops previous\<rparr>)
      else None)"

text \<open>The loop of \<^verbatim>\<open>logReceivePressure\<close> over the snapshots of its ticks until the server closes.\<close>

fun logReceivePressure :: "buffer_stats \<Rightarrow> buffer_stats list \<Rightarrow> buffer_stats list" where
  "logReceivePressure previous [] = []"
| "logReceivePressure previous (now # ticks) =
     (case pressure_report previous now of None \<Rightarrow> [] | Some r \<Rightarrow> [r]) @ logReceivePressure now ticks"

section \<open>The session counters are exact and bounded\<close>

definition sessions_ok :: "Server \<Rightarrow> bool" where
  "sessions_ok s \<longleftrightarrow> counters_ok (activeSessions s) (activeByAddress s)"

text \<open>Other operations on the server, \<^verbatim>\<open>Close\<close> among them, keep the counters and the limit.\<close>

definition same_sessions :: "Server \<Rightarrow> Server \<Rightarrow> bool" where
  "same_sessions s s' \<longleftrightarrow> activeSessions s' = activeSessions s \<and> activeByAddress s' = activeByAddress s
     \<and> srv_config s' = srv_config s"

lemma Close_same_sessions: "same_sessions s (fst (Close udp_close tickets s))"
  by (simp add: Close_def same_sessions_def)

definition admit_session :: "Server \<Rightarrow> string \<Rightarrow> Server option" where
  "admit_session s k = (case acquire s k of (s', True) \<Rightarrow> Some s' | (_, False) \<Rightarrow> None)"

lemma release_ok:
  assumes "sessions_ok s" and "0 < get_num (activeByAddress s) k"
  shows "sessions_ok (release s k)"
    and "activeSessions (release s k) = activeSessions s - 1"
    and "get_num (activeByAddress (release s k)) j = get_num (activeByAddress s) j - (if j = k then 1 else 0)"
proof -
  have ok: "counters_ok (activeSessions s) (activeByAddress s)" using assms(1) by (simp add: sessions_ok_def)
  have pos: "0 < activeSessions s" using counters_total [OF ok, of k] assms(2) by linarith
  then show "activeSessions (release s k) = activeSessions s - 1" by (simp add: release_def)
  show "get_num (activeByAddress (release s k)) j = get_num (activeByAddress s) j - (if j = k then 1 else 0)"
    using assms(2) by (auto simp: release_def)
  show "sessions_ok (release s k)"
  proof (cases "get_num (activeByAddress s) k = 1")
    case True
    then show ?thesis using counters_del [OF ok True] pos by (simp add: sessions_ok_def release_def)
  next
    case False
    then have "1 < get_num (activeByAddress s) k" using assms(2) by linarith
    then show ?thesis using counters_dec [OF ok, of k] pos by (simp add: sessions_ok_def release_def)
  qed
qed

interpretation sess: admission admit_session release same_sessions activeSessions "\<lambda>s. get_num (activeByAddress s)"
  "\<lambda>s. MaxSessions (srv_config s)" 8 sessions_ok
proof
  fix s s' :: Server and k j :: string
  assume ok: "sessions_ok s"
  show "admit_session s k = Some s' \<Longrightarrow> sessions_ok s' \<and> MaxSessions (srv_config s') = MaxSessions (srv_config s)"
    using counters_inc [of "activeSessions s" "activeByAddress s" k] ok
    by (auto simp: admit_session_def acquire_def sessions_ok_def split: if_splits)
  show "admit_session s k = Some s' \<Longrightarrow> activeSessions s < MaxSessions (srv_config s) \<and> get_num (activeByAddress s) k < 8"
    by (auto simp: admit_session_def acquire_def split: if_splits)
  show "admit_session s k = Some s' \<Longrightarrow> activeSessions s' = activeSessions s + 1 \<and>
      get_num (activeByAddress s') j = get_num (activeByAddress s) j + (if j = k then 1 else 0)"
    by (auto simp: admit_session_def acquire_def split: if_splits)
  show "0 < get_num (activeByAddress s) k \<Longrightarrow>
      sessions_ok (release s k) \<and> MaxSessions (srv_config (release s k)) = MaxSessions (srv_config s)"
    using release_ok(1) [OF ok] by (simp add: release_def)
  show "0 < get_num (activeByAddress s) k \<Longrightarrow> activeSessions (release s k) = activeSessions s - 1 \<and>
      get_num (activeByAddress (release s k)) j = get_num (activeByAddress s) j - (if j = k then 1 else 0)"
    using release_ok(2,3) [OF ok] by blast
  show "same_sessions s s' \<Longrightarrow> sessions_ok s' \<and> MaxSessions (srv_config s') = MaxSessions (srv_config s)
      \<and> activeSessions s' = activeSessions s \<and> get_num (activeByAddress s') j = get_num (activeByAddress s) j"
    using ok by (simp add: same_sessions_def sessions_ok_def)
qed

text \<open>C29: The relay never carries more tunnels than it is configured for, nor more than eight of one account or source, and it counts
  them exactly. Over any interleaving of tunnels opening and ending with a \<^verbatim>\<open>Close\<close> in between, the
  counters equal the tunnels in progress, and a source without a tunnel has no entry.\<close>

theorem sessions_bounded:
  assumes "activeSessions s0 = 0" and "activeByAddress s0 = []" and "0 \<le> MaxSessions (srv_config s0)"
    and "crowd admit_session release same_sessions s0 s act"
  shows "ActiveSessions s = int (size act) \<and> int (size act) \<le> MaxSessions (srv_config s0)
    \<and> get_num (activeByAddress s) src = int (count act src) \<and> count act src \<le> 8
    \<and> length (activeByAddress s) \<le> size act"
proof -
  have start: "sess.exact s0 {#}" using assms(1,2) by (simp add: sess.exact_def sessions_ok_def get_num_def)
  have exact: "sess.exact s act" using sess.crowd_exact [OF assms(4) start] by blast
  then have "int (length (activeByAddress s)) \<le> activeSessions s"
    by (metis sess.exact_def sessions_ok_def counters_length)
  then show ?thesis
    using exact sess.crowd_bounded [OF assms(4) start assms(3), of src] by (simp add: sess.exact_def ActiveSessions_def)
qed


section \<open>Targets\<close>

lemma not_reserved_routable:
  assumes "zone (unmap a) = []"
  shows "publiclyRoutable a \<longleftrightarrow> \<not> reserved (unmap a)"
proof -
  have "publiclyRoutable (unmap a) \<longleftrightarrow> \<not> reserved (unmap a)"
  proof (cases "unmap a")
    case NoAddr
    then show ?thesis by (simp add: publiclyRoutable_def is_valid_def)
  next
    case (IPv4 x y z w)
    then show ?thesis using routable4 [of x y z w] by simp
  next
    case (IPv6 w z)
    have "\<not> is4in6 (IPv6 w z)" using not_is4in6_unmap [of a] IPv6 by simp
    then show ?thesis using routable6 [of w] assms by (simp add: IPv6)
  qed
  then show ?thesis by simp
qed

lemma local_private:
  assumes "zone (unmap a) = []"
  shows "is_private (unmap a) \<or> is_loopback (unmap a) \<longleftrightarrow> local_use (unmap a)"
proof (cases "unmap a")
  case NoAddr
  then show ?thesis by (simp add: is_private_def is_loopback_def)
next
  case (IPv4 x y z w)
  then show ?thesis using local_use4 [of x y z w] by simp
next
  case (IPv6 w z)
  have "\<not> is4in6 (IPv6 w z)" using not_is4in6_unmap [of a] IPv6 by simp
  then show ?thesis using local_use6 [of w] assms by (simp add: IPv6)
qed

lemma special_refused:
  assumes "is_unspecified (unmap a) \<or> is_multicast (unmap a)" and "zone (unmap a) = []"
  shows "reserved (unmap a) \<and> \<not> local_use (unmap a)"
proof (cases "unmap a")
  case NoAddr
  then show ?thesis by simp
next
  case (IPv4 x y z w)
  then show ?thesis using assms(1) reserved_not_routable4 not_local_special4 by (simp del: reserved.simps local_use.simps)
next
  case (IPv6 w z)
  have "\<not> is4in6 (IPv6 w z)" using not_is4in6_unmap [of a] IPv6 by simp
  then show ?thesis using special6 [of w] assms by (simp add: IPv6 del: reserved.simps local_use.simps)
qed

text \<open>C27: The target policy is exactly the table of reserved ranges. A tunnel to an address and port is allowed if and only if
  the port is not zero and the address, with an IPv4-mapped IPv6 address read as IPv4, is
  either outside every reserved range, or lies in a private or loopback range and is opened by
  the operator, by this exact endpoint or by the development flag.\<close>

theorem targets_exact:
  "targetAllowed s t \<longleftrightarrow>
     ap_port t \<noteq> 0
     \<and> (\<not> reserved (unmap (ap_addr t))
        \<or> local_use (unmap (ap_addr t))
          \<and> (AddrPort (unmap (ap_addr t)) (ap_port t) \<in> set (allowedTargets s) \<or> AllowPrivateTargets (srv_config s)))"
proof (cases "zone (unmap (ap_addr t)) = []")
  case False
  then obtain w z where "unmap (ap_addr t) = IPv6 w z" "z \<noteq> []" by (cases "unmap (ap_addr t)") auto
  then show ?thesis by (simp add: targetAllowed_def Let_def)
next
  case True
  let ?a = "unmap (ap_addr t)"
  have "is_valid (ap_addr t) \<longleftrightarrow> ?a \<noteq> NoAddr" by (simp add: is_valid_def)
  moreover have "?a = NoAddr \<Longrightarrow> reserved ?a \<and> \<not> local_use ?a" by simp
  moreover note not_reserved_routable [OF True] local_private [OF True] special_refused [OF _ True]
  ultimately show ?thesis
    using True by (auto simp: targetAllowed_def Let_def simp del: reserved.simps local_use.simps)
qed

section \<open>What the pressure log adds up to\<close>

fun last_stats :: "buffer_stats \<Rightarrow> buffer_stats list \<Rightarrow> buffer_stats" where
  "last_stats previous [] = previous"
| "last_stats previous (now # ticks) = last_stats now ticks"

text \<open>The pressure log loses nothing and repeats nothing: over any number of ticks, the reported
  differences of each drop counter add up, in the arithmetic of the counters, to the difference between the
  last and the first snapshot; there is at most one line for each tick, and none for ticks without a drop.\<close>

theorem pressure_log_adds_up:
  "sum_list (map DroppedFull (logReceivePressure previous ticks)) = DroppedFull (last_stats previous ticks) - DroppedFull previous
   \<and> sum_list (map DroppedBudget (logReceivePressure previous ticks)) = DroppedBudget (last_stats previous ticks) - DroppedBudget previous
   \<and> sum_list (map DroppedExpired (logReceivePressure previous ticks)) = DroppedExpired (last_stats previous ticks) - DroppedExpired previous
   \<and> sum_list (map RawPacketDrops (logReceivePressure previous ticks)) = RawPacketDrops (last_stats previous ticks) - RawPacketDrops previous
   \<and> length (logReceivePressure previous ticks) \<le> length ticks
   \<and> pressure_report now now = None"
  by (induction previous ticks rule: logReceivePressure.induct) (auto simp: pressure_report_def)

section \<open>Concrete runs\<close>

definition demo_server :: Server where
  "demo_server = \<lparr>srv_config = \<lparr>Access = demo_config, ListenAddress = '''', PublicAddress = '''', ServerName = ''relay'',
      CertificatePath = '''', PrivateKeyPath = '''', AllowedTargets = [], AllowPrivateTargets = False,
      AllowLocalAdvertise = False, MaxSessions = 2\<rparr>,
    allowedTargets = [], activeByAddress = [], activeSessions = 0, closed = False, has_tickets = False,
    has_server = True, has_udp = True\<rparr>"

lemma demo_crowd:
  "crowd admit_session release same_sessions demo_server (fst (acquire demo_server ''10.0.0.1'')) {#''10.0.0.1''#}"
proof -
  have "admit_session demo_server ''10.0.0.1'' = Some (fst (acquire demo_server ''10.0.0.1''))"
    by (simp add: admit_session_def acquire_def demo_server_def get_num_def)
  from crowd.admitted [where admit = admit_session and s = demo_server and k = "''10.0.0.1''" and act = "{#}", OF crowd.start this]
  show ?thesis by simp
qed

theorem sessions_bounded_witness:
  "ActiveSessions (fst (acquire demo_server ''10.0.0.1'')) = 1
   \<and> get_num (activeByAddress (fst (acquire demo_server ''10.0.0.1''))) ''10.0.0.1'' = 1"
proof -
  have "activeSessions demo_server = 0" "activeByAddress demo_server = []" "0 \<le> MaxSessions (srv_config demo_server)"
    by (simp_all add: demo_server_def)
  from sessions_bounded [OF this demo_crowd, of "''10.0.0.1''"] show ?thesis by simp
qed

theorem targets_exact_witness:
  "targetAllowed demo_server (AddrPort (IPv4 8 8 8 8) 53) \<and> \<not> targetAllowed demo_server (AddrPort (IPv4 10 0 0 1) 53)"
  unfolding targets_exact
  by (simp add: demo_server_def reserved4_def local4_def in_ranges_def quad_def)

end
