(* ===== verification/Net_Text.thy ===== *)
theory Net_Text
  imports Net_Addr
begin

text \<open>
  Text forms of \<^verbatim>\<open>net/netip\<close>: \<^verbatim>\<open>ParseAddr\<close>, \<^verbatim>\<open>ParseAddrPort\<close> and the \<^verbatim>\<open>String\<close> methods. The main result is that
  parsing inverts printing on every valid address with a port, so that an endpoint that went
  through a string (the metadata of the relay, the arguments of the announcer) is the endpoint it was.
\<close>

section \<open>Parsing\<close>

text \<open>One octet: digits without a leading zero, at most 255; four of them, separated by dots.\<close>

definition parse_octet :: "string \<Rightarrow> nat option" where
  "parse_octet s =
     (if 1 < length s \<and> hd s = CHR ''0'' then None
      else case parse_uint s of Inl e \<Rightarrow> None | Inr v \<Rightarrow> if v \<le> 255 then Some v else None)"

definition ipv4_fields :: "string \<Rightarrow> (nat \<times> nat \<times> nat \<times> nat) option" where
  "ipv4_fields s =
     (case map parse_octet (split_on CHR ''.'' s) of
        [Some a, Some b, Some c, Some d] \<Rightarrow> Some (a, b, c, d)
      | _ \<Rightarrow> None)"

definition parse_ipv4 :: "string \<Rightarrow> addr option" where
  "parse_ipv4 s =
     (case ipv4_fields s of
        None \<Rightarrow> None
      | Some (a, b, c, d) \<Rightarrow> Some (IPv4 (of_nat a) (of_nat b) (of_nat c) (of_nat d)))"

text \<open>A group of one to four hexadecimal digits, and what follows it.\<close>

definition hex_num :: "string \<Rightarrow> nat" where
  "hex_num = foldl (\<lambda>n c. 16 * n + the (hex_val c)) 0"

definition hex_group :: "string \<Rightarrow> (nat \<times> string) option" where
  "hex_group s =
     (let ds = takeWhile (\<lambda>c. hex_val c \<noteq> None) s in
      if ds = [] \<or> 4 < length ds then None else Some (hex_num ds, drop (length ds) s))"

text \<open>The loop over the groups of an IPv6 address: the groups read so far, where the ellipsis stood, and what is left.\<close>

function v6_loop :: "nat list \<Rightarrow> nat option \<Rightarrow> string \<Rightarrow> (nat list \<times> nat option \<times> string) option" where
  "v6_loop gs ell s =
     (if 8 \<le> length gs then Some (gs, ell, s)
      else case hex_group s of
        None \<Rightarrow> None
      | Some (g, rest) \<Rightarrow>
          if rest \<noteq> [] \<and> hd rest = CHR ''.'' then
            if ell = None \<and> length gs \<noteq> 6 \<or> 6 < length gs then None
            else (case ipv4_fields s of
                    None \<Rightarrow> None
                  | Some (a, b, c, d) \<Rightarrow> Some (gs @ [256 * a + b, 256 * c + d], ell, []))
          else if rest = [] then Some (gs @ [g], ell, [])
          else if hd rest \<noteq> CHR '':'' \<or> length rest = 1 then None
          else if hd (tl rest) = CHR '':'' then
            if ell \<noteq> None then None
            else if tl (tl rest) = [] then Some (gs @ [g], Some (Suc (length gs)), [])
            else v6_loop (gs @ [g]) (Some (Suc (length gs))) (tl (tl rest))
          else v6_loop (gs @ [g]) ell (tl rest))"
  by pat_completeness auto
termination by (relation "measure (\<lambda>(gs, ell, s). 8 - length gs)") auto

declare v6_loop.simps [simp del]

definition of_groups :: "nat list \<Rightarrow> 128 word" where
  "of_groups gs = of_nat (foldl (\<lambda>n g. 65536 * n + g) 0 gs)"

definition v6_finish :: "string \<Rightarrow> (nat list \<times> nat option \<times> string) option \<Rightarrow> addr option" where
  "v6_finish z r =
     (case r of
        None \<Rightarrow> None
      | Some (gs, ell, s) \<Rightarrow>
          if s \<noteq> [] then None
          else if length gs < 8 then
            (case ell of
               None \<Rightarrow> None
             | Some e \<Rightarrow> Some (IPv6 (of_groups (take e gs @ replicate (8 - length gs) 0 @ drop e gs)) z))
          else if ell \<noteq> None then None
          else Some (IPv6 (of_groups gs) z))"

definition v6_body :: "string \<Rightarrow> string \<Rightarrow> addr option" where
  "v6_body z s =
     (if has_prefix s ''::'' then
        if drop 2 s = [] then Some (IPv6 0 z) else v6_finish z (v6_loop [] (Some 0) (drop 2 s))
      else v6_finish z (v6_loop [] None s))"

definition parse_ipv6 :: "string \<Rightarrow> addr option" where
  "parse_ipv6 s =
     (case first_index CHR ''%'' s of
        None \<Rightarrow> v6_body [] s
      | Some i \<Rightarrow> if drop (Suc i) s = [] then None else v6_body (drop (Suc i) s) (take i s))"

text \<open>The first dot, colon or percent sign decides.\<close>

fun addr_kind :: "string \<Rightarrow> char option" where
  "addr_kind [] = None"
| "addr_kind (c # s) = (if c = CHR ''.'' \<or> c = CHR '':'' \<or> c = CHR ''%'' then Some c else addr_kind s)"

definition parse_addr :: "string \<Rightarrow> addr option" where
  "parse_addr s =
     (if addr_kind s = Some CHR ''.'' then parse_ipv4 s
      else if addr_kind s = Some CHR '':'' then parse_ipv6 s
      else None)"

definition parse_port :: "string \<Rightarrow> 16 word option" where
  "parse_port s = (case parse_uint s of Inl e \<Rightarrow> None | Inr v \<Rightarrow> if v < 65536 then Some (of_nat v) else None)"

definition parse_addr_port :: "string \<Rightarrow> addr_port option" where
  "parse_addr_port s =
     (case last_index CHR '':'' s of
        None \<Rightarrow> None
      | Some i \<Rightarrow>
          let ip = take i s; port = drop (Suc i) s in
          if ip = [] \<or> port = [] then None
          else if hd ip = CHR ''['' \<and> (length ip < 2 \<or> last ip \<noteq> CHR '']'') then None
          else (let v6 = (hd ip = CHR ''[''); ip = (if v6 then butlast (tl ip) else ip) in
            case (parse_port port, parse_addr ip) of
              (Some p, Some a) \<Rightarrow> if v6 = is4 a then None else Some (AddrPort a p)
            | _ \<Rightarrow> None))"

section \<open>Printing\<close>

fun hex16 :: "nat \<Rightarrow> string" where
  "hex16 n = (if n < 16 then [hex_digit n] else hex16 (n div 16) @ [hex_digit (n mod 16)])"

declare hex16.simps [simp del]

definition show4 :: "byte \<Rightarrow> byte \<Rightarrow> byte \<Rightarrow> byte \<Rightarrow> string" where
  "show4 a b c d = join_with ''.'' (map (\<lambda>x. udec (unat x)) [a, b, c, d])"

definition group :: "128 word \<Rightarrow> nat \<Rightarrow> nat" where
  "group w i = unat w div 65536 ^ (7 - i) mod 65536"

definition groups_of :: "128 word \<Rightarrow> nat list" where
  "groups_of w = map (group w) [0..<8]"

text \<open>The first longest run of at least two zero groups, as its start and length.\<close>

definition zero_run :: "nat list \<Rightarrow> nat \<times> nat" where
  "zero_run gs =
     foldl (\<lambda>(s, n) i. let l = length (takeWhile (\<lambda>g. g = 0) (drop i gs)) in if 2 \<le> l \<and> n < l then (i, l) else (s, n))
       (0, 0) [0..<length gs]"

definition show_groups :: "nat list \<Rightarrow> string" where
  "show_groups gs =
     (case zero_run gs of (s, n) \<Rightarrow>
        if n = 0 then join_with '':'' (map hex16 gs)
        else join_with '':'' (map hex16 (take s gs)) @ ''::'' @ join_with '':'' (map hex16 (drop (s + n) gs)))"

fun show_addr :: "addr \<Rightarrow> string" where
  "show_addr NoAddr = ''invalid IP''"
| "show_addr (IPv4 a b c d) = show4 a b c d"
| "show_addr (IPv6 w z) =
     (if is4in6 (IPv6 w z) then ''::ffff:'' @ show4 (low_octet 3 w) (low_octet 2 w) (low_octet 1 w) (low_octet 0 w)
      else show_groups (groups_of w))
     @ (if z = [] then [] else CHR ''%'' # z)"

definition show_addr_port :: "addr_port \<Rightarrow> string" where
  "show_addr_port ap =
     (case ap_addr ap of
        NoAddr \<Rightarrow> ''invalid AddrPort''
      | IPv4 a b c d \<Rightarrow> show_addr (ap_addr ap) @ '':'' @ udec (unat (ap_port ap))
      | IPv6 w z \<Rightarrow> ''['' @ show_addr (ap_addr ap) @ '']:'' @ udec (unat (ap_port ap)))"

section \<open>Binary forms\<close>

text \<open>Big-endian numbers of a fixed width.\<close>

fun be :: "nat \<Rightarrow> nat \<Rightarrow> byte list" where
  "be 0 v = []"
| "be (Suc n) v = be n (v div 256) @ [of_nat v]"

definition be_val :: "byte list \<Rightarrow> nat" where
  "be_val = foldl (\<lambda>v b. 256 * v + unat b) 0"

text \<open>The bytes of an address (\<^verbatim>\<open>AsSlice\<close>), and \<^verbatim>\<open>AddrFromSlice\<close>.\<close>

fun packed :: "addr \<Rightarrow> byte list" where
  "packed (IPv4 a b c d) = [a, b, c, d]"
| "packed (IPv6 w z) = be 16 (unat w)"
| "packed NoAddr = []"

definition addr_from_slice :: "byte list \<Rightarrow> addr option" where
  "addr_from_slice bs =
     (case bs of
        [a, b, c, d] \<Rightarrow> Some (IPv4 a b c d)
      | _ \<Rightarrow> if length bs = 16 then Some (IPv6 (of_nat (be_val bs)) []) else None)"

lemma length_be [simp]: "length (be n v) = n"
  by (induction n v rule: be.induct) auto

lemma be_val_be: "v < 256 ^ n \<Longrightarrow> be_val (be n v) = v"
proof (induction n v rule: be.induct)
  case (2 n v)
  then have "be_val (be n (v div 256)) = v div 256" by (simp add: less_mult_imp_div_less mult.commute)
  then show ?case by (simp add: be_val_def unsigned_of_nat take_bit_eq_mod)
qed (simp add: be_val_def)

lemma length_packed: "length (packed a) = addr_size a"
  by (cases a) simp_all

section \<open>Groups\<close>

abbreviation is_hex :: "char \<Rightarrow> bool" where
  "is_hex c \<equiv> hex_val c \<noteq> None"

lemma hex16_nonempty [simp]: "hex16 n \<noteq> []"
  by (subst hex16.simps) simp

lemma hex16_hex: "c \<in> set (hex16 n) \<Longrightarrow> is_hex c"
proof (induction n rule: hex16.induct)
  case (1 n)
  then show ?case by (cases "n < 16") (auto simp: hex16.simps [of n])
qed

lemma hex_num_hex16 [simp]: "hex_num (hex16 n) = n"
proof (induction n rule: hex16.induct)
  case (1 n)
  then show ?case by (cases "n < 16") (auto simp: hex16.simps [of n] hex_num_def)
qed

lemma length_hex16: "n < 16 ^ k \<Longrightarrow> 0 < k \<Longrightarrow> length (hex16 n) \<le> k"
proof (induction n arbitrary: k rule: hex16.induct)
  case (1 n)
  show ?case
  proof (cases "n < 16")
    case True
    then show ?thesis using "1.prems" by (simp add: hex16.simps [of n])
  next
    case False
    then have "1 < k" using "1.prems" by (cases "k = 1") auto
    then have "length (hex16 (n div 16)) \<le> k - 1"
      using "1.IH" [OF False, of "k - 1"] "1.prems"
      by (metis One_nat_def Suc_diff_1 less_mult_imp_div_less power_Suc2 zero_less_diff)
    then show ?thesis using False \<open>1 < k\<close> by (simp add: hex16.simps [of n])
  qed
qed

lemma hex_other [simp]: "hex_val CHR '':'' = None" "hex_val CHR ''.'' = None" "hex_val CHR ''%'' = None"
  by (simp_all add: hex_val_def)

lemma hex16_notin [simp]: "CHR '':'' \<notin> set (hex16 n)" "CHR ''.'' \<notin> set (hex16 n)" "CHR ''%'' \<notin> set (hex16 n)"
  using hex16_hex by force+

lemma hd_hex16 [simp]: "hd (hex16 n) \<noteq> CHR '':''"
  using hex16_notin(1) [of n] by (metis hd_in_set hex16_nonempty)

lemma hex_group_hex16:
  assumes "n < 65536" and "rest = [] \<or> \<not> is_hex (hd rest)"
  shows "hex_group (hex16 n @ rest) = Some (n, rest)"
proof -
  have "takeWhile is_hex rest = []" using assms(2) by (cases rest) auto
  moreover have "takeWhile is_hex (hex16 n @ rest) = hex16 n @ takeWhile is_hex rest"
    using hex16_hex by (intro takeWhile_append2) blast
  moreover have "length (hex16 n) \<le> 4" using length_hex16 [of n 4] assms(1) by simp
  ultimately show ?thesis by (simp add: hex_group_def)
qed

abbreviation show_list :: "nat list \<Rightarrow> string" where
  "show_list us \<equiv> join_with '':'' (map hex16 us)"

lemma show_list_nonempty [simp]: "us \<noteq> [] \<Longrightarrow> show_list us \<noteq> []"
  by (cases us rule: list.exhaust [case_product list.exhaust [of "tl us"]]) auto

lemma hd_show_list: "us \<noteq> [] \<Longrightarrow> hd (show_list us) = hd (hex16 (hd us))"
  by (cases "tl us"; cases us) auto

text \<open>The loop reads back a printed list of groups, and one with an ellipsis.\<close>

lemma loop_list:
  assumes "us \<noteq> []" and "\<forall>u \<in> set us. u < 65536" and "length gs + length us \<le> 8"
  shows "v6_loop gs ell (show_list us) = Some (gs @ us, ell, [])"
  using assms
proof (induction us arbitrary: gs)
  case (Cons u us)
  show ?case
  proof (cases us)
    case Nil
    then show ?thesis
      using Cons.prems hex_group_hex16 [of u "[]"] by (simp add: v6_loop.simps [of gs])
  next
    case (Cons v vs)
    let ?r = "show_list us"
    have "us \<noteq> []" using Cons by simp
    then have r: "?r \<noteq> []" "hd ?r \<noteq> CHR '':''" by (simp_all add: hd_show_list)
    then have "hex_group (hex16 u @ CHR '':'' # ?r) = Some (u, CHR '':'' # ?r)"
      using Cons.prems hex_group_hex16 [of u "CHR '':'' # ?r"] by simp
    moreover have "show_list (u # us) = hex16 u @ CHR '':'' # ?r" using Cons by simp
    ultimately show ?thesis
      using r Cons.IH [of "gs @ [u]"] Cons.prems Cons by (simp add: v6_loop.simps [of gs])
  qed
qed simp

lemma loop_ellipsis:
  assumes "us \<noteq> []" and "\<forall>u \<in> set (us @ vs). u < 65536" and "length gs + length us + length vs \<le> 8"
  shows "v6_loop gs None (show_list us @ ''::'' @ show_list vs) = Some (gs @ us @ vs, Some (length gs + length us), [])"
  using assms
proof (induction us arbitrary: gs)
  case (Cons u us)
  show ?case
  proof (cases us)
    case Nil
    have "hex_group (hex16 u @ ''::'' @ show_list vs) = Some (u, ''::'' @ show_list vs)"
      using Cons.prems hex_group_hex16 [of u "''::'' @ show_list vs"] by simp
    then show ?thesis
      using Cons.prems Nil loop_list [of vs "gs @ [u]"] by (cases "vs = []") (simp_all add: v6_loop.simps [of gs])
  next
    case (Cons v ws)
    let ?r = "show_list us @ ''::'' @ show_list vs"
    have "us \<noteq> []" using Cons by simp
    then have r: "show_list us \<noteq> []" "?r \<noteq> []" "hd ?r \<noteq> CHR '':''" by (simp_all add: hd_show_list)
    then have "hex_group (hex16 u @ CHR '':'' # ?r) = Some (u, CHR '':'' # ?r)"
      using Cons.prems hex_group_hex16 [of u "CHR '':'' # ?r"] by simp
    moreover have "show_list (u # us) @ ''::'' @ show_list vs = hex16 u @ CHR '':'' # ?r" using Cons by simp
    ultimately show ?thesis
      using r Cons.IH [of "gs @ [u]"] Cons.prems \<open>us \<noteq> []\<close> by (simp add: v6_loop.simps [of gs])
  qed
qed simp

section \<open>The run of zeros\<close>

definition run_ok :: "nat list \<Rightarrow> nat \<times> nat \<Rightarrow> bool" where
  "run_ok gs r \<longleftrightarrow> (case r of (s, n) \<Rightarrow> n = 0 \<or> 2 \<le> n \<and> s + n \<le> length gs \<and> take n (drop s gs) = replicate n 0)"

lemma zero_run_fold:
  assumes "\<forall>i \<in> set js. i \<le> length gs" and "run_ok gs r"
  shows "run_ok gs (foldl (\<lambda>(s, n) i. let l = length (takeWhile (\<lambda>g. g = 0) (drop i gs)) in
    if 2 \<le> l \<and> n < l then (i, l) else (s, n)) r js)"
  using assms
proof (induction js arbitrary: r)
  case (Cons i js)
  let ?t = "takeWhile (\<lambda>g. g = 0) (drop i gs)"
  have "?t = take (length ?t) (drop i gs)" by (rule takeWhile_eq_take)
  moreover have "?t = replicate (length ?t) 0" by (rule replicate_eqI) (auto dest: set_takeWhileD)
  moreover have "i + length ?t \<le> length gs"
  proof -
    have "length ?t \<le> length gs - i" using length_takeWhile_le [of "\<lambda>g. g = 0" "drop i gs"] by simp
    moreover have "i \<le> length gs" using Cons.prems(1) by simp
    ultimately show ?thesis by linarith
  qed
  ultimately have "2 \<le> length ?t \<Longrightarrow> run_ok gs (i, length ?t)" by (simp add: run_ok_def)
  then have "run_ok gs (case r of (s, n) \<Rightarrow> let l = length ?t in if 2 \<le> l \<and> n < l then (i, l) else (s, n))"
    using Cons.prems(2) by (auto simp: Let_def split: prod.splits)
  then show ?case using Cons.IH Cons.prems(1) by (cases r) simp
qed simp

lemma zero_run_ok: "run_ok gs (zero_run gs)"
  unfolding zero_run_def by (rule zero_run_fold) (simp_all add: run_ok_def)

lemma of_groups_zeros: "of_groups (replicate k 0) = 0"
proof -
  have "foldl (\<lambda>n g. 65536 * n + g) 0 (replicate k 0) = (0 :: nat)" by (induction k) auto
  then show ?thesis by (simp add: of_groups_def)
qed

text \<open>The text of eight groups is read back as these groups.\<close>

lemma v6_groups:
  assumes "length gs = 8" and "\<forall>g \<in> set gs. g < 65536"
  shows "v6_body z (show_groups gs) = Some (IPv6 (of_groups gs) z)"
proof -
  obtain s n where r: "zero_run gs = (s, n)" by fastforce
  have no: "\<not> has_prefix (show_list us @ t) ''::''" if "us \<noteq> []" for us t
  proof -
    have "hd (show_list us @ t) \<noteq> CHR '':''" using that by (simp add: hd_show_list)
    then show ?thesis by (cases "show_list us @ t") (auto simp: has_prefix_def)
  qed
  show ?thesis
  proof (cases "n = 0")
    case True
    have "gs \<noteq> []" using assms(1) by auto
    then show ?thesis using True r no [of gs "[]"] loop_list [of gs "[]" None] assms
      by (simp add: show_groups_def v6_body_def v6_finish_def)
  next
    case False
    let ?u = "take s gs" and ?v = "drop (s + n) gs"
    have z: "2 \<le> n" "s + n \<le> 8" "take n (drop s gs) = replicate n 0"
      using zero_run_ok [of gs] False assms(1) by (auto simp: r run_ok_def)
    then have gs: "gs = ?u @ replicate n 0 @ ?v" by (metis append_take_drop_id drop_drop add.commute)
    have u: "length ?u = s" and v: "length ?v = 8 - s - n" using z assms(1) by auto
    have small: "\<forall>g \<in> set (?u @ ?v). g < 65536" using assms(2) by (auto dest: in_set_takeD in_set_dropD)
    have "of_groups gs = of_groups (?u @ replicate n 0 @ ?v)" by (rule arg_cong [OF gs])
    then have fin: "v6_finish z (Some (?u @ ?v, Some s, [])) = Some (IPv6 (of_groups gs) z)"
      using z u v by (simp add: v6_finish_def)
    show ?thesis
    proof (cases "s = 0")
      case True
      show ?thesis
      proof (cases "?v = []")
        case True
        then have "n = 8" using v z \<open>s = 0\<close> by simp
        then have "gs = replicate 8 0" using z(3) \<open>s = 0\<close> assms(1) by simp
        then have "of_groups gs = 0" using of_groups_zeros by simp
        then show ?thesis using True \<open>s = 0\<close> False r by (simp add: show_groups_def v6_body_def has_prefix_def)
      next
        case v0: False
        have "v6_loop [] (Some 0) (show_list ?v) = Some (?v, Some 0, [])"
          using loop_list [OF v0, of "[]"] small v by simp
        then show ?thesis using fin True False r v0 by (simp add: show_groups_def v6_body_def has_prefix_def)
      qed
    next
      case s0: False
      then have "?u \<noteq> []" using z assms(1) by auto
      then show ?thesis
        using no [of ?u "''::'' @ show_list ?v"] loop_ellipsis [of ?u ?v "[]"] small u v fin False r z
        by (simp add: show_groups_def v6_body_def)
    qed
  qed
qed

section \<open>Words and groups\<close>

lemma foldl_digits:
  "foldl (\<lambda>n g. 65536 * n + g) 0 (map (\<lambda>i. (v :: nat) div 65536 ^ (k - i) mod 65536) [0..<Suc j]) = v div 65536 ^ (k - j) mod 65536 ^ Suc j"
  if "j \<le> k"
  using that
proof (induction j)
  case (Suc j)
  let ?v = "v div 65536 ^ (k - Suc j)"
  have "k - j = Suc (k - Suc j)" using Suc.prems by simp
  then have "v div 65536 ^ (k - j) = ?v div 65536" by (simp only: power_Suc2 div_mult2_eq)
  then have "foldl (\<lambda>n g. 65536 * n + g) 0 (map (\<lambda>i. v div 65536 ^ (k - i) mod 65536) [0..<Suc j]) = ?v div 65536 mod 65536 ^ Suc j"
    using Suc by simp
  moreover have "65536 * (?v div 65536 mod 65536 ^ Suc j) + ?v mod 65536 = ?v mod (65536 * 65536 ^ Suc j)"
    by (rule mod_mult2_eq [symmetric])
  ultimately show ?case by simp
qed simp

lemma of_groups_of [simp]: "of_groups (groups_of w) = w"
proof -
  have "unat w < 65536 ^ 8" using unsigned_less [of w] by simp
  moreover have "foldl (\<lambda>n g. 65536 * n + g) 0 (groups_of w) = unat w mod 65536 ^ 8"
    using foldl_digits [of 7 7 "unat w"] by (simp add: groups_of_def group_def [abs_def] eval_nat_numeral(3) [symmetric] del: upt_Suc)
  ultimately show ?thesis by (simp add: of_groups_def)
qed

lemma groups_of_small: "g \<in> set (groups_of w) \<Longrightarrow> g < 65536"
  by (auto simp: groups_of_def group_def)

lemma length_groups_of [simp]: "length (groups_of w) = 8"
  by (simp add: groups_of_def)

section \<open>IPv4\<close>

lemma parse_octet_udec [simp]: "parse_octet (udec (unat (x :: byte))) = Some (unat x)"
proof -
  have small: "unat x < 256" by (rule unat_byte_less)
  have zero: "CHR ''0'' = digit 0" by code_simp
  have "hd (udec n) = CHR ''0'' \<Longrightarrow> n = 0" for n
  proof (induction n rule: udec.induct)
    case (1 n)
    then show ?case by (cases "n < 10") (auto simp: udec.simps [of n] zero)
  qed
  then have "\<not> (1 < length (udec (unat x)) \<and> hd (udec (unat x)) = CHR ''0'')"
    by (metis One_nat_def length_Cons less_irrefl list.size(3) udec.simps zero_less_numeral)
  moreover have "parse_uint (udec (unat x)) = Inr (unat x)"
    using parse_digits_udec [of "unat x"] small by (simp add: parse_uint_def)
  moreover have "unat x \<le> 255" using small by linarith
  ultimately show ?thesis by (simp add: parse_octet_def)
qed

lemma udec_notin [simp]: "CHR ''.'' \<notin> set (udec n)" "CHR ''%'' \<notin> set (udec n)" "CHR ''['' \<notin> set (udec n)"
proof -
  have "\<not> is_digit CHR ''.''" "\<not> is_digit CHR ''%''" "\<not> is_digit CHR ''[''" by (simp_all add: is_digit_def)
  then show "CHR ''.'' \<notin> set (udec n)" "CHR ''%'' \<notin> set (udec n)" "CHR ''['' \<notin> set (udec n)"
    using udec_digits by blast+
qed

lemma ipv4_fields_show [simp]: "ipv4_fields (show4 a b c d) = Some (unat a, unat b, unat c, unat d)"
proof -
  have "split_on CHR ''.'' (show4 a b c d) = map (\<lambda>x. udec (unat x)) [a, b, c, d]"
    unfolding show4_def by (rule split_join) auto
  then show ?thesis by (simp add: ipv4_fields_def)
qed

section \<open>IPv4 in IPv6\<close>

lemma foldl_groups4:
  "foldl (\<lambda>n g. 65536 * n + g) 0 [0, 0, 0, 0, 0, 65535, 256 * a + b, 256 * c + (d :: nat)]
   = 65535 * 2 ^ 32 + (16777216 * a + 65536 * b + 256 * c + d)"
  by simp

lemma mapped_word:
  assumes "drop_bit 32 (w :: 128 word) = 0xFFFF"
  shows "of_groups [0, 0, 0, 0, 0, 65535, 256 * unat (low_octet 3 w) + unat (low_octet 2 w),
    256 * unat (low_octet 1 w) + unat (low_octet 0 w)] = w"
proof -
  let ?v = "unat w"
  have "unat (drop_bit 32 w) = 65535" using assms by simp
  then have top: "?v div 2 ^ 32 = 65535" unfolding unat_drop_bit_eq by (simp add: drop_bit_eq_div)
  have oct: "unat (low_octet i w) = ?v div 2 ^ (8 * i) mod 256" for i
    unfolding low_octet_def unsigned_ucast_eq unat_drop_bit_eq by (simp add: drop_bit_eq_div take_bit_eq_mod)
  have "?v = 65535 * 2 ^ 32 + ?v mod 2 ^ 32" using top div_mult_mod_eq [of ?v "2 ^ 32"] by simp
  moreover have "?v mod 2 ^ 32 = 16777216 * unat (low_octet 3 w) + 65536 * unat (low_octet 2 w)
      + 256 * unat (low_octet 1 w) + unat (low_octet 0 w)"
    unfolding oct by (simp add: mod_mult2_eq [of ?v 256 16777216, simplified] mod_mult2_eq [of "?v div 256" 256 65536, simplified]
        mod_mult2_eq [of "?v div 65536" 256 256, simplified] div_mult2_eq [symmetric] algebra_simps)
  ultimately have "foldl (\<lambda>n g. 65536 * n + g) 0 [0, 0, 0, 0, 0, 65535, 256 * unat (low_octet 3 w) + unat (low_octet 2 w),
    256 * unat (low_octet 1 w) + unat (low_octet 0 w)] = ?v" unfolding foldl_groups4 by linarith
  then show ?thesis by (simp add: of_groups_def del: foldl_Cons)
qed

lemma udec_hex: "c \<in> set (udec n) \<Longrightarrow> is_hex c"
  using udec_digits [of c n] by (auto simp: is_digit_def hex_val_def Let_def)

lemma length_udec: "n < 10 ^ k \<Longrightarrow> 0 < k \<Longrightarrow> length (udec n) \<le> k"
proof (induction n arbitrary: k rule: udec.induct)
  case (1 n)
  show ?case
  proof (cases "n < 10")
    case True
    then show ?thesis using "1.prems" by (simp add: udec.simps [of n])
  next
    case False
    then have "1 < k" using "1.prems" by (cases "k = 1") auto
    then have "length (udec (n div 10)) \<le> k - 1"
      using "1.IH" [OF False, of "k - 1"] "1.prems"
      by (metis One_nat_def Suc_diff_1 less_mult_imp_div_less power_Suc2 zero_less_diff)
    then show ?thesis using False \<open>1 < k\<close> by (simp add: udec.simps [of n])
  qed
qed

lemma hex_group_show4: "\<exists>g r. hex_group (show4 a b c d) = Some (g, CHR ''.'' # r)"
proof -
  let ?r = "join_with ''.'' (map (\<lambda>x. udec (unat x)) [b, c, d])"
  have "takeWhile is_hex (udec (unat a) @ CHR ''.'' # ?r) = udec (unat a) @ takeWhile is_hex (CHR ''.'' # ?r)"
    using udec_hex by (intro takeWhile_append2) blast
  moreover have "length (udec (unat a)) \<le> 3"
  proof (rule length_udec)
    show "unat a < 10 ^ 3" using unat_byte_less [of a] by (rule order_less_le_trans) simp
  qed simp
  moreover have "show4 a b c d = udec (unat a) @ CHR ''.'' # ?r" by (simp add: show4_def)
  ultimately show ?thesis by (simp add: hex_group_def)
qed

lemma v6_mapped:
  assumes "drop_bit 32 (w :: 128 word) = 0xFFFF"
  shows "v6_body z (''::ffff:'' @ show4 (low_octet 3 w) (low_octet 2 w) (low_octet 1 w) (low_octet 0 w)) = Some (IPv6 w z)"
proof -
  let ?t = "show4 (low_octet 3 w) (low_octet 2 w) (low_octet 1 w) (low_octet 0 w)"
  obtain g r where h: "hex_group ?t = Some (g, CHR ''.'' # r)" using hex_group_show4 by blast
  then have t: "?t \<noteq> []" "hd ?t \<noteq> CHR '':''" by (cases ?t; fastforce simp: hex_group_def Let_def)+
  have "hex_group (hex16 65535 @ CHR '':'' # ?t) = Some (65535, CHR '':'' # ?t)" by (simp add: hex_group_hex16)
  moreover have "hex_digit 15 = CHR ''f''" by code_simp
  then have "hex16 65535 = ''ffff''" by (simp add: hex16.simps)
  ultimately have f: "hex_group (CHR ''f'' # CHR ''f'' # CHR ''f'' # CHR ''f'' # CHR '':'' # ?t) = Some (65535, CHR '':'' # ?t)" by simp
  have "v6_loop [65535] (Some 0) ?t = Some ([65535, 256 * unat (low_octet 3 w) + unat (low_octet 2 w),
      256 * unat (low_octet 1 w) + unat (low_octet 0 w)], Some 0, [])"
    using h by (simp add: v6_loop.simps [of "[65535]"])
  then have "v6_loop [] (Some 0) (''ffff:'' @ ?t) = Some ([65535, 256 * unat (low_octet 3 w) + unat (low_octet 2 w),
      256 * unat (low_octet 1 w) + unat (low_octet 0 w)], Some 0, [])"
    using f t by (simp add: v6_loop.simps [of "[]"])
  moreover have "replicate 5 (0 :: nat) = [0, 0, 0, 0, 0]" by (simp add: numeral_eq_Suc)
  ultimately show ?thesis
    using mapped_word [OF assms] by (simp add: v6_body_def has_prefix_def v6_finish_def)
qed

section \<open>Parsing inverts printing\<close>

lemma addr_kind_skip: "\<forall>c \<in> set a. is_hex c \<Longrightarrow> addr_kind (a @ s) = addr_kind s"
  by (induction a) auto

lemma addr_kind_list: "2 \<le> length us \<or> us \<noteq> [] \<and> s = CHR '':'' # t \<Longrightarrow> addr_kind (show_list us @ s) = Some CHR '':''"
  using hex16_hex by (cases us rule: list.exhaust [case_product list.exhaust [of "tl us"]]) (auto simp: addr_kind_skip)

lemma addr_kind_groups: "length gs = 8 \<Longrightarrow> addr_kind (show_groups gs @ s) = Some CHR '':''"
proof (cases "zero_run gs")
  case (Pair i n)
  assume "length gs = 8"
  moreover have "addr_kind (show_list (take i gs) @ ''::'' @ t) = Some CHR '':''" for t
    by (cases "take i gs = []") (auto intro: addr_kind_list)
  ultimately show ?thesis using Pair addr_kind_list [of gs s] by (simp add: show_groups_def)
qed

lemma percent_notin_list: "CHR ''%'' \<notin> set (show_list us)"
  by (induction us rule: induct_list012) auto

lemma percent_notin_groups: "CHR ''%'' \<notin> set (show_groups gs)"
  using percent_notin_list by (auto simp: show_groups_def split: prod.splits)

lemma first_index_none: "c \<notin> set s \<Longrightarrow> first_index c s = None"
  by (induction s) auto

lemma first_index_append: "c \<notin> set a \<Longrightarrow> first_index c (a @ c # b) = Some (length a)"
  by (induction a) auto

lemma last_index_append: "c \<notin> set b \<Longrightarrow> last_index c (a @ c # b) = Some (length a)"
proof (induction a)
  case Nil
  have "c \<notin> set b \<Longrightarrow> last_index c b = None" by (induction b) auto
  then show ?case using Nil by simp
qed simp

lemma parse_ipv6_zone:
  assumes "CHR ''%'' \<notin> set t"
  shows "parse_ipv6 (t @ (if z = [] then [] else CHR ''%'' # z)) = v6_body z t"
  using assms by (simp add: parse_ipv6_def first_index_none first_index_append)

theorem parse_show_addr: "a \<noteq> NoAddr \<Longrightarrow> parse_addr (show_addr a) = Some a"
proof (cases a)
  case (IPv4 x y u v)
  have "addr_kind (show4 x y u v) = Some CHR ''.''"
    using udec_hex by (simp add: show4_def addr_kind_skip)
  then show ?thesis using IPv4 by (simp add: parse_addr_def parse_ipv4_def)
next
  case (IPv6 w z)
  let ?e = "if z = [] then [] else CHR ''%'' # z"
  show ?thesis
  proof (cases "is4in6 a")
    case True
    let ?t = "''::ffff:'' @ show4 (low_octet 3 w) (low_octet 2 w) (low_octet 1 w) (low_octet 0 w)"
    have "CHR ''%'' \<notin> set ?t" by (simp add: show4_def)
    then have "parse_ipv6 (?t @ ?e) = v6_body z ?t" by (rule parse_ipv6_zone)
    also have "\<dots> = Some (IPv6 w z)" by (rule v6_mapped) (use True IPv6 in simp)
    finally have "parse_ipv6 (?t @ ?e) = Some (IPv6 w z)" .
    then show ?thesis using True IPv6 by (simp add: parse_addr_def)
  next
    case False
    have "parse_ipv6 (show_groups (groups_of w) @ ?e) = Some (IPv6 w z)"
      using parse_ipv6_zone [OF percent_notin_groups] v6_groups [of "groups_of w" z] groups_of_small by simp
    moreover have "addr_kind (show_groups (groups_of w) @ ?e) = Some CHR '':''"
      by (rule addr_kind_groups) simp
    ultimately show ?thesis using False IPv6 by (simp add: parse_addr_def)
  qed
qed simp

lemma parse_port_udec [simp]: "parse_port (udec (unat (p :: 16 word))) = Some p"
proof -
  have "unat p < 65536" using unsigned_less [of p] by simp
  then show ?thesis using parse_digits_udec [of "unat p"] by (simp add: parse_port_def parse_uint_def)
qed

theorem parse_show_addr_port:
  assumes "ap_addr ap \<noteq> NoAddr"
  shows "parse_addr_port (show_addr_port ap) = Some ap"
proof (cases ap)
  case (AddrPort a p)
  show ?thesis
  proof (cases a)
    case (IPv4 x y u v)
    let ?t = "show_addr a"
    have "hd (udec (unat x)) \<noteq> CHR ''[''" by (metis hd_in_set udec_nonempty udec_notin(3))
    then have t: "?t \<noteq> []" "hd ?t \<noteq> CHR ''[''" using IPv4 by (simp_all add: show4_def)
    have "last_index CHR '':'' (?t @ CHR '':'' # udec (unat p)) = Some (length ?t)" by (rule last_index_append) simp
    then show ?thesis using t parse_show_addr [of a] AddrPort IPv4
      by (simp add: parse_addr_port_def show_addr_port_def)
  next
    case (IPv6 w z)
    let ?t = "CHR ''['' # show_addr a @ '']''"
    have "last_index CHR '':'' (?t @ CHR '':'' # udec (unat p)) = Some (length ?t)" by (rule last_index_append) simp
    then show ?thesis using parse_show_addr [of a] AddrPort IPv6
      by (simp add: parse_addr_port_def show_addr_port_def del: show_addr.simps)
  qed (use assms AddrPort in simp)
qed

end
