(* ===== verification/Certificates.thy ===== *)
theory Certificates
  imports Sessions Net_Text
begin

text \<open>
  The relay's certificate: \<^verbatim>\<open>loadOrCreateCertificate\<close> and \<^verbatim>\<open>createCertificate\<close> of \<^verbatim>\<open>internal/relay/server.go\<close>, with the part
  of \<^verbatim>\<open>crypto/x509\<close> that decides about names, the PEM encoding and the calendar step of \<^verbatim>\<open>AddDate(1, 0, 0)\<close>. The certificate
  files are a map from paths to contents. Signing, the DER encoding and the pairing of a
  certificate with its key are the functions of the record \<open>x509\<close>, with their laws in \<open>x509_ok\<close>.
\<close>

section \<open>Names in certificates\<close>

record certificate =
  SerialNumber :: int
  CommonName :: string
  DNSNames :: "string list"
  NotBefore :: time
  NotAfter :: time
  KeyUsage :: string
  ExtKeyUsage :: "string list"

definition lower_ascii :: "char \<Rightarrow> char" where
  "lower_ascii c = (if CHR ''A'' \<le> c \<and> c \<le> CHR ''Z'' then char_of ((of_char c :: nat) + 32) else c)"

definition trim_dot :: "string \<Rightarrow> string" where
  "trim_dot s = (if s \<noteq> [] \<and> last s = CHR ''.'' then butlast s else s)"

definition name_char :: "char \<Rightarrow> bool" where
  "name_char c \<longleftrightarrow> CHR ''a'' \<le> c \<and> c \<le> CHR ''z'' \<or> CHR ''0'' \<le> c \<and> c \<le> CHR ''9'' \<or> CHR ''A'' \<le> c \<and> c \<le> CHR ''Z'' \<or> c = CHR ''_''"

definition name_part :: "string \<Rightarrow> bool" where
  "name_part p \<longleftrightarrow> p \<noteq> [] \<and> name_char (hd p) \<and> list_all (\<lambda>c. name_char c \<or> c = CHR ''-'') (tl p)"

definition validHostname :: "bool \<Rightarrow> string \<Rightarrow> bool" where
  "validHostname isPattern host =
     (let host = (if isPattern then host else trim_dot host); parts = split_on CHR ''.'' host in
      host \<noteq> [] \<and> host \<noteq> ''*'' \<and> (isPattern \<and> hd parts = ''*'' \<or> name_part (hd parts)) \<and> list_all name_part (tl parts))"

definition matchHostnames :: "string \<Rightarrow> string \<Rightarrow> bool" where
  "matchHostnames pattern host =
     (let pattern = map lower_ascii pattern; host = map lower_ascii (trim_dot host);
          ps = split_on CHR ''.'' pattern; hs = split_on CHR ''.'' host in
      pattern \<noteq> [] \<and> host \<noteq> [] \<and> length ps = length hs \<and> (hd ps = ''*'' \<or> hd ps = hd hs) \<and> tl ps = tl hs)"

definition matchExactly :: "string \<Rightarrow> string \<Rightarrow> bool" where
  "matchExactly hostA hostB \<longleftrightarrow>
     hostA \<noteq> [] \<and> hostA \<noteq> ''.'' \<and> hostB \<noteq> [] \<and> hostB \<noteq> ''.'' \<and> map lower_ascii hostA = map lower_ascii hostB"

text \<open>\<^verbatim>\<open>net.ParseIP\<close> as a test; a name in brackets is tested without them.\<close>

definition is_ip :: "string \<Rightarrow> bool" where
  "is_ip s \<longleftrightarrow> (case parse_addr s of None \<Rightarrow> False | Some a \<Rightarrow> zone a = [])"

definition ip_literal :: "string \<Rightarrow> bool" where
  "ip_literal h = is_ip (if 3 \<le> length h \<and> hd h = CHR ''['' \<and> last h = CHR '']'' then butlast (tl h) else h)"

text \<open>\<^verbatim>\<open>VerifyHostname\<close>; the certificates here carry no IP addresses, so an IP literal never matches.\<close>

definition VerifyHostname :: "certificate \<Rightarrow> string \<Rightarrow> bool" where
  "VerifyHostname c h =
     (if ip_literal h then False
      else (let candidate = map lower_ascii h in
        list_ex (\<lambda>m. if validHostname False candidate \<and> validHostname True m then matchHostnames m candidate
                     else matchExactly m candidate) (DNSNames c)))"

text \<open>A server name that its own certificate is good for.\<close>

definition usable_name :: "string \<Rightarrow> bool" where
  "usable_name h \<longleftrightarrow> h \<noteq> [] \<and> h \<noteq> ''.'' \<and> \<not> ip_literal h"

section \<open>One year\<close>

text \<open>\<^verbatim>\<open>AddDate(1, 0, 0)\<close> in a location with the offset \<open>off\<close>: the year of the date counted from the first of March
  has 366 days when it ends in a leap year.\<close>

definition march_year :: "int \<Rightarrow> int" where
  "march_year z =
     (let era = z div 146097; doe = z mod 146097
      in (doe - doe div 1460 + doe div 36524 - doe div 146096) div 365 + era * 400)"

definition leap_year :: "int \<Rightarrow> bool" where
  "leap_year y \<longleftrightarrow> y mod 4 = 0 \<and> (y mod 100 \<noteq> 0 \<or> y mod 400 = 0)"

abbreviation day :: duration where
  "day \<equiv> 86400 * second"

definition add_year :: "int \<Rightarrow> time \<Rightarrow> time" where
  "add_year off t =
     t + (if leap_year (march_year ((t + off * second) div day + 719468) + 1) then 366 else 365) * day"

section \<open>Files and encodings\<close>

text \<open>A file is missing, or unreadable with an error, or has a content. A write succeeds, fails before it
  touches the file, or is cut short.\<close>

type_synonym fs = "(string, (string, string) result) gomap"

datatype write_result = Wrote | NotWritten | Cut string

definition write_file :: "write_result \<Rightarrow> string \<Rightarrow> string \<Rightarrow> fs \<Rightarrow> fs \<times> bool" where
  "write_file w path content fs =
     (case w of
        Wrote \<Rightarrow> (set_map path (Inr content) fs, True)
      | NotWritten \<Rightarrow> (fs, False)
      | Cut part \<Rightarrow> (set_map path (Inr part) fs, False))"

text \<open>\<^verbatim>\<open>pem.EncodeToMemory\<close> without headers: lines of 64 characters.\<close>

fun pem_lines :: "nat \<Rightarrow> string \<Rightarrow> string" where
  "pem_lines n [] = (if n = 0 then [] else [CHR 0x0A])"
| "pem_lines n (c # s) = (if n = 63 then c # CHR 0x0A # pem_lines 0 s else c # pem_lines (Suc n) s)"

definition pem_encode :: "string \<Rightarrow> byte list \<Rightarrow> string" where
  "pem_encode ty der = ''-----BEGIN '' @ ty @ ''-----'' @ [CHR 0x0A] @ pem_lines 0 (b64_encode der)
     @ ''-----END '' @ ty @ ''-----'' @ [CHR 0x0A]"

definition contains :: "string \<Rightarrow> string \<Rightarrow> bool" where
  "contains s t \<longleftrightarrow> list_ex (\<lambda>k. has_prefix (drop k s) t) [0..<Suc (length s)]"

section \<open>Certificates\<close>

record 'k x509 =
  x_create :: "certificate \<Rightarrow> 'k \<Rightarrow> byte list option"
  x_marshal :: "'k \<Rightarrow> byte list option"
  x_parse :: "byte list \<Rightarrow> certificate option"
  x_pair :: "string \<Rightarrow> string \<Rightarrow> (string, byte list list) result"

datatype cert_err =
    PathsRequired | NoLeaf | LoadErr string | KeyErr | CreateErr | MarshalErr | MkdirErr | WriteErr | PairErr string

text \<open>The surroundings of \<^verbatim>\<open>createCertificate\<close>: the generated key, the clock and its zone, and what the file operations come to.\<close>

record 'k cert_env =
  ce_load :: time
  ce_key :: "'k option"
  ce_now :: time
  ce_zone :: int
  ce_mkdir_cert :: bool
  ce_mkdir_key :: bool
  ce_write_cert :: write_result
  ce_write_key :: write_result

definition template :: "'k cert_env \<Rightarrow> Config \<Rightarrow> certificate" where
  "template env cfg =
     \<lparr>SerialNumber = ce_now env, CommonName = ServerName cfg, DNSNames = [ServerName cfg],
      NotBefore = ce_now env - 60 * second, NotAfter = add_year (ce_zone env) (ce_now env),
      KeyUsage = ''digitalSignature'', ExtKeyUsage = [''serverAuth'']\<rparr>"

definition createCertificate ::
  "'k x509 \<Rightarrow> 'k cert_env \<Rightarrow> Config \<Rightarrow> fs \<Rightarrow> fs \<times> (cert_err, byte list list \<times> byte list) result" where
  "createCertificate X env cfg fs =
     (case ce_key env of
        None \<Rightarrow> (fs, Inl KeyErr)
      | Some key \<Rightarrow>
        (case x_create X (template env cfg) key of
           None \<Rightarrow> (fs, Inl CreateErr)
         | Some der \<Rightarrow>
           (case x_marshal X key of
              None \<Rightarrow> (fs, Inl MarshalErr)
            | Some keyDER \<Rightarrow>
                if \<not> ce_mkdir_cert env \<or> \<not> ce_mkdir_key env then (fs, Inl MkdirErr)
                else (let certPEM = pem_encode ''CERTIFICATE'' der; keyPEM = pem_encode ''PRIVATE KEY'' keyDER in
                  case write_file (ce_write_cert env) (CertificatePath cfg) certPEM fs of
                    (fs1, False) \<Rightarrow> (fs1, Inl WriteErr)
                  | (fs1, True) \<Rightarrow>
                     (case write_file (ce_write_key env) (PrivateKeyPath cfg) keyPEM fs1 of
                        (fs2, False) \<Rightarrow> (fs2, Inl WriteErr)
                      | (fs2, True) \<Rightarrow>
                          (fs2, case x_pair X certPEM keyPEM of
                                  Inl e \<Rightarrow> Inl (PairErr e)
                                | Inr chain \<Rightarrow> Inr (chain, der)))))))"

text \<open>\<^verbatim>\<open>tls.LoadX509KeyPair\<close>: \<open>Inl None\<close> when a file does not exist, else the error text.\<close>

definition LoadX509KeyPair :: "'k x509 \<Rightarrow> string \<Rightarrow> string \<Rightarrow> fs \<Rightarrow> (string option, byte list list) result" where
  "LoadX509KeyPair X certFile keyFile fs =
     (case get_map fs certFile of
        None \<Rightarrow> Inl None
      | Some (Inl e) \<Rightarrow> Inl (Some e)
      | Some (Inr certPEM) \<Rightarrow>
        (case get_map fs keyFile of
           None \<Rightarrow> Inl None
         | Some (Inl e) \<Rightarrow> Inl (Some e)
         | Some (Inr keyPEM) \<Rightarrow> (case x_pair X certPEM keyPEM of Inl e \<Rightarrow> Inl (Some e) | Inr chain \<Rightarrow> Inr chain)))"

definition reusable :: "'k x509 \<Rightarrow> 'k cert_env \<Rightarrow> Config \<Rightarrow> byte list \<Rightarrow> bool" where
  "reusable X env cfg der \<longleftrightarrow>
     (case x_parse X der of
        None \<Rightarrow> False
      | Some leaf \<Rightarrow> ce_load env + day < NotAfter leaf \<and> VerifyHostname leaf (ServerName cfg))"

definition loadOrCreateCertificate ::
  "'k x509 \<Rightarrow> 'k cert_env \<Rightarrow> Config \<Rightarrow> fs \<Rightarrow> fs \<times> (cert_err, byte list list \<times> byte list) result" where
  "loadOrCreateCertificate X env cfg fs =
     (if CertificatePath cfg = [] \<or> PrivateKeyPath cfg = [] then (fs, Inl PathsRequired)
      else (case LoadX509KeyPair X (CertificatePath cfg) (PrivateKeyPath cfg) fs of
        Inr cert \<Rightarrow>
          (case cert of
             [] \<Rightarrow> (fs, Inl NoLeaf)
           | leaf # _ \<Rightarrow>
               if reusable X env cfg leaf then (fs, Inr (cert, leaf))
               else createCertificate X env cfg fs)
      | Inl None \<Rightarrow> createCertificate X env cfg fs
      | Inl (Some e) \<Rightarrow>
          if contains e ''no such file'' then createCertificate X env cfg fs else (fs, Inl (LoadErr e))))"

section \<open>A certificate is good for the name it was made for\<close>

lemma of_char_lower:
  "(of_char (lower_ascii c) :: nat) = (if 65 \<le> (of_char c :: nat) \<and> (of_char c :: nat) \<le> 90 then of_char c + 32 else of_char c)"
  by (simp add: lower_ascii_def less_eq_char_def)

lemma lower_idem [simp]: "lower_ascii (lower_ascii c) = lower_ascii c"
  by (simp add: of_char_lower flip: of_char_eq_iff [where 'a = nat])

lemma lower_dot [simp]: "lower_ascii c = CHR ''.'' \<longleftrightarrow> c = CHR ''.''"
  by (auto simp: of_char_lower simp flip: of_char_eq_iff [where 'a = nat])

lemma split_on_last: "s \<noteq> [] \<Longrightarrow> last s = c \<Longrightarrow> \<exists>p ps. split_on c s = p # ps @ [[]]"
proof (induction s)
  case (Cons x s)
  show ?case
  proof (cases "s = []")
    case False
    then obtain p ps where "split_on c s = p # ps @ [[]]" using Cons by auto
    then show ?thesis by (cases "x = c") (auto intro: exI [of _ "p # ps"])
  qed (use Cons.prems in simp)
qed simp

lemma pattern_no_dot: "validHostname True n \<Longrightarrow> last n \<noteq> CHR ''.''"
  using split_on_last [of n "CHR ''.''"] by (auto simp: validHostname_def Let_def name_part_def)

lemma VerifyHostname_own:
  assumes "DNSNames c = [n]"
  shows "VerifyHostname c n \<longleftrightarrow> usable_name n"
proof (cases "validHostname False (map lower_ascii n) \<and> validHostname True n")
  case True
  then have n: "n \<noteq> []" by (simp add: validHostname_def Let_def)
  have d: "last n \<noteq> CHR ''.''" using pattern_no_dot True by blast
  then have "n \<noteq> ''.''" by auto
  moreover have "trim_dot (map lower_ascii n) = map lower_ascii n" using n d by (simp add: trim_dot_def last_map)
  ultimately show ?thesis using True n assms
    by (simp add: VerifyHostname_def usable_name_def matchHostnames_def Let_def comp_def)
next
  case False
  have "map lower_ascii n = ''.'' \<longleftrightarrow> n = ''.''" by (auto simp: map_eq_Cons_conv)
  then show ?thesis using False assms
    by (auto simp: VerifyHostname_def usable_name_def matchExactly_def comp_def)
qed

section \<open>The certificate survives restarts\<close>

text \<open>What the code relies on: an encoded certificate parses to its template, with times cut to seconds, and
  the two PEM texts of one creation belong together.\<close>

definition encoded :: "certificate \<Rightarrow> certificate" where
  "encoded t = t\<lparr>NotBefore := NotBefore t div second * second, NotAfter := NotAfter t div second * second\<rparr>"

definition x509_ok :: "'k x509 \<Rightarrow> bool" where
  "x509_ok X \<longleftrightarrow>
     (\<forall>t k der. x_create X t k = Some der \<longrightarrow> x_parse X der = Some (encoded t)
        \<and> (\<forall>kd. x_marshal X k = Some kd \<longrightarrow>
             x_pair X (pem_encode ''CERTIFICATE'' der) (pem_encode ''PRIVATE KEY'' kd) = Inr [der]))"

lemma createCertificate_ok:
  assumes "x509_ok X" and "createCertificate X env cfg fs = (fs', Inr (chain, der))"
  obtains key kd where "ce_key env = Some key" and "x_create X (template env cfg) key = Some der"
    and "x_marshal X key = Some kd" and "chain = [der]"
    and "fs' = set_map (PrivateKeyPath cfg) (Inr (pem_encode ''PRIVATE KEY'' kd))
                (set_map (CertificatePath cfg) (Inr (pem_encode ''CERTIFICATE'' der)) fs)"
  using assms
  by (auto simp: createCertificate_def x509_ok_def write_file_def Let_def
      split: option.splits if_splits prod.splits bool.splits sum.splits write_result.splits)

lemma created_loads:
  assumes "x509_ok X" and "createCertificate X env cfg fs = (fs', Inr (chain, der))"
    and "CertificatePath cfg \<noteq> PrivateKeyPath cfg"
  shows "LoadX509KeyPair X (CertificatePath cfg) (PrivateKeyPath cfg) fs' = Inr [der]"
    and "x_parse X der = Some (encoded (template env cfg))" and "chain = [der]"
proof -
  obtain key kd where k: "x_create X (template env cfg) key = Some der" "x_marshal X key = Some kd" "chain = [der]"
    "fs' = set_map (PrivateKeyPath cfg) (Inr (pem_encode ''PRIVATE KEY'' kd))
                (set_map (CertificatePath cfg) (Inr (pem_encode ''CERTIFICATE'' der)) fs)"
    using createCertificate_ok [OF assms(1,2)] by metis
  then have "x_pair X (pem_encode ''CERTIFICATE'' der) (pem_encode ''PRIVATE KEY'' kd) = Inr [der]"
    using assms(1) by (simp add: x509_ok_def)
  then show "LoadX509KeyPair X (CertificatePath cfg) (PrivateKeyPath cfg) fs' = Inr [der]"
    using k(4) assms(3) by (simp add: LoadX509KeyPair_def)
  show "x_parse X der = Some (encoded (template env cfg))" using k(1) assms(1) by (simp add: x509_ok_def)
  show "chain = [der]" by (rule k(3))
qed

lemma encoded_after: "NotAfter (encoded t) \<le> NotAfter t" "NotAfter t - second < NotAfter (encoded t)"
  using div_mult_mod_eq [of "NotAfter t" second] pos_mod_bound [of second "NotAfter t"] pos_mod_sign [of second "NotAfter t"]
  by (simp_all add: encoded_def)

lemma add_year_bounds: "t + 365 * day \<le> add_year off t" "add_year off t \<le> t + 366 * day"
  by (simp_all add: add_year_def)

lemma template_after:
  "ce_now env + 365 * day - second < NotAfter (encoded (template env cfg))"
  "NotAfter (encoded (template env cfg)) \<le> ce_now env + 366 * day"
  using encoded_after [of "template env cfg"] add_year_bounds [where t = "ce_now env" and off = "ce_zone env"]
  by (simp_all add: template_def)

lemma reusable_created:
  assumes "x_parse X der = Some (encoded (template env cfg))"
  shows "reusable X env' cfg der \<longleftrightarrow> ce_load env' + day < NotAfter (encoded (template env cfg)) \<and> usable_name (ServerName cfg)"
proof -
  have "DNSNames (encoded (template env cfg)) = [ServerName cfg]" by (simp add: encoded_def template_def)
  then show ?thesis using assms VerifyHostname_own by (simp add: reusable_def)
qed


text \<open>Whatever certificate a start serves is paired with its key, has at least a day to run, and is what the files
  hold for the next start.\<close>

theorem certificate_served:
  assumes "x509_ok X" and "loadOrCreateCertificate X env cfg fs = (fs', Inr (chain, der))"
    and "CertificatePath cfg \<noteq> PrivateKeyPath cfg" and "ce_load env \<le> ce_now env"
  shows "\<exists>leaf rest. chain = der # rest \<and> x_parse X der = Some leaf \<and> ce_load env + day < NotAfter leaf
    \<and> LoadX509KeyPair X (CertificatePath cfg) (PrivateKeyPath cfg) fs' = Inr chain"
proof (cases "fs' = fs \<and> LoadX509KeyPair X (CertificatePath cfg) (PrivateKeyPath cfg) fs = Inr chain
    \<and> reusable X env cfg der \<and> (\<exists>rest. chain = der # rest)")
  case True
  then show ?thesis by (auto simp: reusable_def split: option.splits)
next
  case False
  then have c: "createCertificate X env cfg fs = (fs', Inr (chain, der))"
    using assms(2) by (auto simp: loadOrCreateCertificate_def split: if_splits sum.splits list.splits option.splits)
  have "ce_load env + day < NotAfter (encoded (template env cfg))"
    using template_after(1) [of env cfg] assms(4) by linarith
  then show ?thesis using created_loads [OF assms(1) c assms(3)] by auto
qed

text \<open>C37: An interrupted renewal stops the relay. When a certificate is being replaced and the new certificate file is written but the
  key file is not, later starts find a certificate and a key that do not belong together and fail, at any
  time and however often they are tried, without touching the files.\<close>

theorem interrupted_renewal_sticks:
  assumes "ce_key env = Some key" and "x_create X (template env cfg) key = Some der" and "x_marshal X key = Some kd"
    and "ce_mkdir_cert env" and "ce_mkdir_key env" and "ce_write_cert env = Wrote" and "ce_write_key env = NotWritten"
    and "CertificatePath cfg \<noteq> []" and "PrivateKeyPath cfg \<noteq> []" and "CertificatePath cfg \<noteq> PrivateKeyPath cfg"
    and "get_map fs (PrivateKeyPath cfg) = Some (Inr oldKey)"
    and "x_pair X (pem_encode ''CERTIFICATE'' der) oldKey = Inl e" and "\<not> contains e ''no such file''"
  shows "\<exists>fs'. createCertificate X env cfg fs = (fs', Inl WriteErr)
    \<and> (\<forall>env'. loadOrCreateCertificate X env' cfg fs' = (fs', Inl (LoadErr e)))"
  using assms
  by (simp add: createCertificate_def write_file_def loadOrCreateCertificate_def LoadX509KeyPair_def Let_def)

section \<open>Concrete runs\<close>

definition demo_cfg :: Config where
  "demo_cfg = (srv_config demo_server)\<lparr>CertificatePath := ''cert.pem'', PrivateKeyPath := ''key.pem''\<rparr>"

definition demo_cert_env :: "nat cert_env" where
  "demo_cert_env = \<lparr>ce_load = 0, ce_key = Some 7, ce_now = 5, ce_zone = 0, ce_mkdir_cert = True, ce_mkdir_key = True,
     ce_write_cert = Wrote, ce_write_key = Wrote\<rparr>"

definition demo_x509 :: "nat x509" where
  "demo_x509 = \<lparr>x_create = (\<lambda>t k. if t = template demo_cert_env demo_cfg then Some [1] else None),
     x_marshal = (\<lambda>k. Some [2]),
     x_parse = (\<lambda>der. if der = [1] then Some (encoded (template demo_cert_env demo_cfg)) else None),
     x_pair = (\<lambda>c k. if c = pem_encode ''CERTIFICATE'' [1] \<and> k = pem_encode ''PRIVATE KEY'' [2] then Inr [[1]] else Inl ''mismatch'')\<rparr>"

definition demo_fs :: fs where
  "demo_fs = [(''cert.pem'', Inr (pem_encode ''CERTIFICATE'' [1])), (''key.pem'', Inr (pem_encode ''PRIVATE KEY'' [2]))]"

lemma demo_x509_ok: "x509_ok demo_x509"
  by (auto simp: x509_ok_def demo_x509_def)

lemma demo_paths [simp]:
  "CertificatePath demo_cfg = ''cert.pem''" "PrivateKeyPath demo_cfg = ''key.pem''" "ServerName demo_cfg = ''relay''"
  by (simp_all add: demo_cfg_def demo_server_def)

lemma demo_created: "createCertificate demo_x509 demo_cert_env demo_cfg [] = (demo_fs, Inr ([[1]], [1]))"
  by (simp add: createCertificate_def demo_cert_env_def [THEN arg_cong [where f = ce_key]]
      demo_cert_env_def [THEN arg_cong [where f = ce_mkdir_cert]] demo_cert_env_def [THEN arg_cong [where f = ce_mkdir_key]]
      demo_cert_env_def [THEN arg_cong [where f = ce_write_cert]] demo_cert_env_def [THEN arg_cong [where f = ce_write_key]]
      demo_x509_def write_file_def demo_fs_def)

lemma demo_usable: "usable_name ''relay''"
  by (simp add: usable_name_def ip_literal_def is_ip_def parse_addr_def)


theorem certificate_served_witness:
  "\<exists>leaf rest. [[1]] = [1] # rest \<and> x_parse demo_x509 [1] = Some leaf \<and> day < NotAfter leaf"
proof -
  have "loadOrCreateCertificate demo_x509 demo_cert_env demo_cfg [] = (demo_fs, Inr ([[1]], [1]))"
    using demo_created by (simp add: loadOrCreateCertificate_def LoadX509KeyPair_def)
  from certificate_served [OF demo_x509_ok this] show ?thesis by (auto simp: demo_cert_env_def)
qed

theorem interrupted_renewal_sticks_witness:
  "\<exists>fs'. createCertificate demo_x509 (demo_cert_env\<lparr>ce_write_key := NotWritten\<rparr>) demo_cfg [(''key.pem'', Inr ''old'')] = (fs', Inl WriteErr)
    \<and> loadOrCreateCertificate demo_x509 demo_cert_env demo_cfg fs' = (fs', Inl (LoadErr ''mismatch''))"
proof -
  let ?env = "demo_cert_env\<lparr>ce_write_key := NotWritten\<rparr>"
  have "template ?env demo_cfg = template demo_cert_env demo_cfg" by (simp add: template_def)
  then have created: "x_create demo_x509 (template ?env demo_cfg) 7 = Some [1]" "x_marshal demo_x509 7 = Some [2]"
    by (simp_all add: demo_x509_def)
  have pair: "x_pair demo_x509 (pem_encode ''CERTIFICATE'' [1]) ''old'' = Inl ''mismatch''"
    by (simp add: demo_x509_def pem_encode_def)
  have "\<not> contains ''mismatch'' ''no such file''" by (simp add: contains_def has_prefix_def)
  from interrupted_renewal_sticks [OF _ created _ _ _ _ _ _ _ _ pair this, of "[(''key.pem'', Inr ''old'')]"]
  show ?thesis by (auto simp: demo_cert_env_def)
qed

end
