(* ===== verification/Relay_Start.thy ===== *)
theory Relay_Start
  imports Certificates
begin

text \<open>
  \<^verbatim>\<open>Start\<close> of \<^verbatim>\<open>internal/relay/server.go\<close> and the CONNECT-UDP handler it installs, composed from the certificate, the access
  policy, the ticket authority, the connections, the target policy and the session counters.

  Arguments: the libraries of the components, what the system calls come to (the record \<open>start_env\<close>), and per request
  what \<^verbatim>\<open>masque.ParseProxyRequest\<close> returns and whether the target can be dialled. The QUIC server and the
  copying of datagrams are library code.
\<close>

section \<open>Start\<close>

record Metadata =
  RelayAddress :: string
  RelayServerName :: string
  RelayCertSHA256 :: string

record ('b, 'k, 'x) start_env =
  st_cert :: "'x cert_env"
  st_opened :: "'b tdb option"
  st_buckets :: bool
  st_now :: time
  st_desc :: "'k desc_env"
  st_serve :: serve_env
  st_listen :: bool

datatype start_err =
    BadName | BadListen | BadPublic | NotRoutable | CertificateErr cert_err | PolicyErr cfg_err | TicketsErr terr
  | ServeErr serve_err | TooLarge | ListenUDPErr

text \<open>The bytes of one group identifier, seven bits each.\<close>

function group_bytes :: "int \<Rightarrow> nat" where
  "group_bytes gid = (if gid \<ge> 128 then Suc (group_bytes (gid div 128)) else 1)"
  by pat_completeness auto
termination by (relation "measure nat") auto

declare group_bytes.simps [simp del]

definition announcement_size :: "bool \<Rightarrow> addr \<Rightarrow> string \<Rightarrow> int list \<Rightarrow> nat" where
  "announcement_size with_tickets host name groups =
     (if with_tickets then 3 else 4) + addr_size host + 6 + 32 + length name + sum_list (map group_bytes groups)
     + (if with_tickets then 160 else 96)"

definition literal_endpoint :: "string \<Rightarrow> addr_port option" where
  "literal_endpoint s =
     (case parse_addr_port s of
        None \<Rightarrow> None
      | Some ap \<Rightarrow> if \<not> is_valid (ap_addr ap) \<or> ap_port ap = 0 then None else Some ap)"

text \<open>The ticket authority of a relay in groups mode: opened, then served; its state when serving failed is
  closed by the deferred function.\<close>

definition start_tickets ::
  "'k lib \<Rightarrow> 'b bolt \<Rightarrow> ('b, 'k, 'x) start_env \<Rightarrow> accessPolicy
     \<Rightarrow> closing list \<times> (start_err, ('b, 'k) ticketAuthority option) result" where
  "start_tickets lib B env policy =
     (if Mode (config policy) \<noteq> ''groups'' then ([], Inr None)
      else (case newTicketAuthority lib B policy (st_opened env) (st_buckets env) (st_now env) (st_desc env) of
              Inl e \<Rightarrow> ([], Inl (TicketsErr e))
            | Inr A \<Rightarrow>
                (case serve (st_serve env) A of
                   (A', removed, Some e) \<Rightarrow> (authority_close A', Inl (ServeErr e))
                 | (A', removed, None) \<Rightarrow> ([], Inr (Some A')))))"

definition new_server :: "Config \<Rightarrow> bool \<Rightarrow> Server" where
  "new_server cfg tickets =
     \<lparr>srv_config = cfg,
      allowedTargets = map (\<lambda>t. AddrPort (unmap (ap_addr t)) (ap_port t)) (AllowedTargets cfg),
      activeByAddress = [], activeSessions = 0, closed = False, has_tickets = tickets, has_server = True, has_udp = True\<rparr>"

type_synonym ('b, 'k) running = "Server \<times> accessPolicy \<times> ('b, 'k) ticketAuthority option \<times> Metadata"

text \<open>The result: the certificate files, what was closed again, and the error or the running relay.\<close>

definition Start ::
  "'k lib \<Rightarrow> 'b bolt \<Rightarrow> 'x x509 \<Rightarrow> (string \<Rightarrow> url option) \<Rightarrow> ('b, 'k, 'x) start_env \<Rightarrow> Config \<Rightarrow> fs
     \<Rightarrow> fs \<times> closing list \<times> (start_err, ('b, 'k) running) result" where
  "Start lib B X parse env cfg0 fs =
     (let cfg = (if MaxSessions cfg0 \<le> 0 then cfg0\<lparr>MaxSessions := 256\<rparr> else cfg0) in
      if ServerName cfg = [] \<or> length (ServerName cfg) > 128 then (fs, [], Inl BadName)
      else (case literal_endpoint (ListenAddress cfg) of
        None \<Rightarrow> (fs, [], Inl BadListen)
      | Some listen \<Rightarrow>
        (case literal_endpoint (PublicAddress cfg) of
          None \<Rightarrow> (fs, [], Inl BadPublic)
        | Some public \<Rightarrow>
          if \<not> publiclyRoutable (ap_addr public) \<and> \<not> (AllowLocalAdvertise cfg \<and> is_loopback (ap_addr public))
          then (fs, [], Inl NotRoutable)
          else (case loadOrCreateCertificate X (st_cert env) cfg fs of
            (fs', Inl e) \<Rightarrow> (fs', [], Inl (CertificateErr e))
          | (fs', Inr (chain, leafDER)) \<Rightarrow>
            (let pin = hex_encode (sha256 lib leafDER) in
             case newAccessPolicy parse (sha256 lib) (Access cfg) pin of
               Inl e \<Rightarrow> (fs', [], Inl (PolicyErr e))
             | Inr policy \<Rightarrow>
               (case start_tickets lib B env policy of
                  (cs, Inl e) \<Rightarrow> (fs', cs, Inl e)
                | (_, Inr tickets) \<Rightarrow>
                  (let undo = (case tickets of None \<Rightarrow> [] | Some A \<Rightarrow> authority_close A) in
                   if announcement_size (tickets \<noteq> None) (ap_addr public) (ServerName cfg) (group_ids (Access cfg)) > 316
                   then (fs', undo, Inl TooLarge)
                   else if \<not> st_listen env then (fs', undo, Inl ListenUDPErr)
                   else (fs', [], Inr (new_server cfg (tickets \<noteq> None), policy, tickets,
                           \<lparr>RelayAddress = show_addr_port public, RelayServerName = ServerName cfg,
                            RelayCertSHA256 = pin\<rparr>)))))))))"

section \<open>The CONNECT-UDP handler\<close>

text \<open>A request: its authorization headers, the control header, the remote address, and the target text that
  \<^verbatim>\<open>ParseProxyRequest\<close> found, if the request is well-formed.\<close>

record udp_request =
  rq_auth :: auth_headers
  rq_control :: string
  rq_remote :: string
  rq_target :: "string option"

datatype outcome =
    Rejected auth_reply
  | NoContent
  | BadRequest
  | TargetDenied
  | RelayFull
  | BadGateway
  | Tunnel string addr_port

definition tunnel_source :: "string \<Rightarrow> string \<Rightarrow> string" where
  "tunnel_source remote account = (if account \<noteq> [] then ''account:'' @ account else sourceHost remote)"

definition parse_target :: "Server \<Rightarrow> string \<Rightarrow> addr_port option" where
  "parse_target s text =
     (case parse_addr_port text of
        None \<Rightarrow> None
      | Some t \<Rightarrow>
          let target = AddrPort (unmap (ap_addr t)) (ap_port t) in
          if targetAllowed s target then Some target else None)"

text \<open>The handler up to the proxying, and, on every other path, up to its return; \<open>dial\<close> tells whether the
  target can be dialled.\<close>

definition handle_connect_udp ::
  "'k lib \<Rightarrow> 'b bolt \<Rightarrow> 'k auth_env \<Rightarrow> bool \<Rightarrow> udp_request \<Rightarrow> accessPolicy
     \<Rightarrow> Server \<times> ('b, 'k) ticketAuthority option \<times> connectionAuthorization option
     \<Rightarrow> (Server \<times> ('b, 'k) ticketAuthority option \<times> connectionAuthorization option) \<times> outcome" where
  "handle_connect_udp lib B env dial rq policy st =
     (case st of (s, tickets, conn) \<Rightarrow>
      (case authorize lib B env (rq_auth rq) policy tickets conn of
        (tickets', conn', Deny r ch) \<Rightarrow> ((s, tickets', conn'), Rejected (Deny r ch))
      | (tickets', conn', Allow account expires) \<Rightarrow>
          if rq_control rq = ''authorize'' then ((s, tickets', conn'), NoContent)
          else (case rq_target rq of
            None \<Rightarrow> ((s, tickets', conn'), BadRequest)
          | Some text \<Rightarrow>
            (case parse_target s text of
              None \<Rightarrow> ((s, tickets', conn'), TargetDenied)
            | Some target \<Rightarrow>
              (let source = tunnel_source (rq_remote rq) account in
               case acquire s source of
                 (s', False) \<Rightarrow> ((s', tickets', conn'), RelayFull)
               | (s', True) \<Rightarrow>
                   if \<not> dial then ((release s' source, tickets', conn'), BadGateway)
                   else ((s', tickets', conn'), Tunnel source target))))))"

section \<open>Tunnels\<close>

lemma release_acquire:
  assumes "sessions_ok s" and "acquire s k = (s', True)"
  shows "release s' k = s"
proof -
  have ok: "counters_ok (activeSessions s) (activeByAddress s)" using assms(1) by (simp add: sessions_ok_def)
  have pos: "0 \<le> activeSessions s" using counters_length [OF ok] by linarith
  show ?thesis
  proof (cases "get_map (activeByAddress s) k")
    case None
    then have "del_map k (activeByAddress s) = activeByAddress s"
      by (auto intro: delete_id simp: map_of_eq_None_iff)
    then have "del_map k (set_map k v (activeByAddress s)) = activeByAddress s" for v by (simp add: delete_update_same)
    then show ?thesis using assms(2) None pos
      by (auto simp: acquire_def release_def get_num_def split: if_splits)
  next
    case (Some v)
    then have v: "1 \<le> v" using ok by (auto simp: counters_ok_def dest!: map_of_SomeD)
    have "set_map k v (set_map k (v + 1) (activeByAddress s)) = activeByAddress s"
      using Some by (simp add: update_triv)
    then show ?thesis using assms(2) Some v pos
      by (auto simp: acquire_def release_def get_num_def split: if_splits)
  qed
qed

text \<open>Every request leaves the session counters as it found them once it is over. A request that does not become a tunnel (refused, malformed,
  denied, over the limit, or with a target that cannot be dialled) leaves the server exactly as it was, and a tunnel takes one
  session that its end gives back, so that nothing leaks on any path.\<close>

theorem handler_leaks_nothing:
  assumes "sessions_ok s"
    and "handle_connect_udp lib B env dial rq p (s, tickets, conn) = ((s', tickets', conn'), out)"
  shows "case out of
      Tunnel source target \<Rightarrow> release s' source = s \<and> activeSessions s' = activeSessions s + 1 \<and> sessions_ok s'
    | _ \<Rightarrow> s' = s"
proof -
  have full: "acquire s k = (s1, False) \<Longrightarrow> s1 = s" for k s1 by (auto simp: acquire_def split: if_splits)
  have admitted: "acquire s k = (s1, True) \<Longrightarrow> release s1 k = s \<and> activeSessions s1 = activeSessions s + 1 \<and> sessions_ok s1" for k s1
  proof -
    assume a: "acquire s k = (s1, True)"
    then have "admit_session s k = Some s1" by (simp add: admit_session_def)
    with a show ?thesis using release_acquire [OF assms(1)] counters_inc [of "activeSessions s" "activeByAddress s" k] assms(1)
      by (auto simp: acquire_def sessions_ok_def split: if_splits)
  qed
  show ?thesis using assms(2) full admitted
    by (auto simp: handle_connect_udp_def Let_def split: prod.splits auth_reply.splits if_splits option.splits bool.splits)
qed

lemma conn_run_account:
  assumes "conn_run lib B p (a, ts, cl)"
  shows "authorizedUntil a = zero_time \<or> (\<exists>ident. address a = ''ticket:'' @ ident)"
  using assms
proof (induction "(a, ts, cl)" arbitrary: a ts cl rule: conn_run.induct)
  case (accept now remote q q' a t)
  then show ?case by (auto simp: connectionContext_def Let_def split: option.splits if_splits)
next
  case (keep a ts cl env hdr tickets tickets' a' r)
  then show ?case
    by (auto simp: authorize_def Let_def split: option.splits if_splits prod.splits sum.splits)
next
  case (rearm a ts cl env hdr tickets tickets' a' r t)
  then show ?case
    by (auto simp: authorize_def Let_def split: option.splits if_splits prod.splits sum.splits)
qed

lemma handler_tunnel:
  assumes "handle_connect_udp lib B env dial rq p (s, tickets, conn) = ((s', tickets', conn'), Tunnel source target)"
  obtains account expires host where
    "authorize lib B env (rq_auth rq) p tickets conn = (tickets', conn', Allow account expires)"
    and "rq_target rq = Some host" and "parse_target s host = Some target"
    and "source = tunnel_source (rq_remote rq) account" and "acquire s source = (s', True)" and "dial"
  using assms
  by (auto simp: handle_connect_udp_def Let_def split: prod.splits auth_reply.splits if_splits option.splits bool.splits)

lemma parse_target_ok:
  assumes "parse_target s host = Some t"
  shows "targetAllowed s t" and "unmap (ap_addr t) = ap_addr t"
  using assms by (auto simp: parse_target_def Let_def split: option.splits if_splits)

lemma acquire_ok:
  assumes "acquire s k = (s', True)"
  shows "\<not> closed s" and "activeSessions s < MaxSessions (srv_config s)" and "get_num (activeByAddress s) k < 8"
  using assms by (auto simp: acquire_def split: if_splits)

text \<open>C5: End to end, a tunnel is authorized and its target is allowed. In groups mode, whatever happened before on its connection,
  a request becomes a tunnel only without an identity proof, on an authorization that is still running or on a
  ticket that this very request redeemed; the session is counted under that ticket, within the limits; and the
  relay then talks to an address and port the target policy allows.\<close>

theorem tunnel_sound:
  assumes "Mode (config p) = ''groups''" and "conn_run lib B p (a, ts, cl)" and "zero_time \<le> ae_now env"
    and "handle_connect_udp lib B env dial rq p (s, tickets, Some a) = ((s', tickets', conn'), Tunnel source target)"
  shows "\<exists>ident a'. conn' = Some a' \<and> source = ''account:ticket:'' @ ident \<and> address a' = ''ticket:'' @ ident
    \<and> RelayProof (rq_auth rq) = []
    \<and> (ae_now env < authorizedUntil a \<and> a' = a
       \<or> (\<exists>A A'. tickets = Some A \<and> redeem lib B p (ae_redeem env) (RelayTicket (rq_auth rq)) A = (A', Inr (ident, authorizedUntil a'))))
    \<and> targetAllowed s target \<and> unmap (ap_addr target) = ap_addr target
    \<and> \<not> closed s \<and> activeSessions s < MaxSessions (srv_config s) \<and> get_num (activeByAddress s) source < 8"
proof -
  obtain account expires host where h:
    "authorize lib B env (rq_auth rq) p tickets (Some a) = (tickets', conn', Allow account expires)"
    "parse_target s host = Some target" "source = tunnel_source (rq_remote rq) account" "acquire s source = (s', True)"
    using handler_tunnel [OF assms(4)] by metis
  have "RelayProof (rq_auth rq) = [] \<and> (\<exists>ident a'. conn' = Some a' \<and> account = ''ticket:'' @ ident \<and> address a' = account
    \<and> (ae_now env < authorizedUntil a \<and> a' = a
       \<or> (\<exists>A A'. tickets = Some A \<and> redeem lib B p (ae_redeem env) (RelayTicket (rq_auth rq)) A = (A', Inr (ident, authorizedUntil a')))))"
    using h(1) assms(1,3) conn_run_account [OF assms(2)]
    by (auto simp: authorize_def Let_def split: option.splits if_splits prod.splits sum.splits)
  then show ?thesis
    using h(3) parse_target_ok [OF h(2)] acquire_ok [OF h(4)] by (auto simp: tunnel_source_def)
qed

section \<open>Starting\<close>

lemma literal_endpoint_ok:
  assumes "literal_endpoint s = Some ap"
  shows "ap_addr ap \<noteq> NoAddr" and "ap_port ap \<noteq> 0" and "parse_addr_port s = Some ap"
  using assms by (auto simp: literal_endpoint_def is_valid_def split: option.splits if_splits)

lemma start_tickets_ok:
  assumes "start_tickets lib B env p = (cs, Inr tickets)"
  shows "cs = []" and "tickets \<noteq> None \<longleftrightarrow> Mode (config p) = ''groups''" and "tickets = Some A \<Longrightarrow> listener A"
  using assms by (auto simp: start_tickets_def serve_def Let_def split: if_splits sum.splits prod.splits option.splits)

lemma start_tickets_failed:
  assumes "start_tickets lib B env p = (cs, Inl e)"
  shows "cs = [] \<and> (\<exists>e'. e = TicketsErr e') \<or> CloseDB \<in> set cs"
  using assms by (auto simp: start_tickets_def authority_close_def split: if_splits sum.splits prod.splits option.splits)

lemma newAccessPolicy_fields:
  assumes "newAccessPolicy parse hash c pn = Inr p"
  shows "pin p = pn" and "Mode (config p) = ''groups'' \<longleftrightarrow> Mode c = ''groups''"
  using assms
  by (auto simp: newAccessPolicy_def policy_config_def validate_def Let_def split: sum.splits if_splits option.splits)

lemma start_facts:
  assumes "Start lib B X parse env cfg fs = (fs', cs, Inr (s, p, tickets, md))"
  shows "\<exists>public chain der cfg'. parse_addr_port (RelayAddress md) = Some public \<and> parse_addr_port (PublicAddress cfg) = Some public
    \<and> ap_port public \<noteq> 0
    \<and> (publiclyRoutable (ap_addr public) \<or> AllowLocalAdvertise cfg \<and> is_loopback (ap_addr public))
    \<and> loadOrCreateCertificate X (st_cert env) cfg' fs = (fs', Inr (chain, der)) \<and> cfg' = srv_config s
    \<and> RelayCertSHA256 md = hex_encode (sha256 lib der) \<and> pin p = RelayCertSHA256 md
    \<and> RelayServerName md = ServerName cfg \<and> 1 \<le> length (ServerName cfg) \<and> length (ServerName cfg) \<le> 128
    \<and> (tickets \<noteq> None \<longleftrightarrow> Mode (Access cfg) = ''groups'') \<and> (case tickets of None \<Rightarrow> True | Some A \<Rightarrow> listener A)
    \<and> announcement_size (Mode (Access cfg) = ''groups'') (ap_addr public) (ServerName cfg) (group_ids (Access cfg)) \<le> 316
    \<and> cs = [] \<and> \<not> closed s \<and> activeSessions s = 0 \<and> activeByAddress s = [] \<and> 0 < MaxSessions (srv_config s)"
proof -
  let ?c = "if MaxSessions cfg \<le> 0 then cfg\<lparr>MaxSessions := 256\<rparr> else cfg"
  have c: "ServerName ?c = ServerName cfg" "Access ?c = Access cfg" "PublicAddress ?c = PublicAddress cfg"
    "AllowLocalAdvertise ?c = AllowLocalAdvertise cfg" "0 < MaxSessions ?c" by simp_all
  obtain public chain der ts where h: "literal_endpoint (PublicAddress cfg) = Some public"
    "publiclyRoutable (ap_addr public) \<or> AllowLocalAdvertise cfg \<and> is_loopback (ap_addr public)"
    "loadOrCreateCertificate X (st_cert env) ?c fs = (fs', Inr (chain, der))"
    "newAccessPolicy parse (sha256 lib) (Access cfg) (hex_encode (sha256 lib der)) = Inr p"
    "start_tickets lib B env p = (ts, Inr tickets)"
    "announcement_size (tickets \<noteq> None) (ap_addr public) (ServerName cfg) (group_ids (Access cfg)) \<le> 316"
    "s = new_server ?c (tickets \<noteq> None)" "cs = []" "ServerName cfg \<noteq> []" "length (ServerName cfg) \<le> 128"
    "md = \<lparr>RelayAddress = show_addr_port public, RelayServerName = ServerName cfg, RelayCertSHA256 = hex_encode (sha256 lib der)\<rparr>"
    using assms unfolding Start_def Let_def c
    by (auto split: if_splits option.splits prod.splits sum.splits simp del: not_None_eq)
  note l = literal_endpoint_ok [OF h(1)] and t = start_tickets_ok [OF h(5)] and n = newAccessPolicy_fields [OF h(4)]
  have "1 \<le> length (ServerName cfg)" using h(9) by (cases "ServerName cfg") auto
  moreover have "tickets \<noteq> None \<longleftrightarrow> Mode (Access cfg) = ''groups''" using t(2) n(2) by simp
  ultimately show ?thesis
    using h l t(3) n(1) c(5) parse_show_addr_port [OF l(1)]
    by (intro exI [of _ public] exI [of _ chain] exI [of _ der] exI [of _ ?c])
       (auto simp: new_server_def split: option.splits)
qed


lemma start_endpoint:
  assumes "Start lib B X parse env cfg fs = (fs', cs, Inr (s, p, tickets, md))"
  shows "\<exists>public. parse_addr_port (RelayAddress md) = Some public \<and> RelayAddress md = show_addr_port public \<and> ap_addr public \<noteq> NoAddr"
proof -
  obtain public where "RelayAddress md = show_addr_port public" "ap_addr public \<noteq> NoAddr"
    using assms by (auto simp: Start_def Let_def literal_endpoint_def is_valid_def
        split: if_splits option.splits prod.splits sum.splits)
  then show ?thesis using parse_show_addr_port by auto
qed

lemma Start_failed:
  assumes "Start lib B X parse env cfg fs = (fs', cs, Inl e)" and "e \<in> {TooLarge, ListenUDPErr} \<union> range ServeErr"
  shows "\<exists>p pn. newAccessPolicy parse (sha256 lib) (Access cfg) pn = Inr p
    \<and> (start_tickets lib B env p = (cs, Inl e)
      \<or> (\<exists>ts k. start_tickets lib B env p = (ts, Inr k) \<and> cs = (case k of None \<Rightarrow> [] | Some A \<Rightarrow> authority_close A)))"
proof -
  let ?c = "if MaxSessions cfg \<le> 0 then cfg\<lparr>MaxSessions := 256\<rparr> else cfg"
  have c: "Access ?c = Access cfg" by simp
  show ?thesis using assms unfolding Start_def Let_def c
    by (auto split: if_splits option.splits prod.splits sum.splits)
qed

text \<open>A start that fails leaves nothing open. Once the ticket database was opened, every later failure closes it again,
  together with the listener of the authority if it was listening, and no socket of the relay was opened.\<close>

theorem start_failure_closes:
  assumes "Start lib B X parse env cfg fs = (fs', cs, Inl e)" and "e \<in> {TooLarge, ListenUDPErr} \<union> range ServeErr"
    and "Mode (Access cfg) = ''groups''"
  shows "CloseDB \<in> set cs \<and> (e \<in> {TooLarge, ListenUDPErr} \<longrightarrow> CloseListener \<in> set cs) \<and> CloseUDP \<notin> set cs"
proof -
  obtain p pn where p: "newAccessPolicy parse (sha256 lib) (Access cfg) pn = Inr p"
    and st: "start_tickets lib B env p = (cs, Inl e)
      \<or> (\<exists>ts k. start_tickets lib B env p = (ts, Inr k) \<and> cs = (case k of None \<Rightarrow> [] | Some A \<Rightarrow> authority_close A))"
    using Start_failed [OF assms(1,2)] by blast
  have groups: "Mode (config p) = ''groups''" using newAccessPolicy_fields(2) [OF p] assms(3) by simp
  from st show ?thesis
  proof
    assume "start_tickets lib B env p = (cs, Inl e)"
    then show ?thesis using assms(2) groups
      by (auto simp: start_tickets_def authority_close_def split: if_splits sum.splits prod.splits option.splits)
  next
    assume "\<exists>ts k. start_tickets lib B env p = (ts, Inr k) \<and> cs = (case k of None \<Rightarrow> [] | Some A \<Rightarrow> authority_close A)"
    then obtain ts k where k: "start_tickets lib B env p = (ts, Inr k)" "cs = (case k of None \<Rightarrow> [] | Some A \<Rightarrow> authority_close A)" by blast
    then obtain A where "k = Some A" "listener A" using start_tickets_ok [OF k(1)] groups by blast
    then show ?thesis using k(2) by (simp add: authority_close_def)
  qed
qed

section \<open>A worked example\<close>

definition demo_public :: addr_port where
  "demo_public = AddrPort (IPv4 93 184 216 34) 443"

definition demo_start_cfg :: Config where
  "demo_start_cfg = demo_cfg\<lparr>ListenAddress := show_addr_port (AddrPort (IPv4 0 0 0 0) 47322), PublicAddress := show_addr_port demo_public\<rparr>"

definition demo_start_env :: "((string, string) rbt, nat, nat) start_env" where
  "demo_start_env = \<lparr>st_cert = demo_cert_env, st_opened = Some demo_db, st_buckets = True, st_now = 100 * 3600 * second,
     st_desc = demo_desc_env, st_serve = \<lparr>se_lstat = None, se_dial = False, se_remove = True, se_listen = True, se_chmod = True\<rparr>,
     st_listen = True\<rparr>"

definition demo_pin :: string where
  "demo_pin = hex_encode (sha256 demo_lib [1])"

definition demo_start_policy :: accessPolicy where
  "demo_start_policy = demo_policy\<lparr>revision := policy_revision (sha256 demo_lib) demo_config, pin := demo_pin\<rparr>"

definition demo_start_auth :: "((string, string) rbt, nat) ticketAuthority" where
  "demo_start_auth = demo_auth\<lparr>authdb := demo_db\<lparr>metaB := RBT.insert ''latestEpoch'' (itoa 100) RBT.empty,
     keysB := RBT.insert (key_name demo_start_policy 100) (itoa 7) RBT.empty\<rparr>, tkeys := [(100, 7)], listener := True\<rparr>"

lemma demo_start_newpolicy: "newAccessPolicy demo_parse (sha256 demo_lib) demo_config demo_pin = Inr demo_start_policy"
  using demo_trim
  by (simp add: newAccessPolicy_def policy_config_def validate_def check_base_def demo_config_def demo_start_policy_def
      demo_parse_def demo_policy_def group_ids_def local_host_def Let_def)

lemma demo_start_tickets:
  "start_tickets demo_lib rbt_bolt (demo_start_env\<lparr>st_listen := l\<rparr>) demo_start_policy = ([], Inr (Some demo_start_auth))"
  by (simp add: start_tickets_def demo_start_env_def demo_start_policy_def demo_policy_def demo_config_def
      newTicketAuthority_def descriptor_def load_key_def db_update_def clock_tx_def latest_epoch_def prune_bucket_def
      put_key_def demo_start_auth_def demo_auth_def demo_db_def demo_desc_env_def epoch_of_def unix_def serve_def Let_def)

lemma demo_start_cert: "loadOrCreateCertificate demo_x509 demo_cert_env demo_start_cfg [] = (demo_fs, Inr ([[1]], [1]))"
proof -
  have same: "template demo_cert_env demo_start_cfg = template demo_cert_env demo_cfg"
    "CertificatePath demo_start_cfg = CertificatePath demo_cfg" "PrivateKeyPath demo_start_cfg = PrivateKeyPath demo_cfg"
    by (simp_all add: template_def demo_start_cfg_def)
  have "createCertificate demo_x509 demo_cert_env demo_start_cfg [] = createCertificate demo_x509 demo_cert_env demo_cfg []"
    unfolding createCertificate_def same ..
  then show ?thesis
    using demo_created by (simp add: loadOrCreateCertificate_def LoadX509KeyPair_def demo_start_cfg_def)
qed

lemma demo_endpoints:
  "literal_endpoint (ListenAddress demo_start_cfg) = Some (AddrPort (IPv4 0 0 0 0) 47322)"
  "literal_endpoint (PublicAddress demo_start_cfg) = Some demo_public"
  by (simp_all add: literal_endpoint_def demo_start_cfg_def parse_show_addr_port demo_public_def is_valid_def)

lemma demo_start_fields [simp]:
  "ServerName demo_start_cfg = ''relay''" "Access demo_start_cfg = demo_config" "MaxSessions demo_start_cfg = 2"
  by (simp_all add: demo_start_cfg_def demo_cfg_def demo_server_def)

lemma demo_routable: "publiclyRoutable (ap_addr demo_public)"
  by (simp add: demo_public_def publiclyRoutable_def is_valid_def addr_simps)

lemma demo_size: "announcement_size True (ap_addr demo_public) ''relay'' (group_ids demo_config) = 212"
  by (simp add: announcement_size_def demo_public_def group_ids_def demo_config_def group_bytes.simps)

lemma demo_start:
  "Start demo_lib rbt_bolt demo_x509 demo_parse (demo_start_env\<lparr>st_listen := l\<rparr>) demo_start_cfg [] =
     (if l then (demo_fs, [], Inr (new_server demo_start_cfg True, demo_start_policy, Some demo_start_auth,
        \<lparr>RelayAddress = show_addr_port demo_public, RelayServerName = ''relay'', RelayCertSHA256 = demo_pin\<rparr>))
      else (demo_fs, [CloseListener, CloseDB], Inl ListenUDPErr))"
proof -
  have env: "st_cert (demo_start_env\<lparr>st_listen := l\<rparr>) = demo_cert_env" by (simp add: demo_start_env_def)
  have cl: "authority_close demo_start_auth = [CloseListener, CloseDB]" by (simp add: authority_close_def demo_start_auth_def)
  show ?thesis
    unfolding Start_def env
    by (simp add: demo_endpoints demo_routable demo_start_cert demo_start_newpolicy [unfolded demo_pin_def] demo_start_tickets cl demo_size demo_pin_def)
qed


theorem start_failure_closes_witness: "CloseDB \<in> set [CloseListener, CloseDB]"
proof -
  have "Start demo_lib rbt_bolt demo_x509 demo_parse (demo_start_env\<lparr>st_listen := False\<rparr>) demo_start_cfg []
      = (demo_fs, [CloseListener, CloseDB], Inl ListenUDPErr)" using demo_start [of False] by simp
  from start_failure_closes [OF this] show ?thesis by (simp add: demo_config_def)
qed

definition demo_request :: udp_request where
  "demo_request = \<lparr>rq_auth = demo_hdr, rq_control = [], rq_remote = ''10.0.0.1:5'', rq_target = Some (show_addr_port demo_public)\<rparr>"

abbreviation demo_source :: string where
  "demo_source \<equiv> ''account:ticket:'' @ ticket_id demo_lib demo_msg"

lemma demo_target: "parse_target demo_server (show_addr_port demo_public) = Some demo_public"
  using demo_routable
  by (simp add: parse_target_def parse_show_addr_port demo_public_def targetAllowed_def is_valid_def Let_def addr_simps)

lemma demo_tunnel:
  "handle_connect_udp demo_lib rbt_bolt demo_auth_env True demo_request demo_policy (demo_server, Some demo_auth, Some demo_conn)
   = ((fst (acquire demo_server demo_source), Some (demo_auth\<lparr>authdb := demo_db2, tkeys := [(100, 7)]\<rparr>), Some demo_authorized),
      Tunnel demo_source demo_public)"
  using demo_authorize demo_target
  by (simp add: handle_connect_udp_def demo_request_def tunnel_source_def acquire_def demo_server_def get_num_def Let_def)

theorem handler_leaks_nothing_witness: "release (fst (acquire demo_server demo_source)) demo_source = demo_server"
proof -
  have "sessions_ok demo_server" by (simp add: sessions_ok_def demo_server_def)
  from handler_leaks_nothing [OF this demo_tunnel] show ?thesis by simp
qed

theorem tunnel_sound_witness:
  "RelayProof (rq_auth demo_request) = [] \<and> targetAllowed demo_server demo_public \<and> get_num (activeByAddress demo_server) demo_source < 8"
proof -
  have "zero_time \<le> ae_now demo_auth_env" by (simp add: zero_time_def demo_auth_env_def)
  from tunnel_sound [OF demo_groups demo_accept this demo_tunnel] show ?thesis by auto
qed

end
