(* ===== verification/Upnp.thy ===== *)
theory Upnp
  imports Target_Policy Net_Text
begin

text \<open>
  The port mapping of \<^verbatim>\<open>internal/upnp/mapping.go\<close>. A gateway client is the record of the four calls the code makes of the UPnP library, as
  functions on the state of the outside world \<open>'r\<close>; the three searches for gateways are
  arguments of \<^verbatim>\<open>Open\<close>.
\<close>

section \<open>Data\<close>

abbreviation defaultLeaseSeconds :: "32 word" where
  "defaultLeaseSeconds \<equiv> 7200"

text \<open>The arguments of a request for a mapping.\<close>

record add_args =
  aa_host :: string
  aa_external :: "16 word"
  aa_protocol :: string
  aa_internal :: "16 word"
  aa_client :: string
  aa_enabled :: bool
  aa_description :: string
  aa_lease :: "32 word"

record 'r gatewayClient =
  LocalAddr :: "byte list"
  GetExternalIPAddress :: "'r \<Rightarrow> 'r \<times> (string, string) result"
  AddPortMapping :: "add_args \<Rightarrow> 'r \<Rightarrow> 'r \<times> string option"
  DeletePortMapping :: "string \<Rightarrow> 16 word \<Rightarrow> string \<Rightarrow> 'r \<Rightarrow> 'r \<times> string option"

record 'r Mapping =
  mclient :: "'r gatewayClient"
  internalPort :: "16 word"
  externalPort :: "16 word"
  description :: string
  leaseSeconds :: "32 word"
  publicIP :: addr

datatype map_err = ReadExternal string | NonPublic string | NoLocalAddress | MapFailed "16 word" string

datatype failure = Discovery string | Gateway map_err

datatype open_err = PortZero | DiscoverFailed "string list" | NoGateway | NoUsable "failure list"

section \<open>Addresses\<close>

definition isPublicInternetAddress :: "addr \<Rightarrow> bool" where
  "isPublicInternetAddress address =
     (if \<not> is_valid address \<or> \<not> is_global_unicast address \<or> is_private address \<or> is_loopback address
         \<or> is_link_local_unicast address then False
      else case address of
        IPv4 a b c d \<Rightarrow> \<not> (a = 100 \<and> b \<ge> 64 \<and> b \<le> 127)
      | _ \<Rightarrow> True)"

text \<open>\<^verbatim>\<open>net.IP.String\<close>: an IPv4-mapped address prints as IPv4.\<close>

definition ip_string :: "byte list \<Rightarrow> string" where
  "ip_string ip =
     (if ip = [] then ''<nil>''
      else case addr_from_slice ip of None \<Rightarrow> ''?'' @ hex_encode ip | Some a \<Rightarrow> show_addr (unmap a))"

section \<open>One mapping\<close>

definition Mapping_PublicAddress :: "'r Mapping \<Rightarrow> addr_port" where
  "Mapping_PublicAddress m = AddrPort (publicIP m) (externalPort m)"

definition map_args :: "'r Mapping \<Rightarrow> add_args" where
  "map_args m = \<lparr>aa_host = [], aa_external = externalPort m, aa_protocol = ''UDP'', aa_internal = internalPort m,
     aa_client = ip_string (LocalAddr (mclient m)), aa_enabled = True, aa_description = description m,
     aa_lease = leaseSeconds m\<rparr>"

definition add :: "'r Mapping \<Rightarrow> 'r \<Rightarrow> 'r \<times> string option" where
  "add m = AddPortMapping (mclient m) (map_args m)"

definition Mapping_Close :: "'r Mapping \<Rightarrow> 'r \<Rightarrow> 'r \<times> string option" where
  "Mapping_Close m = DeletePortMapping (mclient m) [] (externalPort m) ''UDP''"

definition new_mapping :: "'r gatewayClient \<Rightarrow> 16 word \<Rightarrow> string \<Rightarrow> addr \<Rightarrow> 'r Mapping" where
  "new_mapping client port desc ip = \<lparr>mclient = client, internalPort = port, externalPort = port, description = desc,
     leaseSeconds = defaultLeaseSeconds, publicIP = unmap ip\<rparr>"

definition openWithClient ::
  "'r gatewayClient \<Rightarrow> 16 word \<Rightarrow> string \<Rightarrow> 'r \<Rightarrow> 'r \<times> (map_err, 'r Mapping) result" where
  "openWithClient client port desc r =
     (case GetExternalIPAddress client r of
        (r1, Inl e) \<Rightarrow> (r1, Inl (ReadExternal e))
      | (r1, Inr external) \<Rightarrow>
        (case parse_addr (trim_space external) of
           None \<Rightarrow> (r1, Inl (NonPublic external))
         | Some ip \<Rightarrow>
             if \<not> isPublicInternetAddress ip then (r1, Inl (NonPublic external))
             else (case addr_from_slice (LocalAddr client) of
                None \<Rightarrow> (r1, Inl NoLocalAddress)
              | Some l \<Rightarrow>
                  if \<not> is_valid l \<or> is_unspecified l then (r1, Inl NoLocalAddress)
                  else (let m = new_mapping client port desc ip in
                    case add m r1 of
                      (r2, Some e) \<Rightarrow> (r2, Inl (MapFailed port e))
                    | (r2, None) \<Rightarrow> (r2, Inr m)))))"

section \<open>Discovery\<close>

text \<open>The outcome of one search: clients, errors of single devices, and the error of the search.\<close>

type_synonym 'r search = "'r gatewayClient list \<times> string list \<times> string option"

definition discoverClients :: "'r search \<Rightarrow> 'r search \<Rightarrow> 'r search \<Rightarrow> 'r gatewayClient list \<times> string list \<times> string list" where
  "discoverClients ip2 ip1 ppp1 =
     (fst ip2 @ fst ip1 @ fst ppp1, fst (snd ip2) @ fst (snd ip1) @ fst (snd ppp1),
      List.map_filter (snd \<circ> snd) [ip2, ip1, ppp1])"

text \<open>The loop over the clients.\<close>

fun try_clients ::
  "16 word \<Rightarrow> string \<Rightarrow> failure list \<Rightarrow> 'r gatewayClient list \<Rightarrow> 'r \<Rightarrow> 'r \<times> (failure list, 'r Mapping) result" where
  "try_clients port desc failures [] r = (r, Inl failures)"
| "try_clients port desc failures (c # cs) r =
     (case openWithClient c port desc r of
        (r', Inr m) \<Rightarrow> (r', Inr m)
      | (r', Inl e) \<Rightarrow> try_clients port desc (failures @ [Gateway e]) cs r')"

definition Open_Mapping ::
  "16 word \<Rightarrow> string \<Rightarrow> 'r search \<Rightarrow> 'r search \<Rightarrow> 'r search \<Rightarrow> 'r \<Rightarrow> 'r \<times> (open_err, 'r Mapping) result" where
  "Open_Mapping port desc ip2 ip1 ppp1 r =
     (if port = 0 then (r, Inl PortZero)
      else (case discoverClients ip2 ip1 ppp1 of
        (clients, errs, fatal) \<Rightarrow>
          if fatal \<noteq> [] \<and> clients = [] then (r, Inl (DiscoverFailed fatal))
          else (case try_clients port desc (map Discovery errs) clients r of
            (r', Inr m) \<Rightarrow> (r', Inr m)
          | (r', Inl []) \<Rightarrow> (r', Inl NoGateway)
          | (r', Inl failures) \<Rightarrow> (r', Inl (NoUsable failures)))))"

section \<open>Maintenance\<close>

text \<open>The interval of the ticker: half the lease, at least ten minutes.\<close>

definition maintain_interval :: "'r Mapping \<Rightarrow> duration" where
  "maintain_interval m = max (uint (leaseSeconds m div 2) * second) (600 * second)"

datatype maintain_event = Tick | Done

text \<open>The loop over what the select receives; \<open>None\<close> while it is still waiting, else what \<^verbatim>\<open>Maintain\<close> returns.\<close>

fun Maintain :: "'r Mapping \<Rightarrow> maintain_event list \<Rightarrow> 'r \<Rightarrow> 'r \<times> string option option" where
  "Maintain m [] r = (r, None)"
| "Maintain m (Done # evs) r = (r, Some None)"
| "Maintain m (Tick # evs) r =
     (case add m r of
        (r', None) \<Rightarrow> Maintain m evs r'
      | (r', Some e) \<Rightarrow> (r', Some (Some e)))"

section \<open>Which addresses count as public\<close>

lemma routable_parts:
  assumes "publiclyRoutable a"
  shows "a \<noteq> NoAddr" and "\<not> is_unspecified (unmap a)" and "\<not> is_loopback a" and "\<not> is_multicast a"
    and "\<not> is_link_local_unicast a" and "\<not> is_private a" and "is4 (unmap a) \<Longrightarrow> \<not> reserved_octets (as4 (unmap a))"
  using assms by (simp_all add: publiclyRoutable_def Let_def is_valid_def classify_unmap split: if_splits)

lemma routable_global: "publiclyRoutable a \<Longrightarrow> is_global_unicast a"
proof -
  assume "publiclyRoutable a"
  note r = routable_parts [OF this]
  have "unmap a \<noteq> IPv4 255 255 255 255" using r(7) by auto
  then show ?thesis using r by (simp add: is_global_unicast_def Let_def is_unspecified_def classify_unmap)
qed

lemma routable_public: "publiclyRoutable a \<Longrightarrow> isPublicInternetAddress a"
proof -
  assume p: "publiclyRoutable a"
  note r = routable_parts [OF p] and g = routable_global [OF p]
  show ?thesis
  proof (cases a)
    case (IPv4 x y u v)
    then show ?thesis using r g by (auto simp: isPublicInternetAddress_def is_valid_def)
  qed (use r g in \<open>simp_all add: isPublicInternetAddress_def is_valid_def\<close>)
qed

lemma documentation_public: "isPublicInternetAddress (IPv4 192 0 2 1)" "\<not> publiclyRoutable (IPv4 192 0 2 1)"
  by (simp_all add: isPublicInternetAddress_def publiclyRoutable_def is_valid_def is_global_unicast_def Let_def addr_simps)

lemma mapped_cgnat: "unmap (IPv6 0xFFFF64400001 []) = IPv4 100 64 0 1"
  by (simp add: low_octet_def)

lemma cgnat_public: "isPublicInternetAddress (IPv6 0xFFFF64400001 [])" "\<not> isPublicInternetAddress (IPv4 100 64 0 1)"
  using mapped_cgnat
  by (simp_all add: isPublicInternetAddress_def is_valid_def is_global_unicast_def Let_def classify_IPv4
      is_private_def is_loopback_def is_link_local_unicast_def is_multicast_def del: unmap.simps)

lemma cgnat_not_routable: "\<not> publiclyRoutable (IPv6 0xFFFF64400001 [])"
  using mapped_cgnat by (simp add: publiclyRoutable_def Let_def del: unmap.simps)

text \<open>What the relay itself accepts as a public address, the port mapping accepts too, so that it never turns down a router the relay
  could be reached through. The converse does not hold: a documentation address passes, and so does an address of
  the carrier-grade NAT range when the router reports it in IPv6-mapped form; \<^verbatim>\<open>Start\<close> then refuses them.\<close>

theorem upnp_accepts_routable:
  "(publiclyRoutable a \<longrightarrow> isPublicInternetAddress a)
   \<and> isPublicInternetAddress (IPv4 192 0 2 1) \<and> \<not> publiclyRoutable (IPv4 192 0 2 1)
   \<and> isPublicInternetAddress (IPv6 0xFFFF64400001 []) \<and> unmap (IPv6 0xFFFF64400001 []) = IPv4 100 64 0 1
   \<and> \<not> isPublicInternetAddress (IPv4 100 64 0 1) \<and> \<not> publiclyRoutable (IPv6 0xFFFF64400001 [])"
  using routable_public documentation_public mapped_cgnat cgnat_public cgnat_not_routable by blast

theorem upnp_accepts_routable_witness: "isPublicInternetAddress (IPv4 8 8 8 8)"
proof -
  have "publiclyRoutable (IPv4 8 8 8 8)" by (simp add: publiclyRoutable_def is_valid_def addr_simps)
  with upnp_accepts_routable [of "IPv4 8 8 8 8"] show ?thesis by blast
qed

section \<open>Opening\<close>

lemma openWithClient_ok:
  assumes "openWithClient c port desc r = (r', Inr m)"
  obtains r1 external ip where "GetExternalIPAddress c r = (r1, Inr external)" and "parse_addr (trim_space external) = Some ip"
    and "isPublicInternetAddress ip" and "m = new_mapping c port desc ip" and "add m r1 = (r', None)"
    and "\<exists>l. addr_from_slice (LocalAddr c) = Some l \<and> \<not> is_unspecified l"
  using assms
  by (auto simp: openWithClient_def Let_def split: prod.splits sum.splits option.splits if_splits)

lemma try_clients_ok:
  assumes "try_clients port desc fs cs r = (r', Inr m)"
  shows "\<exists>pre c post r1 fs'. cs = pre @ c # post \<and> try_clients port desc fs pre r = (r1, Inl fs')
    \<and> length fs' = length fs + length pre \<and> openWithClient c port desc r1 = (r', Inr m)"
  using assms
proof (induction port desc fs cs r rule: try_clients.induct)
  case (2 port desc fs c cs r)
  show ?case
  proof (cases "openWithClient c port desc r")
    case (Pair r1 res)
    show ?thesis
    proof (cases res)
      case (Inr m')
      then show ?thesis using "2.prems" Pair by (intro exI [of _ "[]"]) auto
    next
      case (Inl e)
      then obtain pre d post r2 fs' where "cs = pre @ d # post" "try_clients port desc (fs @ [Gateway e]) pre r1 = (r2, Inl fs')"
          "length fs' = Suc (length fs + length pre)" "openWithClient d port desc r2 = (r', Inr m)"
        using "2.IH" [OF Pair [symmetric] Inl] "2.prems" Pair by auto
      then show ?thesis using Pair Inl by (intro exI [of _ "c # pre"]) auto
    qed
  qed
qed simp

text \<open>C32: \<^verbatim>\<open>Open\<close> returns the mapping of the first usable gateway. It asks the gateways in the order of discovery; the ones before failed. The
  mapping is for the requested port, which is not zero, inside and outside; it was just accepted by that gateway, for UDP and two hours; and its
  address, in its IPv4 form if it has one, is what the gateway reported and counts as public.\<close>

theorem open_first_usable:
  assumes "Open_Mapping port desc ip2 ip1 ppp1 r = (r', Inr m)"
  shows "port \<noteq> 0 \<and> (\<exists>pre c post r1 r2 fs external ip. fst ip2 @ fst ip1 @ fst ppp1 = pre @ c # post
    \<and> try_clients port desc (map Discovery (fst (snd ip2) @ fst (snd ip1) @ fst (snd ppp1))) pre r = (r1, Inl fs)
    \<and> GetExternalIPAddress c r1 = (r2, Inr external) \<and> parse_addr (trim_space external) = Some ip \<and> isPublicInternetAddress ip
    \<and> Mapping_PublicAddress m = AddrPort (unmap ip) port
    \<and> AddPortMapping c \<lparr>aa_host = [], aa_external = port, aa_protocol = ''UDP'', aa_internal = port,
        aa_client = ip_string (LocalAddr c), aa_enabled = True, aa_description = desc, aa_lease = 7200\<rparr> r2 = (r', None))"
proof -
  have "port \<noteq> 0" and t: "try_clients port desc (map Discovery (fst (snd ip2) @ fst (snd ip1) @ fst (snd ppp1)))
      (fst ip2 @ fst ip1 @ fst ppp1) r = (r', Inr m)"
    using assms by (auto simp: Open_Mapping_def discoverClients_def split: if_splits prod.splits sum.splits list.splits)
  then obtain pre c post r1 fs where c: "fst ip2 @ fst ip1 @ fst ppp1 = pre @ c # post"
      "try_clients port desc (map Discovery (fst (snd ip2) @ fst (snd ip1) @ fst (snd ppp1))) pre r = (r1, Inl fs)"
      "openWithClient c port desc r1 = (r', Inr m)"
    using try_clients_ok [OF t] by blast
  obtain r2 external ip where o: "GetExternalIPAddress c r1 = (r2, Inr external)" "parse_addr (trim_space external) = Some ip"
      "isPublicInternetAddress ip" "m = new_mapping c port desc ip" "add m r2 = (r', None)"
    using openWithClient_ok [OF c(3)] by metis
  have "Mapping_PublicAddress m = AddrPort (unmap ip) port" by (simp add: o(4) Mapping_PublicAddress_def new_mapping_def)
  moreover have "AddPortMapping c \<lparr>aa_host = [], aa_external = port, aa_protocol = ''UDP'', aa_internal = port,
        aa_client = ip_string (LocalAddr c), aa_enabled = True, aa_description = desc, aa_lease = 7200\<rparr> r2 = (r', None)"
    using o(5) by (simp add: o(4) add_def map_args_def new_mapping_def)
  ultimately show ?thesis using \<open>port \<noteq> 0\<close> c(1,2) o(1-3) by blast
qed

section \<open>Keeping the lease\<close>

text \<open>The state after some refreshes, all of which succeeded.\<close>

fun refreshed :: "'r Mapping \<Rightarrow> nat \<Rightarrow> 'r \<Rightarrow> 'r option" where
  "refreshed m 0 r = Some r"
| "refreshed m (Suc k) r = (case add m r of (r', None) \<Rightarrow> refreshed m k r' | (r', Some e) \<Rightarrow> None)"

lemma maintain_cases:
  "\<exists>k rest r1. refreshed m k r = Some r1 \<and>
     (case Maintain m evs r of
        (r', None) \<Rightarrow> evs = replicate k Tick \<and> r' = r1
      | (r', Some None) \<Rightarrow> evs = replicate k Tick @ Done # rest \<and> r' = r1
      | (r', Some (Some e)) \<Rightarrow> evs = replicate k Tick @ Tick # rest \<and> add m r1 = (r', Some e))"
proof (induction m evs r rule: Maintain.induct)
  case (1 m r)
  then show ?case by (intro exI [of _ 0]) simp
next
  case (2 m evs r)
  then show ?case by (intro exI [of _ 0]) simp
next
  case (3 m evs r)
  show ?case
  proof (cases "add m r")
    case (Pair r' res)
    show ?thesis
    proof (cases res)
      case None
      then obtain k rest r1 where "refreshed m k r' = Some r1 \<and> (case Maintain m evs r' of
          (r', None) \<Rightarrow> evs = replicate k Tick \<and> r' = r1
        | (r', Some None) \<Rightarrow> evs = replicate k Tick @ Done # rest \<and> r' = r1
        | (r', Some (Some e)) \<Rightarrow> evs = replicate k Tick @ Tick # rest \<and> add m r1 = (r', Some e))"
        using "3.IH" [OF Pair [symmetric] None] by (elim exE) (rule that)
      then show ?thesis using Pair None
        by (intro exI [of _ "Suc k"] exI [of _ rest] exI [of _ r1]) (auto split: prod.splits option.splits)
    next
      case (Some e)
      then show ?thesis using Pair by (intro exI [of _ 0] exI [of _ evs] exI [of _ r]) simp
    qed
  qed
qed

lemma opened_lease: "Open_Mapping port desc ip2 ip1 ppp1 r0 = (r, Inr m) \<Longrightarrow> leaseSeconds m = 7200"
proof -
  assume "Open_Mapping port desc ip2 ip1 ppp1 r0 = (r, Inr m)"
  then have "try_clients port desc (map Discovery (fst (snd ip2) @ fst (snd ip1) @ fst (snd ppp1)))
      (fst ip2 @ fst ip1 @ fst ppp1) r0 = (r, Inr m)"
    by (auto simp: Open_Mapping_def discoverClients_def split: if_splits prod.splits sum.splits list.splits)
  from try_clients_ok [OF this] obtain c r1 where "openWithClient c port desc r1 = (r, Inr m)" by blast
  then show ?thesis by (elim openWithClient_ok) (simp add: new_mapping_def)
qed

text \<open>The mapping is renewed long before its lease ends, until a renewal fails. A renewal that starts at its tick and takes up to the
  eight seconds of its time limit leaves almost an hour of the previous lease; \<^verbatim>\<open>Maintain\<close> goes on
  renewing at every tick, returns the error of the first renewal that fails, and returns without an
  error only when it is told to stop, after renewals that all succeeded.\<close>

theorem maintain_keeps_lease:
  assumes "Open_Mapping port desc ip2 ip1 ppp1 r0 = (r, Inr m)"
    and "t0 + int k * maintain_interval m \<le> a" and "a' \<le> t0 + int (Suc k) * maintain_interval m + 8 * second"
  shows "a' + 3592 * second \<le> a + uint (leaseSeconds m) * second
    \<and> (\<exists>n rest r1. refreshed m n r = Some r1 \<and>
        (case Maintain m evs r of
           (r', None) \<Rightarrow> evs = replicate n Tick \<and> r' = r1
         | (r', Some None) \<Rightarrow> evs = replicate n Tick @ Done # rest \<and> r' = r1
         | (r', Some (Some e)) \<Rightarrow> evs = replicate n Tick @ Tick # rest \<and> add m r1 = (r', Some e)))"
proof -
  have l: "leaseSeconds m = 7200" by (rule opened_lease [OF assms(1)])
  have "(7200 :: 32 word) div 2 = 3600" by code_simp
  then have "uint ((7200 :: 32 word) div 2) = 3600" by simp
  then have i: "maintain_interval m = 3600 * second" by (simp add: maintain_interval_def l)
  have "a' + 3592 * second \<le> a + 7200 * second"
    using assms(2,3) unfolding i by (simp add: algebra_simps)
  then have "a' + 3592 * second \<le> a + uint (leaseSeconds m) * second" by (simp add: l)
  with maintain_cases [of m r evs] show ?thesis by blast
qed

section \<open>A worked example\<close>

definition demo_gateway :: "nat gatewayClient" where
  "demo_gateway = \<lparr>LocalAddr = [192, 168, 1, 5], GetExternalIPAddress = (\<lambda>r. (r, Inr '' 93.184.216.34'')),
     AddPortMapping = (\<lambda>a r. (Suc r, if r < 2 then None else Some ''full'')), DeletePortMapping = (\<lambda>h p u r. (r, None))\<rparr>"

definition demo_mapping :: "nat Mapping" where
  "demo_mapping = new_mapping demo_gateway 443 ''relay'' (IPv4 93 184 216 34)"

lemma demo_open: "Open_Mapping 443 ''relay'' ([demo_gateway], [], None) ([], [], None) ([], [], None) 0 = (1, Inr demo_mapping)"
proof -
  have p: "parse_addr (trim_space '' 93.184.216.34'') = Some (IPv4 93 184 216 34)"
    by (simp add: trim_space_def is_space_def parse_addr_def parse_ipv4_def ipv4_fields_def parse_octet_def parse_uint_def is_digit_def
        digit_val_def)
  have i: "isPublicInternetAddress (IPv4 93 184 216 34)"
    by (simp add: isPublicInternetAddress_def is_valid_def is_global_unicast_def Let_def addr_simps)
  show ?thesis
    using p i
    by (simp add: Open_Mapping_def discoverClients_def List.map_filter_def openWithClient_def demo_gateway_def Let_def
        addr_from_slice_def is_valid_def is_unspecified_def add_def demo_mapping_def new_mapping_def)
qed

theorem open_first_usable_witness:
  "\<exists>ip. Mapping_PublicAddress demo_mapping = AddrPort (unmap ip) 443 \<and> isPublicInternetAddress ip"
proof -
  from open_first_usable [OF demo_open] obtain ip where
    "isPublicInternetAddress ip" "Mapping_PublicAddress demo_mapping = AddrPort (unmap ip) 443"
    by (elim conjE exE) (rule that)
  then show ?thesis by blast
qed

theorem maintain_keeps_lease_witness:
  "(3608 * second :: int) + 3592 * second \<le> 0 + uint (leaseSeconds demo_mapping) * second
   \<and> Maintain demo_mapping [Tick, Tick, Tick] 1 = (3, Some (Some ''full''))"
proof -
  have "Maintain demo_mapping [Tick, Tick, Tick] 1 = (3, Some (Some ''full''))"
    by (simp add: add_def demo_mapping_def new_mapping_def demo_gateway_def)
  moreover have "maintain_interval demo_mapping = 3600 * second"
    by (simp add: maintain_interval_def demo_mapping_def new_mapping_def)
  ultimately show ?thesis using maintain_keeps_lease [OF demo_open, of 0 0 0 "3608 * second"] by simp
qed

end
