(* ===== verification/Go_Path.thy ===== *)
theory Go_Path
  imports Go_Std
begin

text \<open>
  \<^verbatim>\<open>Clean\<close>, \<^verbatim>\<open>Join\<close> and \<^verbatim>\<open>Dir\<close> of Go's \<^verbatim>\<open>path/filepath\<close> on Unix. The relay and its command compute the same paths in two ways; the result here is
  that a sibling of a file in a directory is the file of that name in the directory.
\<close>

section \<open>Paths\<close>

text \<open>The elements of a path without empty ones and dots, and with each double dot taking back the element before it; the elements kept so far
  are in reverse order.\<close>

fun norm_path :: "bool \<Rightarrow> string list \<Rightarrow> string list \<Rightarrow> string list" where
  "norm_path rooted acc [] = rev acc"
| "norm_path rooted acc (c # cs) =
     (if c = [] \<or> c = ''.'' then norm_path rooted acc cs
      else if c = ''..'' then
        (case acc of
           [] \<Rightarrow> if rooted then norm_path rooted [] cs else norm_path rooted [''..''] cs
         | a # as \<Rightarrow> if a = ''..'' then norm_path rooted (''..'' # acc) cs else norm_path rooted as cs)
      else norm_path rooted (c # acc) cs)"

definition render :: "bool \<Rightarrow> string list \<Rightarrow> string" where
  "render rooted cs =
     (if rooted then CHR ''/'' # join_with ''/'' cs else if cs = [] then ''.'' else join_with ''/'' cs)"

definition is_rooted :: "string \<Rightarrow> bool" where
  "is_rooted path \<longleftrightarrow> path \<noteq> [] \<and> hd path = CHR ''/''"

definition elements :: "string \<Rightarrow> string list" where
  "elements path = norm_path (is_rooted path) [] (split_on CHR ''/'' path)"

definition Clean :: "string \<Rightarrow> string" where
  "Clean path = render (is_rooted path) (elements path)"

definition Join :: "string \<Rightarrow> string \<Rightarrow> string" where
  "Join a b = (if a \<noteq> [] then Clean (a @ ''/'' @ b) else if b \<noteq> [] then Clean b else [])"

definition Dir :: "string \<Rightarrow> string" where
  "Dir path = Clean (case last_index CHR ''/'' path of None \<Rightarrow> [] | Some i \<Rightarrow> take (Suc i) path)"

section \<open>Normal paths\<close>

definition plain :: "string \<Rightarrow> bool" where
  "plain c \<longleftrightarrow> c \<noteq> [] \<and> c \<noteq> ''.'' \<and> c \<noteq> ''..'' \<and> CHR ''/'' \<notin> set c"

definition normal :: "bool \<Rightarrow> string list \<Rightarrow> bool" where
  "normal rooted cs \<longleftrightarrow> (\<exists>k ys. cs = replicate k ''..'' @ ys \<and> (rooted \<longrightarrow> k = 0) \<and> list_all plain ys)"

lemma norm_path_plain: "list_all plain ys \<Longrightarrow> norm_path r acc (ys @ zs) = norm_path r (rev ys @ acc) zs"
  by (induction ys arbitrary: acc) (auto simp: plain_def)

lemma norm_path_dots: "norm_path False (replicate j ''..'') (replicate k ''..'' @ zs) = norm_path False (replicate (j + k) ''..'') zs"
proof (induction k arbitrary: j)
  case (Suc k)
  then show ?case using Suc.IH [of "Suc j"] by (cases j) auto
qed simp

lemma norm_path_normal: "normal r cs \<Longrightarrow> norm_path r [] cs = cs"
proof -
  assume "normal r cs"
  then obtain k ys where c: "cs = replicate k ''..'' @ ys" "r \<longrightarrow> k = 0" "list_all plain ys" by (auto simp: normal_def)
  have "norm_path r [] (replicate k ''..'' @ ys) = norm_path r (replicate k ''..'') ys"
    using norm_path_dots [of 0 k ys] c(2) by (cases r) auto
  then show ?thesis using norm_path_plain [OF c(3), of r "replicate k ''..''" "[]"] c(1) by simp
qed

lemma normalI: "cs = replicate k ''..'' @ ys \<Longrightarrow> (r \<Longrightarrow> k = 0) \<Longrightarrow> list_all plain ys \<Longrightarrow> normal r cs"
  by (auto simp: normal_def)

lemma normal_snoc: "normal r cs \<Longrightarrow> plain c \<Longrightarrow> normal r (cs @ [c])"
proof -
  assume "normal r cs" "plain c"
  then obtain k ys where "cs = replicate k ''..'' @ ys" "r \<longrightarrow> k = 0" "list_all plain ys" by (auto simp: normal_def)
  with \<open>plain c\<close> show ?thesis by (intro normalI [of _ k "ys @ [c]"]) auto
qed

lemma normal_butlast:
  assumes "normal r (cs @ [a])" and "a \<noteq> ''..''"
  shows "normal r cs"
proof -
  obtain k ys where c: "cs @ [a] = replicate k ''..'' @ ys" "r \<longrightarrow> k = 0" "list_all plain ys"
    using assms(1) by (auto simp: normal_def)
  show ?thesis
  proof (cases ys rule: rev_cases)
    case Nil
    then have "cs @ [a] = replicate k ''..''" using c(1) by simp
    then have "a \<in> set (replicate k ''..'')" by (metis in_set_conv_decomp)
    then show ?thesis using assms(2) by simp
  next
    case (snoc zs z)
    then have "cs = replicate k ''..'' @ zs" using c(1) by simp
    then show ?thesis using c(2,3) snoc by (auto simp: normal_def)
  qed
qed

lemma normal_dots:
  assumes "normal False (cs @ [''..''])"
  shows "normal False (cs @ [''..'', ''..''])"
proof -
  obtain k ys where c: "cs @ [''..''] = replicate k ''..'' @ ys" "list_all plain ys" using assms by (auto simp: normal_def)
  have "ys = []"
  proof (cases ys rule: rev_cases)
    case (snoc zs z)
    then show ?thesis using c by (auto simp: plain_def)
  qed
  then have "cs @ [''..'', ''..''] = replicate (Suc k) ''..''"
    using c(1) by (metis append.assoc append_Cons append_Nil append_Nil2 replicate_Suc replicate_append_same)
  then show ?thesis by (intro normalI [of _ "Suc k" "[]"]) auto
qed

lemma norm_path_is_normal:
  assumes "list_all (\<lambda>c. CHR ''/'' \<notin> set c) cs" and "normal r (rev acc)"
  shows "normal r (norm_path r acc cs)"
  using assms
proof (induction r acc cs rule: norm_path.induct)
  case (2 r acc c cs)
  consider "c = [] \<or> c = ''.''" | "c = ''..''" | "plain c" using "2.prems"(1) by (auto simp: plain_def)
  then show ?case
  proof cases
    case 2
    show ?thesis
    proof (cases acc)
      case Nil
      have "normal False [''..'']" by (rule normalI [of _ 1 "[]"]) simp_all
      then show ?thesis using Nil 2 "2.IH" "2.prems" by (cases r) auto
    next
      case (Cons a as)
      have "r \<Longrightarrow> a \<noteq> ''..''" using "2.prems"(2) Cons by (auto simp: normal_def plain_def list_all_iff)
      then show ?thesis using Cons 2 "2.IH" "2.prems" normal_butlast [of r "rev as" a] normal_dots [of "rev as"]
        by (cases r; cases "a = ''..''") auto
    qed
  qed (use "2.IH" "2.prems" normal_snoc in \<open>auto simp: plain_def\<close>)
qed simp

section \<open>Joining\<close>

lemma split_on_snoc: "c \<notin> set x \<Longrightarrow> split_on c (a @ c # x) = split_on c a @ [x]"
  by (induction a) (auto simp: split_on_none split: list.splits)

lemma split_on_parts: "p \<in> set (split_on c s) \<Longrightarrow> c \<notin> set p"
  by (induction s arbitrary: p) (auto split: list.splits if_splits)

lemma elements_normal: "normal (is_rooted path) (elements path)"
  unfolding elements_def
  by (rule norm_path_is_normal) (auto simp: list_all_iff split_on_parts intro: normalI [of _ 0 "[]"])

lemma norm_path_snoc: "plain x \<Longrightarrow> norm_path r acc (cs @ [x]) = norm_path r acc cs @ [x]"
  by (induction r acc cs rule: norm_path.induct) (auto simp: plain_def split: list.splits)

lemma norm_path_skip: "norm_path r acc (cs @ [[]]) = norm_path r acc cs"
  by (induction r acc cs rule: norm_path.induct) (auto split: list.splits)

lemma Join_plain:
  assumes "plain x"
  shows "Join d x = render (is_rooted d) (elements d @ [x])"
proof (cases "d = []")
  case True
  have "hd x \<noteq> CHR ''/''" using assms by (cases x) (auto simp: plain_def)
  then show ?thesis using True assms
    by (simp add: Join_def Clean_def elements_def is_rooted_def split_on_none plain_def)
next
  case False
  then have "is_rooted (d @ CHR ''/'' # x) = is_rooted d" by (simp add: is_rooted_def)
  moreover have "CHR ''/'' \<notin> set x" using assms by (simp add: plain_def)
  ultimately show ?thesis using False norm_path_snoc [OF assms]
    by (simp add: Join_def Clean_def elements_def split_on_snoc)
qed

lemma normal_no_slash: "normal r cs \<Longrightarrow> c \<in> set cs \<Longrightarrow> c \<noteq> [] \<and> CHR ''/'' \<notin> set c"
proof -
  assume "normal r cs" "c \<in> set cs"
  then obtain k ys where "cs = replicate k ''..'' @ ys" "list_all plain ys" unfolding normal_def by blast
  then have "c = ''..'' \<or> plain c" using \<open>c \<in> set cs\<close> by (auto simp: list_all_iff split: if_splits)
  then show ?thesis by (auto simp: plain_def)
qed

lemma join_no_slash_head: "cs \<noteq> [] \<Longrightarrow> normal r cs \<Longrightarrow> join_with ''/'' cs \<noteq> [] \<and> hd (join_with ''/'' cs) \<noteq> CHR ''/''"
proof -
  assume "cs \<noteq> []" "normal r cs"
  then obtain c cs' where c: "cs = c # cs'" by (cases cs) auto
  then have "c \<noteq> [] \<and> CHR ''/'' \<notin> set c" using normal_no_slash [OF \<open>normal r cs\<close>] by simp
  then have "c \<noteq> []" "hd c \<noteq> CHR ''/''" by (auto dest: hd_in_set)
  then show ?thesis using c by (cases cs') simp_all
qed

text \<open>A normal path reads back as what it was rendered from.\<close>

lemma rendered:
  assumes "normal r cs"
  shows "is_rooted (render r cs) = r" and "elements (render r cs) = cs" and "render r cs \<noteq> []"
proof -
  have split: "cs \<noteq> [] \<Longrightarrow> split_on CHR ''/'' (join_with ''/'' cs) = cs"
    using normal_no_slash [OF assms] by (intro split_join) auto
  show root: "is_rooted (render r cs) = r" and "render r cs \<noteq> []"
    using join_no_slash_head [OF _ assms] by (auto simp: is_rooted_def render_def)
  show "elements (render r cs) = cs"
  proof (cases "cs = []")
    case True
    then show ?thesis using root by (simp add: elements_def render_def)
  next
    case False
    then show ?thesis using split norm_path_normal [OF assms] root by (cases r) (simp_all add: elements_def render_def)
  qed
qed

lemma Dir_render:
  assumes "normal r cs" and "plain x"
  shows "Dir (render r (cs @ [x])) = render r cs"
proof -
  have x: "CHR ''/'' \<notin> set x" "x \<noteq> []" using assms(2) by (simp_all add: plain_def)
  have none: "c \<notin> set s \<Longrightarrow> last_index c s = None" for c s by (induction s) auto
  have last: "c \<notin> set b \<Longrightarrow> last_index c (a @ c # b) = Some (length a)" for a b :: string and c
    by (induction a) (simp_all add: none)
  show ?thesis
  proof (cases "cs = []")
    case True
    then show ?thesis using x last [of "CHR ''/''" x "[]"] none [of "CHR ''/''" x]
      by (auto simp: Dir_def render_def Clean_def is_rooted_def elements_def)
  next
    case False
    let ?p = "render r cs"
    have join: "join_with ''/'' (cs @ [x]) = join_with ''/'' cs @ CHR ''/'' # x"
      using False by (induction cs rule: induct_list012) auto
    then have "render r (cs @ [x]) = ?p @ CHR ''/'' # x" using False by (simp add: render_def)
    then have "Dir (render r (cs @ [x])) = Clean (?p @ ''/'')" using last [of "CHR ''/''" x ?p] x by (simp add: Dir_def)
    moreover have "is_rooted (?p @ ''/'') = r" using rendered(1,3) [OF assms(1)] by (simp add: is_rooted_def)
    moreover have "elements (?p @ ''/'') = cs"
      using rendered [OF assms(1)] calculation(2) split_on_snoc [of "CHR ''/''" "[]" ?p]
      by (simp add: elements_def norm_path_skip)
    ultimately show ?thesis by (simp add: Clean_def)
  qed
qed

text \<open>Next to a file of a directory is in the directory.\<close>

lemma Join_sibling:
  assumes "plain x" and "plain y"
  shows "Join (Dir (Join d x)) y = Join d y"
  using assms rendered [OF elements_normal [of d]] Dir_render [OF elements_normal [of d]] by (simp add: Join_plain)

end
