(* ===== verification/Main_Cmd.thy ===== *)
theory Main_Cmd
  imports Relay_Start Upnp Go_Path
begin

text \<open>
  The command \<^verbatim>\<open>cmd/qortal-masque-relay/main.go\<close>: the list of targets, the search for the announcer's script, and \<^verbatim>\<open>main\<close> from the parsed flags to the
  end of the process, as the list of its effects in order. What the outside does is the record \<open>main_env\<close>: the access file, the port
  mapping, starting the relay and the announcer, and the event that ends the wait.
\<close>

section \<open>Target lists\<close>

definition targetList_String :: "string list \<Rightarrow> string" where
  "targetList_String values = join_with '','' values"

fun targetList_add :: "string list \<Rightarrow> string list \<Rightarrow> string list" where
  "targetList_add values [] = values"
| "targetList_add values (t # ts) =
     (let target = trim_space t in targetList_add (if target \<noteq> [] then values @ [target] else values) ts)"

definition targetList_Set :: "string \<Rightarrow> string list \<Rightarrow> string list" where
  "targetList_Set value values = targetList_add values (split_on CHR '','' value)"

section \<open>The announcer's script\<close>

definition script_name :: string where
  "script_name = ''masque_relay_discovery.py''"

text \<open>\<open>None\<close> is the fatal exit; \<open>exe\<close> is the path of the executable if it is known, \<open>exists\<close> the file test.\<close>

definition resolveDiscoveryScript :: "string option \<Rightarrow> (string \<Rightarrow> bool) \<Rightarrow> string \<Rightarrow> string option" where
  "resolveDiscoveryScript exe exists value =
     (if value \<noteq> [] then Some value
      else if (case exe of None \<Rightarrow> False | Some e \<Rightarrow> exists (Join (Dir e) script_name)) then Some (Join (Dir (the exe)) script_name)
      else if exists (''scripts/'' @ script_name) then Some (''scripts/'' @ script_name)
      else None)"

section \<open>The command\<close>

record flags =
  f_access :: string
  f_listen :: string
  f_public :: string
  f_upnp :: bool
  f_server_name :: string
  f_state_dir :: string
  f_max_sessions :: int
  f_allow_private :: bool
  f_targets :: "string list"
  f_rns_config :: string
  f_script :: string
  f_python :: string
  f_no_discovery :: bool
  f_local :: bool

text \<open>What the select at the end receives.\<close>

datatype wake = Signalled | AnnouncerStopped | MappingFailed "string option"

record 'r main_env =
  me_load :: "string \<Rightarrow> (cfg_err, AccessConfig) result"
  me_exe :: "string option"
  me_exists :: "string \<Rightarrow> bool"
  me_upnp :: "16 word \<Rightarrow> (open_err, 'r Mapping) result"
  me_start :: "Config \<Rightarrow> (start_err, Metadata) result"
  me_announcer :: bool
  me_wake :: wake

datatype effect =
    MappedPort addr_port
  | ServerStarted Config
  | PrintMetadata Metadata
  | AnnouncerStarted string "string list"
  | CloseServer
  | ClosePortMapping
  | StopMaintenance
  | InterruptAnnouncer
  | ShutdownServer

datatype fatal_cause =
    BadAccess cfg_err | BadListenFlag | BadTarget string | RnsRequired | NoScript | PublicRequired | MappingErr open_err
  | StartErr start_err | AnnouncerErr | AnnouncerExit

datatype exit_kind = Returned | Fatal fatal_cause | Panicked

fun parse_targets :: "string list \<Rightarrow> (string, addr_port list) result" where
  "parse_targets [] = Inr []"
| "parse_targets (v # vs) =
     (case parse_addr_port v of
        None \<Rightarrow> Inl v
      | Some t \<Rightarrow>
          if \<not> is_valid (ap_addr t) \<or> ap_port t = 0 then Inl v
          else (case parse_targets vs of Inl e \<Rightarrow> Inl e | Inr ts \<Rightarrow> Inr (t # ts)))"

definition load_access :: "'r main_env \<Rightarrow> flags \<Rightarrow> (cfg_err, AccessConfig) result" where
  "load_access env fl =
     (if f_access fl \<noteq> [] then me_load env (f_access fl)
      else Inr \<lparr>Mode = ''public'', AllowedGroupIDs = None, CoreURLBases = []\<rparr>)"

text \<open>The public endpoint: the flag, or the mapping that is opened for it.\<close>

definition public_endpoint :: "'r main_env \<Rightarrow> flags \<Rightarrow> addr_port \<Rightarrow> (fatal_cause, 'r Mapping option \<times> string) result" where
  "public_endpoint env fl listen =
     (if f_public fl \<noteq> [] then Inr (None, f_public fl)
      else if \<not> f_upnp fl then Inl PublicRequired
      else (case me_upnp env (ap_port listen) of
              Inl e \<Rightarrow> Inl (MappingErr e)
            | Inr m \<Rightarrow> Inr (Some m, show_addr_port (Mapping_PublicAddress m))))"

definition relay_config :: "flags \<Rightarrow> AccessConfig \<Rightarrow> string \<Rightarrow> addr_port list \<Rightarrow> Config" where
  "relay_config fl access public allowed =
     \<lparr>Access = access, ListenAddress = f_listen fl, PublicAddress = public, ServerName = f_server_name fl,
      CertificatePath = Join (f_state_dir fl) ''relay-cert.pem'', PrivateKeyPath = Join (f_state_dir fl) ''relay-key.pem'',
      AllowedTargets = allowed, AllowPrivateTargets = f_allow_private fl, AllowLocalAdvertise = f_local fl,
      MaxSessions = f_max_sessions fl\<rparr>"

definition announcer_args :: "flags \<Rightarrow> AccessConfig \<Rightarrow> string \<Rightarrow> Metadata \<Rightarrow> addr_port \<Rightarrow> string list" where
  "announcer_args fl access script md ap =
     [script, ''--rns-config'', f_rns_config fl, ''--identity'', Join (f_state_dir fl) ''discovery.identity'',
      ''--host'', show_addr (ap_addr ap), ''--port'', udec (unat (ap_port ap)),
      ''--server-name'', RelayServerName md, ''--cert-sha256'', RelayCertSHA256 md,
      ''--access-mode'', Mode access, ''--allowed-group-ids'', ''['' @ join_with '','' (map itoa (group_ids access)) @ '']'']
     @ (if Mode access = ''groups'' then [''--ticket-socket'', Join (f_state_dir fl) ''ticket-authority.sock''] else [])
     @ (if f_local fl then [''--allow-local''] else [])"

text \<open>Where \<^verbatim>\<open>relay.Start\<close> puts the socket of the ticket authority.\<close>

definition ticket_socket :: "Config \<Rightarrow> string" where
  "ticket_socket cfg = Join (Dir (PrivateKeyPath cfg)) ''ticket-authority.sock''"

definition closePortMapping :: "'r Mapping option \<Rightarrow> effect list" where
  "closePortMapping mapping = (case mapping of None \<Rightarrow> [] | Some m \<Rightarrow> [ClosePortMapping])"

text \<open>From the running relay to the end.\<close>

definition main_running ::
  "'r main_env \<Rightarrow> flags \<Rightarrow> AccessConfig \<Rightarrow> string \<Rightarrow> 'r Mapping option \<Rightarrow> Metadata \<Rightarrow> effect list \<times> exit_kind" where
  "main_running env fl access script mapping md =
     (if f_no_discovery fl then ([StopMaintenance, ShutdownServer] @ closePortMapping mapping, Returned)
      else (case parse_addr_port (RelayAddress md) of
        None \<Rightarrow> ([], Panicked)
      | Some ap \<Rightarrow>
          if \<not> me_announcer env then ([CloseServer] @ closePortMapping mapping, Fatal AnnouncerErr)
          else (let started = AnnouncerStarted (f_python fl) (announcer_args fl access script md ap) in
            case me_wake env of
              AnnouncerStopped \<Rightarrow> ([started, CloseServer] @ closePortMapping mapping, Fatal AnnouncerExit)
            | _ \<Rightarrow> ([started, StopMaintenance, InterruptAnnouncer, ShutdownServer] @ closePortMapping mapping, Returned))))"

definition main :: "'r main_env \<Rightarrow> flags \<Rightarrow> effect list \<times> exit_kind" where
  "main env fl =
     (case load_access env fl of
        Inl e \<Rightarrow> ([], Fatal (BadAccess e))
      | Inr access \<Rightarrow>
        (case literal_endpoint (f_listen fl) of
           None \<Rightarrow> ([], Fatal BadListenFlag)
         | Some listen \<Rightarrow>
           (case parse_targets (f_targets fl) of
              Inl v \<Rightarrow> ([], Fatal (BadTarget v))
            | Inr allowed \<Rightarrow>
                if \<not> f_no_discovery fl \<and> f_rns_config fl = [] then ([], Fatal RnsRequired)
                else (case (if f_no_discovery fl then Some [] else resolveDiscoveryScript (me_exe env) (me_exists env) (f_script fl)) of
                   None \<Rightarrow> ([], Fatal NoScript)
                 | Some script \<Rightarrow>
                   (case public_endpoint env fl listen of
                      Inl e \<Rightarrow> ([], Fatal e)
                    | Inr (mapping, public) \<Rightarrow>
                      (let mapped = (case mapping of None \<Rightarrow> [] | Some m \<Rightarrow> [MappedPort (Mapping_PublicAddress m)]);
                           cfg = relay_config fl access public allowed in
                       case me_start env cfg of
                         Inl e \<Rightarrow> (mapped @ closePortMapping mapping, Fatal (StartErr e))
                       | Inr md \<Rightarrow>
                           (case main_running env fl access script mapping md of
                              (trace, e) \<Rightarrow> (mapped @ [ServerStarted cfg, PrintMetadata md] @ trace, e))))))))"

section \<open>Target lists are well-formed\<close>

definition list_item :: "string \<Rightarrow> bool" where
  "list_item t \<longleftrightarrow> t \<noteq> [] \<and> CHR '','' \<notin> set t \<and> \<not> is_space (hd t) \<and> \<not> is_space (last t)"

lemma targetList_add_filter: "targetList_add values ts = values @ filter (\<lambda>t. t \<noteq> []) (map trim_space ts)"
  by (induction ts arbitrary: "values") (simp_all add: Let_def)

lemma trim_space_ends: "trim_space s \<noteq> [] \<Longrightarrow> \<not> is_space (hd (trim_space s)) \<and> \<not> is_space (last (trim_space s))"
proof -
  assume ne: "trim_space s \<noteq> []"
  let ?a = "dropWhile is_space s" and ?b = "dropWhile is_space (rev (dropWhile is_space s))"
  have b: "?b \<noteq> []" using ne by (simp add: trim_space_def)
  obtain w where "rev ?a = w @ ?b" by (metis takeWhile_dropWhile_id)
  then have a: "?a = rev ?b @ rev w" by (metis rev_append rev_rev_ident)
  have "hd ?a = hd (rev ?b @ rev w)" using a by (rule arg_cong)
  then have "hd (rev ?b) = hd ?a" using b by (simp only: hd_append rev_is_Nil_conv if_False)
  moreover have "?a \<noteq> []" using b by (metis dropWhile.simps(1) rev.simps(1))
  ultimately have "\<not> is_space (hd (rev ?b))" using hd_dropWhile [of is_space s] by (simp only: not_False_eq_True)
  moreover have "\<not> is_space (last (rev ?b))" using hd_dropWhile [OF b] b by (simp add: last_rev)
  ultimately show ?thesis by (simp add: trim_space_def)
qed

lemma set_trim_space: "set (trim_space s) \<subseteq> set s"
  unfolding trim_space_def by (metis set_dropWhileD set_rev subsetI)

lemma trim_space_id: "list_item t \<Longrightarrow> trim_space t = t"
proof -
  assume t: "list_item t"
  then have "dropWhile is_space t = t" by (cases t) (auto simp: list_item_def)
  moreover have "dropWhile is_space (rev t) = rev t" using t by (cases t rule: rev_cases) (auto simp: list_item_def)
  ultimately show ?thesis by (simp add: trim_space_def)
qed

text \<open>The target list only ever holds clean entries, and printing it loses nothing. Whatever text a flag carries, every entry of the list is
  non-empty, without a comma and without white space around it; earlier entries stay in front; and setting the printed
  form of a list of clean entries gives exactly these entries.\<close>

theorem targetList_clean:
  assumes "list_all list_item xs"
  shows "list_all list_item (targetList_Set value xs) \<and> (\<exists>new. targetList_Set value xs = xs @ new)
    \<and> targetList_Set (targetList_String xs) [] = xs"
proof -
  have "list_item (trim_space t)" if "t \<in> set (split_on CHR '','' value)" "trim_space t \<noteq> []" for t
    using that split_on_parts [OF that(1)] set_trim_space [of t] trim_space_ends [of t] by (auto simp: list_item_def)
  then have "list_all list_item (targetList_Set value xs)"
    using assms by (auto simp: targetList_Set_def targetList_add_filter list_all_iff)
  moreover have "targetList_Set (targetList_String xs) [] = xs"
  proof (cases "xs = []")
    case True
    then show ?thesis by (simp add: targetList_Set_def targetList_String_def targetList_add_filter trim_space_def)
  next
    case False
    then have "split_on CHR '','' (targetList_String xs) = xs"
      using assms unfolding targetList_String_def by (intro split_join) (auto simp: list_all_iff list_item_def)
    moreover have "map trim_space xs = xs" using assms trim_space_id by (simp add: list_all_iff map_idI)
    moreover have "filter (\<lambda>t. t \<noteq> []) xs = xs" using assms by (simp add: list_all_iff list_item_def filter_id_conv)
    ultimately show ?thesis by (simp add: targetList_Set_def targetList_add_filter)
  qed
  ultimately show ?thesis by (simp add: targetList_Set_def targetList_add_filter)
qed

theorem targetList_clean_witness:
  "targetList_Set (targetList_String [''127.0.0.1:9000'', ''[::1]:9001'']) [] = [''127.0.0.1:9000'', ''[::1]:9001'']"
proof -
  have "list_all list_item [''127.0.0.1:9000'', ''[::1]:9001'']" by (simp add: list_item_def is_space_def)
  from targetList_clean [OF this] show ?thesis by blast
qed

section \<open>What is opened is closed\<close>

text \<open>Whether the relay and the port mapping are still open after some effects.\<close>

fun still_open :: "bool \<times> bool \<Rightarrow> effect list \<Rightarrow> bool \<times> bool" where
  "still_open st [] = st"
| "still_open (srv, mp) (e # es) =
     still_open (case e of
         ServerStarted c \<Rightarrow> (True, mp)
       | CloseServer \<Rightarrow> (False, mp)
       | ShutdownServer \<Rightarrow> (False, mp)
       | MappedPort a \<Rightarrow> (srv, True)
       | ClosePortMapping \<Rightarrow> (srv, False)
       | _ \<Rightarrow> (srv, mp)) es"

text \<open>\<^verbatim>\<open>relay.Start\<close> as the command sees it.\<close>

definition start_result ::
  "'k lib \<Rightarrow> 'b bolt \<Rightarrow> 'x x509 \<Rightarrow> (string \<Rightarrow> url option) \<Rightarrow> ('b, 'k, 'x) start_env \<Rightarrow> fs \<Rightarrow> Config \<Rightarrow> (start_err, Metadata) result" where
  "start_result lib B X parse senv fs cfg =
     (case Start lib B X parse senv cfg fs of
        (fs', cs, Inl e) \<Rightarrow> Inl e
      | (fs', cs, Inr (s, p, tickets, md)) \<Rightarrow> Inr md)"

lemma start_result_endpoint:
  assumes "start_result lib B X parse senv fs cfg = Inr md"
  shows "\<exists>public. parse_addr_port (RelayAddress md) = Some public \<and> parse_addr_port (PublicAddress cfg) = Some public
    \<and> ap_addr public \<noteq> NoAddr"
proof -
  obtain fs' cs s p tickets where start: "Start lib B X parse senv cfg fs = (fs', cs, Inr (s, p, tickets, md))"
    using assms by (auto simp: start_result_def split: prod.splits sum.splits)
  from start_facts [OF start] start_endpoint [OF start] show ?thesis by fastforce
qed

lemma main_running_closes:
  assumes "parse_addr_port (RelayAddress md) = Some ap"
  shows "snd (main_running env fl access script mapping md) \<noteq> Panicked"
    and "still_open (True, mapping \<noteq> None) (fst (main_running env fl access script mapping md)) = (False, False)"
  using assms
  by (auto simp: main_running_def closePortMapping_def Let_def split: option.splits wake.splits)

text \<open>C23: The process leaves nothing behind. On every way out of \<^verbatim>\<open>main\<close> (a bad flag, a failed mapping, a relay or announcer that does not start, a lost
  mapping, an announcer that stops, a signal) the relay, if it was started, was told to close and the port mapping, if
  it was opened, was asked to be removed; and \<^verbatim>\<open>main\<close> never panics on the address in the metadata.\<close>

theorem main_cleans_up:
  assumes "\<And>cfg. me_start env cfg = start_result lib B X parse senv fs cfg"
  shows "snd (main env fl) \<noteq> Panicked \<and> still_open (False, False) (fst (main env fl)) = (False, False)"
proof -
  have run: "snd (main_running env fl access script mapping md) \<noteq> Panicked
      \<and> still_open (True, mapping \<noteq> None) (fst (main_running env fl access script mapping md)) = (False, False)"
    if "start_result lib B X parse senv fs cfg = Inr md" for cfg md access script mapping
    using start_result_endpoint [OF that] main_running_closes by blast
  have run': "ex \<noteq> Panicked \<and> still_open (True, mapping \<noteq> None) tr = (False, False)"
    if "start_result lib B X parse senv fs cfg = Inr md" "main_running env fl access script mapping md = (tr, ex)"
    for cfg md access script mapping tr ex
    using run [OF that(1), of access script mapping] that(2) by simp
  show ?thesis
    by (auto simp: main_def Let_def assms closePortMapping_def split: sum.splits option.splits prod.splits dest: run')
qed

section \<open>What the announcer is told\<close>

lemma main_announcer:
  assumes "AnnouncerStarted py args \<in> set (fst (main env fl))"
  shows "\<exists>access cfg md ap script public allowed. ServerStarted cfg \<in> set (fst (main env fl)) \<and> cfg = relay_config fl access public allowed
    \<and> me_start env cfg = Inr md \<and> parse_addr_port (RelayAddress md) = Some ap \<and> py = f_python fl
    \<and> args = announcer_args fl access script md ap"
  using assms
  by (auto simp: main_def main_running_def closePortMapping_def Let_def
      split: sum.splits option.splits prod.splits if_splits wake.splits) blast+

lemma announcer_args_nth:
  fixes fl access script md ap
  defines "args \<equiv> announcer_args fl access script md ap"
  shows "args ! 6 = show_addr (ap_addr ap)" "args ! 8 = udec (unat (ap_port ap))" "args ! 10 = RelayServerName md"
    "args ! 12 = RelayCertSHA256 md" "args ! 14 = Mode access"
    "''--ticket-socket'' \<in> set (drop 17 args) \<longleftrightarrow> Mode access = ''groups''"
    "Mode access = ''groups'' \<Longrightarrow> args ! 17 = ''--ticket-socket'' \<and> args ! 18 = Join (f_state_dir fl) ''ticket-authority.sock''"
  by (simp_all add: args_def announcer_args_def)

lemma relay_config_socket: "ticket_socket (relay_config fl access public allowed) = Join (f_state_dir fl) ''ticket-authority.sock''"
  by (simp add: ticket_socket_def relay_config_def Join_sibling plain_def)

text \<open>C24: The announcer announces the relay that runs. When \<^verbatim>\<open>main\<close> starts it, a relay was started before, and the arguments carry the public
  endpoint of that relay (the host and the port parse back to it), its server name and the hash of the certificate it serves, and its access
  mode; in the groups mode, and only then, a ticket socket is named, and it is the one on which the relay's ticket authority
  listens, whatever text the state directory is.\<close>

theorem main_announces:
  assumes "\<And>cfg. me_start env cfg = start_result lib B X parse senv fs cfg"
    and "AnnouncerStarted py args \<in> set (fst (main env fl))"
  shows "\<exists>cfg md public. ServerStarted cfg \<in> set (fst (main env fl)) \<and> start_result lib B X parse senv fs cfg = Inr md
    \<and> parse_addr_port (PublicAddress cfg) = Some public \<and> py = f_python fl
    \<and> parse_addr (args ! 6) = Some (ap_addr public) \<and> parse_port (args ! 8) = Some (ap_port public)
    \<and> args ! 10 = RelayServerName md \<and> args ! 12 = RelayCertSHA256 md \<and> args ! 14 = Mode (Access cfg)
    \<and> (if Mode (Access cfg) = ''groups'' then args ! 17 = ''--ticket-socket'' \<and> args ! 18 = ticket_socket cfg
       else ''--ticket-socket'' \<notin> set (drop 17 args))"
proof -
  obtain access cfg md ap script public allowed where m: "ServerStarted cfg \<in> set (fst (main env fl))"
      "cfg = relay_config fl access public allowed" "me_start env cfg = Inr md" "parse_addr_port (RelayAddress md) = Some ap"
      "py = f_python fl" "args = announcer_args fl access script md ap"
    using main_announcer [OF assms(2)] by (elim conjE exE) (rule that)
  have st: "start_result lib B X parse senv fs cfg = Inr md" using m(3) assms(1) by simp
  from start_result_endpoint [OF this] m(4) have ap: "parse_addr_port (PublicAddress cfg) = Some ap" "ap_addr ap \<noteq> NoAddr" by auto
  have mode: "Mode (Access cfg) = Mode access" unfolding m(2) by (simp add: relay_config_def)
  have sock: "ticket_socket cfg = Join (f_state_dir fl) ''ticket-authority.sock''" unfolding m(2) by (rule relay_config_socket)
  note nth = announcer_args_nth [where fl = fl and access = access and script = script and md = md and ap = ap, folded m(6)]
  have "parse_addr (args ! 6) = Some (ap_addr ap)" "parse_port (args ! 8) = Some (ap_port ap)"
    using parse_show_addr [OF ap(2)] by (simp_all only: nth parse_port_udec)
  then show ?thesis using m(1,5) st ap(1) nth(3-7) mode sock by (metis (no_types, lifting))
qed

section \<open>A worked run\<close>

definition demo_flags :: flags where
  "demo_flags = \<lparr>f_access = ''access.json'', f_listen = show_addr_port (AddrPort (IPv4 0 0 0 0) 47322), f_public = show_addr_port demo_public,
     f_upnp = False, f_server_name = ''relay'', f_state_dir = ''data'', f_max_sessions = 2, f_allow_private = False, f_targets = [],
     f_rns_config = ''rns'', f_script = ''announce.py'', f_python = ''python3'', f_no_discovery = False, f_local = False\<rparr>"

definition demo_main_env :: "nat main_env" where
  "demo_main_env = \<lparr>me_load = (\<lambda>p. Inr demo_config), me_exe = None, me_exists = (\<lambda>p. True), me_upnp = (\<lambda>p. Inr demo_mapping),
     me_start = start_result demo_lib rbt_bolt demo_x509 demo_parse (demo_start_env\<lparr>st_listen := True\<rparr>) [],
     me_announcer = True, me_wake = Signalled\<rparr>"

abbreviation demo_main_cfg :: Config where
  "demo_main_cfg \<equiv> relay_config demo_flags demo_config (show_addr_port demo_public) []"

definition demo_md :: Metadata where
  "demo_md = \<lparr>RelayAddress = show_addr_port demo_public, RelayServerName = ''relay'', RelayCertSHA256 = demo_pin\<rparr>"

lemma demo_main_cert: "\<exists>fs'. loadOrCreateCertificate demo_x509 demo_cert_env demo_main_cfg [] = (fs', Inr ([[1]], [1]))"
proof -
  have "template demo_cert_env demo_main_cfg = template demo_cert_env demo_cfg"
    by (simp add: template_def relay_config_def demo_flags_def)
  then have "x_create demo_x509 (template demo_cert_env demo_main_cfg) 7 = Some [1]" "x_marshal demo_x509 7 = Some [2]"
    "x_pair demo_x509 (pem_encode ''CERTIFICATE'' [1]) (pem_encode ''PRIVATE KEY'' [2]) = Inr [[1]]"
    by (simp_all add: demo_x509_def)
  moreover have "ce_key demo_cert_env = Some 7" "ce_mkdir_cert demo_cert_env" "ce_mkdir_key demo_cert_env"
    "ce_write_cert demo_cert_env = Wrote" "ce_write_key demo_cert_env = Wrote" by (simp_all add: demo_cert_env_def)
  ultimately have "\<exists>fs'. createCertificate demo_x509 demo_cert_env demo_main_cfg [] = (fs', Inr ([[1]], [1]))"
    by (simp add: createCertificate_def write_file_def Let_def)
  moreover have "CertificatePath demo_main_cfg \<noteq> []" "PrivateKeyPath demo_main_cfg \<noteq> []"
    by (simp_all add: relay_config_def demo_flags_def Join_def Clean_def elements_def is_rooted_def render_def)
  ultimately show ?thesis by (simp add: loadOrCreateCertificate_def LoadX509KeyPair_def)
qed

lemma demo_main_endpoints:
  "literal_endpoint (f_listen demo_flags) = Some (AddrPort (IPv4 0 0 0 0) 47322)"
  "literal_endpoint (show_addr_port demo_public) = Some demo_public" "parse_addr_port (show_addr_port demo_public) = Some demo_public"
  by (simp_all add: literal_endpoint_def demo_flags_def parse_show_addr_port demo_public_def is_valid_def)

lemma demo_main_start: "me_start demo_main_env demo_main_cfg = Inr demo_md"
proof -
  obtain fs' where c: "loadOrCreateCertificate demo_x509 demo_cert_env demo_main_cfg [] = (fs', Inr ([[1]], [1]))"
    using demo_main_cert by blast
  have env: "st_cert (demo_start_env\<lparr>st_listen := True\<rparr>) = demo_cert_env" by (simp add: demo_start_env_def)
  have f: "ServerName demo_main_cfg = ''relay''" "Access demo_main_cfg = demo_config" "MaxSessions demo_main_cfg = 2"
    "ListenAddress demo_main_cfg = f_listen demo_flags" "PublicAddress demo_main_cfg = show_addr_port demo_public"
    by (simp_all add: relay_config_def demo_flags_def)
  have "start_result demo_lib rbt_bolt demo_x509 demo_parse (demo_start_env\<lparr>st_listen := True\<rparr>) [] demo_main_cfg = Inr demo_md"
    unfolding start_result_def Start_def env
    by (simp add: f c demo_main_endpoints demo_routable demo_start_newpolicy [unfolded demo_pin_def] demo_start_tickets demo_size demo_pin_def demo_md_def)
  then show ?thesis by (simp add: demo_main_env_def)
qed

lemma demo_main:
  "main demo_main_env demo_flags =
     ([ServerStarted demo_main_cfg, PrintMetadata demo_md,
       AnnouncerStarted ''python3'' (announcer_args demo_flags demo_config ''announce.py'' demo_md demo_public),
       StopMaintenance, InterruptAnnouncer, ShutdownServer], Returned)"
proof -
  have f: "f_access demo_flags = ''access.json''" "f_targets demo_flags = []" "f_rns_config demo_flags = ''rns''" "\<not> f_no_discovery demo_flags"
    "f_script demo_flags = ''announce.py''" "f_public demo_flags = show_addr_port demo_public" "f_python demo_flags = ''python3''"
    "show_addr_port demo_public \<noteq> []"
    using parse_show_addr_port [of demo_public] by (auto simp: demo_flags_def demo_public_def parse_addr_port_def)
  have e: "me_load demo_main_env = (\<lambda>p. Inr demo_config)" "me_announcer demo_main_env" "me_wake demo_main_env = Signalled"
    "RelayAddress demo_md = show_addr_port demo_public" by (simp_all add: demo_main_env_def demo_md_def)
  show ?thesis
    by (simp add: main_def load_access_def public_endpoint_def resolveDiscoveryScript_def main_running_def closePortMapping_def
        f e demo_main_endpoints demo_main_start Let_def)
qed

theorem main_cleans_up_witness:
  "snd (main demo_main_env demo_flags) \<noteq> Panicked \<and> still_open (False, False) (fst (main demo_main_env demo_flags)) = (False, False)"
proof -
  have "\<And>cfg. me_start demo_main_env cfg = start_result demo_lib rbt_bolt demo_x509 demo_parse (demo_start_env\<lparr>st_listen := True\<rparr>) [] cfg"
    by (simp add: demo_main_env_def)
  from main_cleans_up [OF this, of demo_flags] show ?thesis .
qed

theorem main_announces_witness:
  "announcer_args demo_flags demo_config ''announce.py'' demo_md demo_public ! 18 = ''data/ticket-authority.sock''
   \<and> (\<exists>public. parse_addr (announcer_args demo_flags demo_config ''announce.py'' demo_md demo_public ! 6) = Some (ap_addr public))"
proof -
  have "\<And>cfg. me_start demo_main_env cfg = start_result demo_lib rbt_bolt demo_x509 demo_parse (demo_start_env\<lparr>st_listen := True\<rparr>) [] cfg"
    by (simp add: demo_main_env_def)
  from main_announces [OF this, of "''python3''" "announcer_args demo_flags demo_config ''announce.py'' demo_md demo_public" demo_flags]
  have "\<exists>cfg public. ServerStarted cfg \<in> set (fst (main demo_main_env demo_flags))
      \<and> parse_addr (announcer_args demo_flags demo_config ''announce.py'' demo_md demo_public ! 6) = Some (ap_addr public)
      \<and> (Mode (Access cfg) = ''groups'' \<longrightarrow> announcer_args demo_flags demo_config ''announce.py'' demo_md demo_public ! 18 = ticket_socket cfg)"
    unfolding demo_main by (auto split: if_splits)
  moreover have "Mode (Access demo_main_cfg) = ''groups''" by (simp add: relay_config_def demo_config_def)
  moreover have "ticket_socket demo_main_cfg = ''data/ticket-authority.sock''"
    by (simp add: relay_config_socket demo_flags_def Join_def Clean_def elements_def is_rooted_def render_def)
  ultimately show ?thesis by (auto simp: demo_main)
qed

end
