(* ===== verification/Wire_Code.thy ===== *)
theory Wire_Code
  imports Relay_Prelude
begin

text \<open>
  The contract of a field of a wire format: what was encoded is decoded again, whatever follows it. Shared by the announcement (group identifiers, big-endian
  numbers) and by the datagrams of a tunnel (variable-length integers). The fields one after another are decoded one after another.
\<close>

fun dec_many :: "(byte list \<Rightarrow> ('a \<times> byte list) option) \<Rightarrow> nat \<Rightarrow> byte list \<Rightarrow> ('a list \<times> byte list) option" where
  "dec_many d 0 bs = Some ([], bs)"
| "dec_many d (Suc n) bs =
     (case d bs of
        None \<Rightarrow> None
      | Some (x, rest) \<Rightarrow>
          (case dec_many d n rest of None \<Rightarrow> None | Some (xs, rest') \<Rightarrow> Some (x # xs, rest')))"

locale prefix_code =
  fixes enc :: "'a \<Rightarrow> byte list"
    and dec :: "byte list \<Rightarrow> ('a \<times> byte list) option"
    and ok :: "'a \<Rightarrow> bool"
  assumes dec_enc: "ok x \<Longrightarrow> dec (enc x @ rest) = Some (x, rest)"
begin

lemma dec_many_enc: "list_all ok xs \<Longrightarrow> dec_many dec (length xs) (concat (map enc xs) @ rest) = Some (xs, rest)"
  by (induction xs) (simp_all add: dec_enc)

lemma enc_inj: "ok x \<Longrightarrow> ok y \<Longrightarrow> enc x @ r = enc y @ r' \<Longrightarrow> x = y \<and> r = r'"
  by (metis dec_enc option.inject prod.inject)

end

end
