(* ===== verification/Discovery_Codec.thy ===== *)
theory Discovery_Codec
  imports Relay_Start Wire_Code
begin

text \<open>
  The announcement of a relay: \<^verbatim>\<open>encode\<close> and \<^verbatim>\<open>decode\<close> of \<^verbatim>\<open>scripts/masque_discovery_codec.py\<close>, the signed wire format the announcer
  broadcasts and Hubs read.

  The contract of a field is \<open>prefix_code\<close>: what was encoded is decoded again, whatever follows it. It is met by the group
  identifiers and by the big-endian numbers. The results are that decoding inverts encoding, that the length
  of an announcement is the size \<^verbatim>\<open>Start\<close> computes, and which relays that start can be announced. Signing is an argument.
\<close>

section \<open>Fields\<close>

text \<open>Group identifiers: seven bits in each byte, least significant first, the high bit on all but the last.\<close>

function enc_group :: "int \<Rightarrow> byte list" where
  "enc_group g = (if g \<ge> 128 then of_int (g mod 128 + 128) # enc_group (g div 128) else [of_int g])"
  by pat_completeness auto
termination by (relation "measure nat") auto

declare enc_group.simps [simp del]

text \<open>At most five bytes; the last byte of several is not zero.\<close>

function dec_group_at :: "nat \<Rightarrow> int \<Rightarrow> byte list \<Rightarrow> (int \<times> byte list) option" where
  "dec_group_at i v body =
     (if 5 \<le> i then None
      else case body of
        [] \<Rightarrow> None
      | b # rest \<Rightarrow>
          let v' = v + (uint b mod 128) * 128 ^ i in
          if b < 128 then
            if i \<noteq> 0 \<and> b = 0 then None
            else if 0 < v' \<and> v' < 2 ^ 31 then Some (v', rest)
            else None
          else dec_group_at (Suc i) v' rest)"
  by pat_completeness auto
termination by (relation "measure (\<lambda>(i, v, body). 5 - i)") auto

declare dec_group_at.simps [simp del]

definition dec_group :: "byte list \<Rightarrow> (int \<times> byte list) option" where
  "dec_group = dec_group_at 0 0"

text \<open>A big-endian number of a fixed width.\<close>

definition dec_be :: "nat \<Rightarrow> byte list \<Rightarrow> (nat \<times> byte list) option" where
  "dec_be n bs = (if length bs < n then None else Some (be_val (take n bs), drop n bs))"

lemma uint_byte: "0 \<le> k \<Longrightarrow> k < 256 \<Longrightarrow> uint (of_int k :: byte) = k"
  by (simp add: unsigned_of_int take_bit_int_eq_self)

lemma dec_group_at_enc:
  assumes "0 \<le> g" "g < 128 ^ (5 - i)" "i < 5" "i \<noteq> 0 \<longrightarrow> 0 < g" "0 < v + g * 128 ^ i" "v + g * 128 ^ i < 2 ^ 31"
  shows "dec_group_at i v (enc_group g @ rest) = Some (v + g * 128 ^ i, rest)"
  using assms
proof (induction g arbitrary: i v rule: enc_group.induct)
  case (1 g)
  show ?case
  proof (cases "g \<ge> 128")
    case False
    then have "uint (of_int g :: byte) = g" using "1.prems"(1) by (intro uint_byte) simp_all
    moreover from this have "(of_int g :: byte) < 128" using False by (simp add: word_less_def)
    moreover have "i = 0 \<or> (of_int g :: byte) \<noteq> 0" using calculation(1) "1.prems"(4) by fastforce
    ultimately show ?thesis using False "1.prems"
      by (simp add: enc_group.simps [of g] dec_group_at.simps [of i] Let_def)
  next
    case True
    define b where "b = (of_int (g mod 128 + 128) :: byte)"
    have b: "enc_group g = b # enc_group (g div 128)" unfolding b_def using True by (subst enc_group.simps) (simp only: if_True)
    have u: "uint b = g mod 128 + 128"
      unfolding b_def using pos_mod_bound [of 128 g] pos_mod_sign [of 128 g] by (intro uint_byte) simp_all
    have big: "\<not> b < 128" using u pos_mod_sign [of 128 g] by (simp add: word_less_def)
    have i: "Suc i < 5"
    proof (rule ccontr)
      assume "\<not> Suc i < 5"
      then have "i = 4" using "1.prems"(3) by simp
      then show False using "1.prems"(2) True by simp
    qed
    then have "5 - i = Suc (5 - Suc i)" by simp
    then have lt: "g div 128 < 128 ^ (5 - Suc i)" using "1.prems"(2) by simp
    have eq: "v + g mod 128 * 128 ^ i + g div 128 * 128 ^ Suc i = v + g * 128 ^ i"
    proof -
      have "v + r * k + q * (128 * k) = v + (q * 128 + r) * k" for q r k :: int by (simp add: algebra_simps)
      from this [of "g mod 128" "128 ^ i" "g div 128"] show ?thesis by (simp only: power_Suc div_mult_mod_eq)
    qed
    have "dec_group_at (Suc i) (v + g mod 128 * 128 ^ i) (enc_group (g div 128) @ rest)
        = Some (v + g mod 128 * 128 ^ i + g div 128 * 128 ^ Suc i, rest)"
      using "1.IH" [OF True, of "Suc i" "v + g mod 128 * 128 ^ i"] lt i "1.prems" True unfolding eq by simp
    then show ?thesis using True big u "1.prems"(3) unfolding eq
      by (simp add: b dec_group_at.simps [of i] Let_def)
  qed
qed

interpretation grp: prefix_code enc_group dec_group "\<lambda>g. 0 < g \<and> g < 2 ^ 31"
proof
  fix g :: int and rest
  assume "0 < g \<and> g < 2 ^ 31"
  then show "dec_group (enc_group g @ rest) = Some (g, rest)"
    using dec_group_at_enc [of g 0 0 rest] by (simp add: dec_group_def)
qed

interpretation be: prefix_code "be n" "dec_be n" "\<lambda>v. v < 256 ^ n" for n
  by unfold_locales (simp add: dec_be_def be_val_be)

section \<open>Encoding\<close>

text \<open>The announcer's identity: its 64 bytes of public keys, the last 32 for signatures, and its signing function.\<close>

record identity =
  public_key :: "byte list"
  sign :: "byte list \<Rightarrow> byte list"

text \<open>\<^verbatim>\<open>bytes.fromhex\<close>: white space is allowed between bytes.\<close>

fun fromhex :: "string \<Rightarrow> byte list option" where
  "fromhex [] = Some []"
| "fromhex (c # s) =
     (if is_space c then fromhex s
      else case s of
        [] \<Rightarrow> None
      | d # s' \<Rightarrow>
          (case (hex_val c, hex_val d, fromhex s') of
             (Some h, Some l, Some bs) \<Rightarrow> Some (of_nat (16 * h + l) # bs)
           | _ \<Rightarrow> None))"

fun is6 :: "addr \<Rightarrow> bool" where
  "is6 (IPv6 w z) = True"
| "is6 _ = False"

definition policy_ok :: "string \<Rightarrow> int list \<Rightarrow> bool" where
  "policy_ok mode groups \<longleftrightarrow>
     (mode = ''public'' \<or> mode = ''groups'') \<and> length groups \<le> 16 \<and> distinct groups
     \<and> (mode = ''groups'') = (groups \<noteq> []) \<and> list_all (\<lambda>g. 0 < g \<and> g < 2 ^ 31) groups"

definition label_char :: "char \<Rightarrow> bool" where
  "label_char c \<longleftrightarrow> c \<in> set ''abcdefghijklmnopqrstuvwxyzABCDEFGHIJKLMNOPQRSTUVWXYZ0123456789.-''"

definition label_ok :: "string \<Rightarrow> bool" where
  "label_ok name \<longleftrightarrow> 1 \<le> length name \<and> length name \<le> 128 \<and> list_all label_char name"

definition domain_of :: "bool \<Rightarrow> byte list" where
  "domain_of v3 = to_bytes ((if v3 then ''Qortal-MASQUE-Discovery-v3'' else ''Qortal-MASQUE-Discovery-v2'') @ [CHR 0x00])"

definition header_of :: "bool \<Rightarrow> addr \<Rightarrow> string \<Rightarrow> int list \<Rightarrow> byte list" where
  "header_of v3 host name groups =
     (if v3 then [3, of_nat (length name - 1) + (if is6 host then 128 else 0), of_nat (length groups)]
      else [2, if is6 host then 6 else 4, of_nat (length name), of_nat (length groups)])"

definition fields_of :: "bool \<Rightarrow> addr \<Rightarrow> nat \<Rightarrow> string \<Rightarrow> byte list \<Rightarrow> nat \<Rightarrow> int list \<Rightarrow> byte list" where
  "fields_of v3 host port name pn expiry groups =
     header_of v3 host name groups @ packed host @ be 2 port @ be 4 expiry @ pn @ to_bytes name @ concat (map enc_group groups)"

definition keys_of :: "identity \<Rightarrow> byte list option \<Rightarrow> byte list" where
  "keys_of I ticket_key = (case ticket_key of None \<Rightarrow> drop 32 (public_key I) | Some k \<Rightarrow> public_key I @ k)"

text \<open>\<^verbatim>\<open>encode\<close>; \<open>None\<close> is an exception. The host is what \<^verbatim>\<open>ipaddress.ip_address\<close> makes of the text.\<close>

definition encode ::
  "identity \<Rightarrow> addr \<Rightarrow> int \<Rightarrow> string \<Rightarrow> string \<Rightarrow> int \<Rightarrow> string \<Rightarrow> int list \<Rightarrow> string option \<Rightarrow> byte list option" where
  "encode I host port name pn expiry mode groups ticket_key =
     (let groups = sort groups in
      if \<not> policy_ok mode groups \<or> \<not> label_ok name then None
      else case fromhex pn of
        None \<Rightarrow> None
      | Some p \<Rightarrow>
          if \<not> (0 < port \<and> port \<le> 65535) \<or> length p \<noteq> 32 \<or> \<not> (0 \<le> expiry \<and> expiry < 2 ^ 32) then None
          else (let finish = (\<lambda>key.
              let data = fields_of (key \<noteq> None) host (nat port) name p (nat expiry) groups @ keys_of I key;
                  result = data @ sign I (domain_of (key \<noteq> None) @ data)
              in if length result > 316 then None else Some result) in
            case ticket_key of
              None \<Rightarrow> finish None
            | Some k \<Rightarrow>
                (case fromhex k of
                   None \<Rightarrow> None
                 | Some kb \<Rightarrow> if length kb \<noteq> 32 then None else finish (Some kb))))"

section \<open>Decoding\<close>

record advert =
  av :: nat
  ah :: addr
  ad_port :: nat
  ad_name :: string
  ad_cert :: string
  ax :: nat
  ticketIdentity :: "string option"
  ticketKeyId :: "string option"
  relayIdentity :: string
  accessMode :: string
  allowedGroupIds :: "int list"

definition slice :: "nat \<Rightarrow> nat \<Rightarrow> 'a list \<Rightarrow> 'a list" where
  "slice i j xs = take (j - i) (drop i xs)"

definition unpacked :: "byte list \<Rightarrow> addr" where
  "unpacked bs = (case bs of [a, b, c, d] \<Rightarrow> IPv4 a b c d | _ \<Rightarrow> IPv6 (of_nat (be_val bs)) [])"

text \<open>The part of \<^verbatim>\<open>decode\<close> after the header and the signature: the version, the family, the length of the name, the
  number of groups, and two readings of the clock.\<close>

definition decode_body :: "bool \<Rightarrow> bool \<Rightarrow> nat \<Rightarrow> nat \<Rightarrow> int \<Rightarrow> int \<Rightarrow> byte list \<Rightarrow> advert option" where
  "decode_body v3 v6 name_len cnt now now' raw =
     (let n = length raw; tail = (if v3 then 160 else 96);
          o1 = (if v3 then 3 else 4) + (if v6 then 16 else 4); o2 = o1 + 6; o3 = o2 + 32; o4 = o3 + name_len;
          host = unpacked (slice (if v3 then 3 else 4) o1 raw);
          port = be_val (slice o1 (o1 + 2) raw); expiry = be_val (slice (o1 + 2) o2 raw);
          name = slice o3 o4 raw; ident = slice (n - 160) (n - 96) raw
      in if list_ex (\<lambda>b. 128 \<le> b) name \<or> n < o4 + tail then None
         else (case dec_many dec_group cnt (slice o4 (n - tail) raw) of
           None \<Rightarrow> None
         | Some (groups, rest) \<Rightarrow>
             if rest \<noteq> [] \<or> groups \<noteq> sort (remdups groups) then None
             else if int expiry \<le> now \<or> now' + 3600 < int expiry then None
             else Some \<lparr>av = (if v3 then 3 else 2), ah = host, ad_port = port, ad_name = of_bytes name,
               ad_cert = hex_encode (slice o2 o3 raw), ax = expiry,
               ticketIdentity = (if v3 then Some (hex_encode ident) else None),
               ticketKeyId = (if v3 then Some (hex_encode (slice (n - 96) (n - 64) raw)) else None),
               relayIdentity = hex_encode (if v3 then drop 32 ident else slice (n - 96) (n - 64) raw),
               accessMode = (if groups \<noteq> [] then ''groups'' else ''public''), allowedGroupIds = groups\<rparr>))"

definition decode ::
  "(byte list \<Rightarrow> byte list \<Rightarrow> byte list \<Rightarrow> bool) \<Rightarrow> int \<Rightarrow> int \<Rightarrow> byte list \<Rightarrow> advert option" where
  "decode verify now now' raw =
     (let n = length raw in
      if n < 108 \<or> 316 < n \<or> \<not> (raw ! 0 = 2 \<or> raw ! 0 = 3) \<or> raw ! 0 = 2 \<and> \<not> (raw ! 1 = 4 \<or> raw ! 1 = 6) then None
      else (let v3 = (raw ! 0 = 3);
          v6 = (if v3 then 128 \<le> raw ! 1 else raw ! 1 = 6);
          name_len = (if v3 then unat (raw ! 1) mod 128 + 1 else unat (raw ! 2));
          cnt = unat (if v3 then raw ! 2 else raw ! 3);
          key = (if v3 then drop 32 (slice (n - 160) (n - 96) raw) else slice (n - 96) (n - 64) raw)
        in if name_len < 1 \<or> 128 < name_len \<or> 16 < cnt then None
           else if \<not> verify key (drop (n - 64) raw) (domain_of v3 @ take (n - 64) raw) then None
           else decode_body v3 v6 name_len cnt now now' raw))"

section \<open>Decoding inverts encoding\<close>

lemma slice_at: "raw = a @ b @ c \<Longrightarrow> i = length a \<Longrightarrow> j = i + length b \<Longrightarrow> slice i j raw = b"
  by (simp add: slice_def)

lemma length_enc_group: "length (enc_group g) = group_bytes g"
  by (induction g rule: enc_group.induct) (simp add: enc_group.simps group_bytes.simps)

lemma length_groups: "length (concat (map enc_group gs)) = sum_list (map group_bytes gs)"
  by (induction gs) (simp_all add: length_enc_group)

fun no_zone :: "addr \<Rightarrow> addr" where
  "no_zone (IPv6 w z) = IPv6 w []"
| "no_zone a = a"

lemma unpacked_packed: "a \<noteq> NoAddr \<Longrightarrow> unpacked (packed a) = no_zone a"
proof (cases a)
  case (IPv6 w z)
  have "unat w < 256 ^ 16" using unsigned_less [of w] by simp
  then have "be_val (be 16 (unat w)) = unat w" by (rule be_val_be)
  moreover have "bs \<noteq> [x, y, u, v]" if "length bs = 16" for bs :: "byte list" and x y u v using that by auto
  then have "unpacked (be 16 (unat w)) = IPv6 (of_nat (be_val (be 16 (unat w)))) []"
    unfolding unpacked_def by (auto split: list.splits simp del: be.simps)
  ultimately show ?thesis using IPv6 by simp
qed (simp_all add: unpacked_def)

lemma decode_body_parts:
  assumes raw: "raw = H @ P @ Q @ E @ pn @ L @ G @ K @ S"
    and len: "length H = (if v3 then 3 else 4)" "length P = (if v6 then 16 else 4)" "length Q = 2" "length E = 4"
      "length pn = 32" "length L = name_len" "length K = (if v3 then 96 else 32)" "length S = 64"
    and ascii: "\<not> list_ex (\<lambda>b. 128 \<le> b) L" and G: "dec_many dec_group cnt G = Some (gs, [])" "gs = sort (remdups gs)"
    and time: "now < int (be_val E)" "int (be_val E) \<le> now' + 3600"
  shows "decode_body v3 v6 name_len cnt now now' raw = Some \<lparr>av = (if v3 then 3 else 2), ah = unpacked P, ad_port = be_val Q,
    ad_name = of_bytes L, ad_cert = hex_encode pn, ax = be_val E,
    ticketIdentity = (if v3 then Some (hex_encode (take 64 K)) else None),
    ticketKeyId = (if v3 then Some (hex_encode (drop 64 K)) else None),
    relayIdentity = hex_encode (if v3 then drop 32 (take 64 K) else K),
    accessMode = (if gs \<noteq> [] then ''groups'' else ''public''), allowedGroupIds = gs\<rparr>"
proof -
  let ?o = "(if v3 then 3 else 4) :: nat" and ?f = "(if v6 then 16 else 4) :: nat" and ?n = "length raw"
  have n: "?n = ?o + ?f + 6 + 32 + name_len + length G + length K + 64" using len by (simp add: raw)
  have host: "slice ?o (?o + ?f) raw = P"
    by (rule slice_at [where a = H and c = "Q @ E @ pn @ L @ G @ K @ S"]) (use len raw in simp_all)
  have port: "slice (?o + ?f) (?o + ?f + 2) raw = Q"
    by (rule slice_at [where a = "H @ P" and c = "E @ pn @ L @ G @ K @ S"]) (use len raw in simp_all)
  have expiry: "slice (?o + ?f + 2) (?o + ?f + 6) raw = E"
    by (rule slice_at [where a = "H @ P @ Q" and c = "pn @ L @ G @ K @ S"]) (use len raw in simp_all)
  have cert: "slice (?o + ?f + 6) (?o + ?f + 6 + 32) raw = pn"
    by (rule slice_at [where a = "H @ P @ Q @ E" and c = "L @ G @ K @ S"]) (use len raw in simp_all)
  have name: "slice (?o + ?f + 6 + 32) (?o + ?f + 6 + 32 + name_len) raw = L"
    by (rule slice_at [where a = "H @ P @ Q @ E @ pn" and c = "G @ K @ S"]) (use len raw in simp_all)
  have grps: "slice (?o + ?f + 6 + 32 + name_len) (?n - (if v3 then 160 else 96)) raw = G"
    by (rule slice_at [where a = "H @ P @ Q @ E @ pn @ L" and c = "K @ S"]) (use len raw in simp_all)
  have fits: "\<not> ?n < ?o + ?f + 6 + 32 + name_len + (if v3 then 160 else 96)" using n len(7) by simp
  have ident: "slice (?n - 160) (?n - 96) raw = take 64 K" if v3
    by (rule slice_at [where a = "H @ P @ Q @ E @ pn @ L @ G" and c = "drop 64 K @ S"]) (use that len raw in simp_all)
  have key: "slice (?n - 96) (?n - 64) raw = (if v3 then drop 64 K else K)"
    by (rule slice_at [where a = "H @ P @ Q @ E @ pn @ L @ G @ (if v3 then take 64 K else [])" and c = S])
       (use len raw in simp_all)
  show ?thesis
    unfolding decode_body_def Let_def host port expiry cert name grps key using ascii G time fits ident by simp
qed

lemma encode_parts:
  assumes "encode I host port name pn expiry mode groups tk = Some raw"
  obtains p key data where "fromhex pn = Some p" and "length p = 32" and "policy_ok mode (sort groups)" and "label_ok name"
    and "0 < port" "port \<le> 65535" "0 \<le> expiry" "expiry < 2 ^ 32"
    and "tk = None \<and> key = None \<or> (\<exists>k kb. tk = Some k \<and> fromhex k = Some kb \<and> length kb = 32 \<and> key = Some kb)"
    and "data = fields_of (key \<noteq> None) host (nat port) name p (nat expiry) (sort groups) @ keys_of I key"
    and "raw = data @ sign I (domain_of (key \<noteq> None) @ data)" and "length raw \<le> 316"
proof -
  obtain p where p: "fromhex pn = Some p" "length p = 32" and c: "policy_ok mode (sort groups)" "label_ok name"
      "0 < port" "port \<le> 65535" "0 \<le> expiry" "expiry < 2 ^ 32"
    using assms by (auto simp: encode_def Let_def split: if_splits option.splits)
  then show ?thesis
  proof (cases tk)
    case None
    then show ?thesis using assms p c by (intro that [of p None]) (auto simp: encode_def Let_def split: if_splits)
  next
    case (Some k)
    then obtain kb where "fromhex k = Some kb" "length kb = 32"
      using assms p c by (auto simp: encode_def Let_def split: if_splits option.splits)
    then show ?thesis using Some assms p c
      by (intro that [of p "Some kb"]) (auto simp: encode_def Let_def split: if_splits)
  qed
qed

lemma header_back:
  assumes "1 \<le> length name" "length name \<le> 128" "length gs \<le> 16"
  shows "v3 \<Longrightarrow> header_of v3 host name gs ! 0 = 3 \<and> (128 \<le> header_of v3 host name gs ! 1 \<longleftrightarrow> is6 host)
      \<and> unat (header_of v3 host name gs ! 1) mod 128 + 1 = length name \<and> unat (header_of v3 host name gs ! 2) = length gs"
    and "\<not> v3 \<Longrightarrow> header_of v3 host name gs ! 0 = 2 \<and> header_of v3 host name gs ! 1 = (if is6 host then 6 else 4)
      \<and> unat (header_of v3 host name gs ! 2) = length name \<and> unat (header_of v3 host name gs ! 3) = length gs"
proof -
  have small: "unat (of_nat k :: byte) = k" if "k < 256" for k using that by (simp add: unsigned_of_nat take_bit_nat_eq_self)
  define b where "b = (of_nat (length name - 1) + (if is6 host then 128 else 0) :: byte)"
  have "b = of_nat (length name - 1 + (if is6 host then 128 else 0))" unfolding b_def of_nat_add by simp
  moreover have lt: "length name - 1 < 128" using assms by linarith
  then have "length name - 1 + (if is6 host then 128 else 0) < 256" by simp
  ultimately have u: "unat b = length name - 1 + (if is6 host then 128 else 0)" by (simp only: small)
  then have "128 \<le> b \<longleftrightarrow> is6 host" using lt by (cases "is6 host") (simp_all add: word_le_nat_alt)
  moreover have hdr: "v3 \<Longrightarrow> header_of v3 host name gs = [3, b, of_nat (length gs)]"
    by (simp only: header_of_def b_def if_True)
  moreover have "unat b mod 128 = length name - 1"
    unfolding u using lt by (cases "is6 host") (simp_all only: if_True if_False mod_add_self2 mod_less add_0_right)
  then have "unat b mod 128 + 1 = length name" using assms(1) by simp
  ultimately show "v3 \<Longrightarrow> header_of v3 host name gs ! 0 = 3 \<and> (128 \<le> header_of v3 host name gs ! 1 \<longleftrightarrow> is6 host)
      \<and> unat (header_of v3 host name gs ! 1) mod 128 + 1 = length name \<and> unat (header_of v3 host name gs ! 2) = length gs"
    using assms small hdr by simp
  show "\<not> v3 \<Longrightarrow> header_of v3 host name gs ! 0 = 2 \<and> header_of v3 host name gs ! 1 = (if is6 host then 6 else 4)
      \<and> unat (header_of v3 host name gs ! 2) = length name \<and> unat (header_of v3 host name gs ! 3) = length gs"
    using assms small by (simp add: header_of_def numeral_3_eq_3 numeral_2_eq_2)
qed

lemma label_ascii: "label_ok name \<Longrightarrow> \<not> list_ex (\<lambda>b. 128 \<le> b) (to_bytes name)"
proof -
  have "label_char c \<Longrightarrow> (of_char c :: nat) < 128" for c by (auto simp: label_char_def)
  then have "\<not> 128 \<le> (of_nat (of_char c) :: byte)" if "label_char c" for c
    using that by (fastforce simp: word_le_nat_alt)
  then show "label_ok name \<Longrightarrow> \<not> list_ex (\<lambda>b. 128 \<le> b) (to_bytes name)"
    by (auto simp: label_ok_def to_bytes_def list_ex_iff list_all_iff)
qed

lemma decode_parts:
  assumes raw: "raw = header_of v3 host name gs @ M @ K @ S"
    and name: "1 \<le> length name" "length name \<le> 128" and gs: "length gs \<le> 16"
    and len: "length K = (if v3 then 96 else 32)" "length S = 64" "length pk = 64" "length raw \<le> 316"
      "45 \<le> length (header_of v3 host name gs) + length M"
    and key: "v3 \<Longrightarrow> take 64 K = pk" "\<not> v3 \<Longrightarrow> K = drop 32 pk"
    and sig: "verify (drop 32 pk) S (domain_of v3 @ header_of v3 host name gs @ M @ K)"
  shows "decode verify now now' raw = decode_body v3 (is6 host) (length name) (length gs) now now' raw"
proof -
  let ?H = "header_of v3 host name gs" and ?n = "length raw"
  have n: "?n = length ?H + length M + length K + 64" using len by (simp add: raw)
  have nth: "raw ! i = ?H ! i" if "i < length ?H" for i using that by (simp add: raw nth_append)
  have first: "raw ! 0 = ?H ! 0" "raw ! 1 = ?H ! 1" "raw ! 2 = ?H ! 2" "\<not> v3 \<Longrightarrow> raw ! 3 = ?H ! 3"
    by (intro nth, simp add: header_of_def)+
  have "take (?n - 64) raw = ?H @ M @ K" "drop (?n - 64) raw = S" using len(2) by (simp_all add: raw)
  moreover have "slice (?n - 160) (?n - 96) raw = pk" if v3
  proof (rule slice_at [where a = "?H @ M" and c = "drop 64 K @ S"])
    show "raw = (?H @ M) @ pk @ drop 64 K @ S" using key(1) [OF that] by (metis append_assoc append_take_drop_id raw)
  qed (use that n len in simp_all)
  moreover have "slice (?n - 96) (?n - 64) raw = drop 32 pk" if "\<not> v3"
    by (rule slice_at [where a = "?H @ M" and c = S]) (use that key(2) n len in \<open>simp_all add: raw\<close>)
  moreover have "name \<noteq> []" using name(1) by auto
  moreover have "108 \<le> ?n" using n len by (simp split: if_splits)
  ultimately show ?thesis
    using sig len(4) header_back [OF name gs, of v3 host] first name gs by (cases v3) (simp_all add: decode_def Let_def)
qed

text \<open>What signatures promise here: fixed lengths, and that the verifier accepts what was signed.\<close>

definition signs_for :: "(byte list \<Rightarrow> byte list \<Rightarrow> byte list \<Rightarrow> bool) \<Rightarrow> identity \<Rightarrow> bool" where
  "signs_for verify I \<longleftrightarrow> length (public_key I) = 64
     \<and> (\<forall>m. length (sign I m) = 64 \<and> verify (drop 32 (public_key I)) (sign I m) m)"

lemma sorted_set: "distinct xs \<Longrightarrow> sort xs = sort (remdups (sort xs))"
  by (simp add: distinct_remdups_id sorted_sort_id)

lemma decode_announced:
  assumes enc: "encode I host port name pn expiry mode groups tk = Some raw" and "signs_for verify I" and "host \<noteq> NoAddr"
    and "now < expiry" and "expiry \<le> now' + 3600"
  shows "\<exists>p. fromhex pn = Some p \<and> decode verify now now' raw = Some \<lparr>av = (if tk = None then 2 else 3), ah = no_zone host,
    ad_port = nat port, ad_name = name, ad_cert = hex_encode p, ax = nat expiry,
    ticketIdentity = (if tk = None then None else Some (hex_encode (public_key I))),
    ticketKeyId = map_option (\<lambda>k. hex_encode (the (fromhex k))) tk,
    relayIdentity = hex_encode (drop 32 (public_key I)), accessMode = mode, allowedGroupIds = sort groups\<rparr>"
proof -
  obtain p key data where e: "fromhex pn = Some p" "length p = 32" "policy_ok mode (sort groups)" "label_ok name"
      "0 < port" "port \<le> 65535" "0 \<le> expiry" "expiry < 2 ^ 32"
    and key: "tk = None \<and> key = None \<or> (\<exists>k kb. tk = Some k \<and> fromhex k = Some kb \<and> length kb = 32 \<and> key = Some kb)"
    and data: "data = fields_of (key \<noteq> None) host (nat port) name p (nat expiry) (sort groups) @ keys_of I key"
    and raw: "raw = data @ sign I (domain_of (key \<noteq> None) @ data)" and n: "length raw \<le> 316"
    by (rule encode_parts [OF enc])
  define v3 where "v3 \<longleftrightarrow> key \<noteq> None"
  let ?H = "header_of v3 host name (sort groups)" and ?G = "concat (map enc_group (sort groups))" and ?K = "keys_of I key"
    and ?S = "sign I (domain_of v3 @ data)"
  have S: "length ?S = 64" "verify (drop 32 (public_key I)) ?S (domain_of v3 @ data)" and pk: "length (public_key I) = 64"
    using assms(2) by (simp_all add: signs_for_def)
  have whole: "raw = ?H @ packed host @ be 2 (nat port) @ be 4 (nat expiry) @ p @ to_bytes name @ ?G @ ?K @ ?S"
    by (simp add: raw data fields_of_def v3_def)
  have H: "length ?H = (if v3 then 3 else 4)" by (simp add: header_of_def)
  have P: "length (packed host) = (if is6 host then 16 else 4)" using assms(3) by (cases host) (simp_all add: length_packed)
  have K: "length ?K = (if v3 then 96 else 32)" and kt: "v3 \<Longrightarrow> take 64 ?K = public_key I" "\<not> v3 \<Longrightarrow> ?K = drop 32 (public_key I)"
    using key pk by (auto simp: keys_of_def v3_def)
  have gs: "length (sort groups) \<le> 16" "list_all (\<lambda>g. 0 < g \<and> g < 2 ^ 31) (sort groups)" "sort groups = sort (remdups (sort groups))"
    using e(3) by (auto simp: policy_ok_def intro: sorted_set)
  have G: "dec_many dec_group (length (sort groups)) ?G = Some (sort groups, [])"
    using grp.dec_many_enc [OF gs(2), of "[]"] by simp
  have E: "be_val (be 4 (nat expiry)) = nat expiry" "be_val (be 2 (nat port)) = nat port"
    using e(5-8) by (simp_all add: be_val_be nat_less_iff del: be.simps)
  have name: "1 \<le> length name" "length name \<le> 128" using e(4) by (simp_all add: label_ok_def)
  have body: "decode_body v3 (is6 host) (length name) (length (sort groups)) now now' raw = Some \<lparr>av = (if v3 then 3 else 2), ah = unpacked (packed host), ad_port = nat port,
    ad_name = name, ad_cert = hex_encode p, ax = nat expiry,
    ticketIdentity = (if v3 then Some (hex_encode (take 64 ?K)) else None),
    ticketKeyId = (if v3 then Some (hex_encode (drop 64 ?K)) else None),
    relayIdentity = hex_encode (if v3 then drop 32 (take 64 ?K) else ?K),
    accessMode = (if sort groups \<noteq> [] then ''groups'' else ''public''), allowedGroupIds = sort groups\<rparr>"
    using decode_body_parts [OF whole H P _ _ e(2) _ K S(1) label_ascii [OF e(4)] G gs(3), of "length name" now now'] assms(4,5) e(7)
    by (simp add: E del: be.simps)
  have "decode verify now now' raw = decode_body v3 (is6 host) (length name) (length (sort groups)) now now' raw"
  proof (rule decode_parts)
    show "raw = ?H @ (packed host @ be 2 (nat port) @ be 4 (nat expiry) @ p @ to_bytes name @ ?G) @ ?K @ ?S" by (simp add: whole)
    show "45 \<le> length ?H + length (packed host @ be 2 (nat port) @ be 4 (nat expiry) @ p @ to_bytes name @ ?G)"
      using H P e(2) name(1) by (simp split: if_splits)
    show "verify (drop 32 (public_key I)) ?S (domain_of v3 @ ?H @ (packed host @ be 2 (nat port) @ be 4 (nat expiry) @ p @ to_bytes name @ ?G) @ ?K)"
      using S(2) by (simp add: data fields_of_def v3_def)
  qed (use name gs(1) K kt pk S(1) n in simp_all)
  then show ?thesis using body e(1,3) key kt assms(3) pk
    by (auto simp: v3_def keys_of_def unpacked_packed policy_ok_def)
qed

text \<open>C11: A Hub reads exactly what the relay announced. Whatever \<^verbatim>\<open>encode\<close> produces, \<^verbatim>\<open>decode\<close> accepts while the lease runs, and it returns the host (without
  a zone), port, name, certificate hash, expiry, access mode, the groups in order, and the keys of the announcer.\<close>

theorem discovery_roundtrip:
  assumes enc: "encode I host port name pn expiry mode groups tk = Some raw" and "signs_for verify I" and "host \<noteq> NoAddr"
    and "now < expiry" and "expiry \<le> now' + 3600"
  shows "\<exists>p. fromhex pn = Some p \<and> decode verify now now' raw = Some \<lparr>av = (if tk = None then 2 else 3), ah = no_zone host,
    ad_port = nat port, ad_name = name, ad_cert = hex_encode p, ax = nat expiry,
    ticketIdentity = (if tk = None then None else Some (hex_encode (public_key I))),
    ticketKeyId = map_option (\<lambda>k. hex_encode (the (fromhex k))) tk,
    relayIdentity = hex_encode (drop 32 (public_key I)), accessMode = mode, allowedGroupIds = sort groups\<rparr>"
  using assms by (rule decode_announced)

section \<open>What can be announced\<close>

lemma sum_list_sort: "sum_list (map f (sort xs)) = (sum_list (map f xs) :: nat)"
  by (metis mset_map mset_sort sum_mset_sum_list)

lemma encoded_length:
  assumes "length (public_key I) = 64" "\<forall>m. length (sign I m) = 64" "length p = 32" "key = None \<or> (\<exists>k. key = Some k \<and> length k = 32)"
    and data: "data = fields_of (key \<noteq> None) host port name p expiry (sort groups) @ keys_of I key"
  shows "length (data @ sign I (domain_of (key \<noteq> None) @ data)) = announcement_size (key \<noteq> None) host name groups"
  using assms
  by (auto simp: fields_of_def header_of_def keys_of_def announcement_size_def length_packed length_groups sum_list_sort
      simp del: be.simps)

lemma hex_digit_space: "n < 16 \<Longrightarrow> \<not> is_space (hex_digit n)"
proof -
  assume "n < 16"
  then have "hex_val (hex_digit n) = Some n" by simp
  moreover have "is_space c \<Longrightarrow> hex_val c = None" for c by (auto simp: is_space_def hex_val_def)
  ultimately show ?thesis by fastforce
qed

lemma fromhex_hex [simp]: "fromhex (hex_encode bs) = Some bs"
proof (induction bs)
  case (Cons b bs)
  have "unat b div 16 < 16" using unat_byte_less [of b] by linarith
  then show ?case using Cons hex_digit_space by (simp add: div_mult_mod_eq mult.commute)
qed simp

lemma sort_eq_Nil [simp]: "sort xs = [] \<longleftrightarrow> xs = []"
  by (metis length_0_conv length_sort)

lemma policy_announceable:
  assumes "newAccessPolicy parse hash c pn = Inr p" and "\<forall>g \<in> set (group_ids c). g < 2 ^ 31"
  shows "policy_ok (Mode (config p)) (sort (group_ids c))"
proof -
  let ?c = "if Mode c = [] then c\<lparr>Mode := ''public''\<rparr> else c"
  obtain c' where c': "validate parse ?c = Inr c'" "config p = c'"
    using assms(1) by (auto simp: newAccessPolicy_def policy_config_def Let_def split: sum.splits)
  then have good: "good_config parse ?c" and m: "Mode c' = Mode ?c" by (auto simp: validate_iff)
  have ids: "group_ids ?c = group_ids c" by (simp add: group_ids_def)
  from good show ?thesis
    using assms(2) c'(2) m unfolding good_config_def ids by (auto simp: policy_ok_def list_all_iff)
qed

lemma start_policy:
  assumes "Start lib B X parse env cfg fs = (fs', cs, Inr (s, p, tickets, md))"
  shows "\<exists>pn. newAccessPolicy parse (sha256 lib) (Access cfg) pn = Inr p"
proof -
  let ?c = "if MaxSessions cfg \<le> 0 then cfg\<lparr>MaxSessions := 256\<rparr> else cfg"
  have c: "Access ?c = Access cfg" by simp
  show ?thesis using assms unfolding Start_def Let_def c
    by (auto split: if_splits option.splits prod.splits sum.splits)
qed

text \<open>C31: A relay that starts can be announced, if its name can be spelled. For a relay that \<^verbatim>\<open>Start\<close> lets run, with the endpoint, name and
  certificate hash of its metadata, the announcer's \<^verbatim>\<open>encode\<close> succeeds, within 316 bytes and with the very length \<^verbatim>\<open>Start\<close> computed, exactly
  when every character of the server name is a letter, a digit, a dot or a hyphen, which \<^verbatim>\<open>Start\<close> does not check.\<close>

theorem start_announceable:
  assumes start: "Start lib B X parse env cfg fs = (fs', cs, Inr (s, p, tickets, md))"
    and "parse_addr_port (RelayAddress md) = Some ap" and sha: "\<forall>m. length (sha256 lib m) = 32"
    and int32: "\<forall>g \<in> set (group_ids (Access cfg)). g < 2 ^ 31" and sg: "signs_for verify I"
    and "0 \<le> expiry" "expiry < 2 ^ 32" and tk: "length keyId = 32"
  shows "(case encode I (ap_addr ap) (uint (ap_port ap)) (RelayServerName md) (RelayCertSHA256 md) expiry (Mode (config p))
            (group_ids (Access cfg)) (if tickets = None then None else Some (hex_encode keyId)) of
       None \<Rightarrow> \<not> list_all label_char (ServerName cfg)
     | Some raw \<Rightarrow> list_all label_char (ServerName cfg) \<and> length raw \<le> 316
         \<and> length raw = announcement_size (Mode (Access cfg) = ''groups'') (ap_addr ap) (ServerName cfg) (group_ids (Access cfg)))"
proof -
  obtain public chain der where st: "parse_addr_port (RelayAddress md) = Some public" "ap_port public \<noteq> 0"
      "RelayCertSHA256 md = hex_encode (sha256 lib der)" "RelayServerName md = ServerName cfg"
      "1 \<le> length (ServerName cfg)" "length (ServerName cfg) \<le> 128" "tickets \<noteq> None \<longleftrightarrow> Mode (Access cfg) = ''groups''"
      "announcement_size (Mode (Access cfg) = ''groups'') (ap_addr public) (ServerName cfg) (group_ids (Access cfg)) \<le> 316"
    using start_facts [OF start] by blast
  have ap: "public = ap" using st(1) assms(2) by simp
  have pol: "policy_ok (Mode (config p)) (sort (group_ids (Access cfg)))"
    using start_policy [OF start] policy_announceable int32 by blast
  have label: "label_ok (ServerName cfg) \<longleftrightarrow> list_all label_char (ServerName cfg)" using st(5,6) by (simp add: label_ok_def)
  have port: "0 < uint (ap_port ap)" "uint (ap_port ap) \<le> 65535"
    using st(2) unsigned_less [of "ap_port ap", where ?'a = int] by (auto simp: ap word_greater_zero_iff [symmetric] word_less_def)
  let ?key = "if tickets = None then None else Some keyId"
  let ?data = "fields_of (?key \<noteq> None) (ap_addr ap) (nat (uint (ap_port ap))) (ServerName cfg) (sha256 lib der) (nat expiry)
      (sort (group_ids (Access cfg))) @ keys_of I ?key"
  have "length (?data @ sign I (domain_of (?key \<noteq> None) @ ?data)) = announcement_size (?key \<noteq> None) (ap_addr ap) (ServerName cfg) (group_ids (Access cfg))"
    by (rule encoded_length) (use sg sha tk in \<open>simp_all add: signs_for_def\<close>)
  moreover have "?key \<noteq> None \<longleftrightarrow> Mode (Access cfg) = ''groups''" using st(7) by auto
  ultimately show ?thesis
    using st pol label port assms(6,7) sha tk unfolding ap
    by (cases tickets) (simp_all add: encode_def Let_def split: if_splits)
qed

section \<open>A worked example\<close>

definition demo_identity :: identity where
  "demo_identity = \<lparr>public_key = replicate 64 0, sign = (\<lambda>m. replicate 64 0)\<rparr>"

lemma demo_signs: "signs_for (\<lambda>k sg m. True) demo_identity"
  by (simp add: signs_for_def demo_identity_def)

lemma demo_started:
  "Start demo_lib rbt_bolt demo_x509 demo_parse (demo_start_env\<lparr>st_listen := True\<rparr>) demo_start_cfg [] =
     (demo_fs, [], Inr (new_server demo_start_cfg True, demo_start_policy, Some demo_start_auth,
        \<lparr>RelayAddress = show_addr_port demo_public, RelayServerName = ''relay'', RelayCertSHA256 = demo_pin\<rparr>))"
  using demo_start [of True] by simp

lemma demo_sha: "\<forall>m. length (sha256 demo_lib m) = 32"
  by (simp add: demo_lib_def demo_lib0_def min_def)

lemma demo_groups31: "\<forall>g \<in> set (group_ids (Access demo_start_cfg)). g < 2 ^ 31"
  by (simp add: group_ids_def demo_config_def)

definition demo_encode :: "byte list option" where
  "demo_encode = encode demo_identity (ap_addr demo_public) (uint (ap_port demo_public)) ''relay'' demo_pin 1000 ''groups''
     (group_ids demo_config) (Some (hex_encode (replicate 32 0)))"

theorem start_announceable_witness: "\<exists>raw. demo_encode = Some raw \<and> length raw = 212"
proof -
  have "parse_addr_port (show_addr_port demo_public) = Some demo_public" by (simp add: parse_show_addr_port demo_public_def)
  moreover have "list_all label_char ''relay''" by (simp add: label_char_def)
  moreover have "Mode (config demo_start_policy) = ''groups''" "Mode demo_config = ''groups''"
    by (simp_all add: demo_start_policy_def demo_policy_def demo_config_def)
  ultimately show ?thesis
    using start_announceable [OF demo_started _ demo_sha demo_groups31 demo_signs, of demo_public 1000 "replicate 32 0"] demo_size
    by (auto simp: demo_encode_def split: option.splits)
qed

lemma demo_encoded: "\<exists>raw. demo_encode = Some raw"
proof -
  have "policy_ok ''groups'' (sort (group_ids demo_config))" by (simp add: policy_ok_def group_ids_def demo_config_def)
  moreover have "label_ok ''relay''" by (simp add: label_ok_def label_char_def)
  moreover have "length (sha256 demo_lib [1]) = 32" using demo_sha by blast
  moreover have "length (fields_of True (ap_addr demo_public) (nat (uint (ap_port demo_public))) ''relay'' (sha256 demo_lib [1]) (nat 1000)
      (sort (group_ids demo_config)) @ keys_of demo_identity (Some (replicate 32 0))) + 64 \<le> 316"
    using demo_sha by (simp add: fields_of_def header_of_def keys_of_def demo_identity_def demo_public_def length_enc_group
        group_ids_def demo_config_def group_bytes.simps del: be.simps)
  moreover have "0 < uint (ap_port demo_public)" "uint (ap_port demo_public) \<le> 65535" by (simp_all add: demo_public_def)
  ultimately show ?thesis
    by (auto simp: demo_encode_def encode_def Let_def demo_pin_def demo_identity_def)
qed

theorem discovery_roundtrip_witness:
  "\<exists>raw ad. demo_encode = Some raw \<and> decode (\<lambda>k sg m. True) 900 950 raw = Some ad
     \<and> ah ad = IPv4 93 184 216 34 \<and> ad_name ad = ''relay'' \<and> allowedGroupIds ad = [3, 7]"
proof -
  obtain raw where raw: "demo_encode = Some raw" using demo_encoded by blast
  have "ap_addr demo_public \<noteq> NoAddr" by (simp add: demo_public_def)
  from discovery_roundtrip [OF raw [unfolded demo_encode_def] demo_signs this, of 900 950] raw
  show ?thesis by (auto simp: demo_public_def group_ids_def demo_config_def)
qed

end
