(* ===== verification/Announcer.thy ===== *)
theory Announcer
  imports Discovery_Codec
begin

text \<open>
  The announcer process, \<^verbatim>\<open>scripts/masque_relay_discovery.py\<close>: the check of its arguments, the advertisements and the loop that refreshes them, the answers
  to queries, and the requests for tickets it passes on to the relay's ticket authority.

  The Reticulum library is an argument: an identity (the record \<open>identity\<close> of the codec), whether an announce call returns, which links come and go. So are the JSON
  parser, the exchange with the ticket authority over its socket, and the address tables of the standard library. Times are in seconds, but those of the monotonic clock, which
  are in nanoseconds. An exception is \<open>None\<close>, or \<open>Inl\<close>.
\<close>

section \<open>Arguments\<close>

text \<open>\<open>an_groups\<close> is the list that \<^verbatim>\<open>json.loads\<close> makes of the option.\<close>

record ann_args =
  an_host :: string
  an_port :: int
  an_server_name :: string
  an_cert :: string
  an_allow_local :: bool
  an_mode :: string
  an_groups :: "int list"
  an_socket :: "string option"

datatype ann_err = BadHost | NotGlobal | BadPort | NameLength | NameChars | BadCertPin | NoTicketSocket

text \<open>\<^verbatim>\<open>str.strip\<close> and \<^verbatim>\<open>str.lower\<close>; the latter only matters on the letters of the hexadecimal digits.\<close>

definition py_space :: "char \<Rightarrow> bool" where
  "py_space c \<longleftrightarrow> (let n = of_char c :: nat in 9 \<le> n \<and> n \<le> 13 \<or> 28 \<le> n \<and> n \<le> 32 \<or> n = 133 \<or> n = 160)"

definition py_strip :: "string \<Rightarrow> string" where
  "py_strip s = rev (dropWhile py_space (rev (dropWhile py_space s)))"

definition py_lower :: "char \<Rightarrow> char" where
  "py_lower c = (let n = of_char c :: nat in if 65 \<le> n \<and> n \<le> 90 then char_of (n + 32) else c)"

definition lower_hex :: "char \<Rightarrow> bool" where
  "lower_hex c \<longleftrightarrow> c \<in> set ''0123456789abcdef''"

text \<open>\<^verbatim>\<open>ipaddress.ip_address\<close> takes the texts \<^verbatim>\<open>netip.ParseAddr\<close> takes, but for a zone with a percent sign. Its tables behind \<^verbatim>\<open>is_global\<close> and \<^verbatim>\<open>is_loopback\<close> differ between
  releases of Python, in particular on IPv4-mapped addresses, so they are arguments.\<close>

definition ip_address :: "string \<Rightarrow> addr option" where
  "ip_address s =
     (case parse_addr s of None \<Rightarrow> None | Some ip \<Rightarrow> if CHR ''%'' \<in> set (zone ip) then None else Some ip)"

record ip_tables =
  is_global :: "addr \<Rightarrow> bool"
  py_is_loopback :: "addr \<Rightarrow> bool"

definition ann_validate :: "ip_tables \<Rightarrow> ann_args \<Rightarrow> (ann_err, ann_args) result" where
  "ann_validate P a =
     (case ip_address (an_host a) of
        None \<Rightarrow> Inl BadHost
      | Some ip \<Rightarrow>
          if \<not> is_global P ip \<and> \<not> (an_allow_local a \<and> py_is_loopback P ip) then Inl NotGlobal
          else if an_port a < 1 \<or> an_port a > 65535 then Inl BadPort
          else if an_server_name a = [] \<or> length (an_server_name a) > 128 then Inl NameLength
          else if \<not> list_all label_char (an_server_name a) then Inl NameChars
          else (let p = map py_lower (py_strip (an_cert a)) in
            if length p \<noteq> 64 \<or> \<not> list_all lower_hex p then Inl BadCertPin
            else Inr (a\<lparr>an_cert := p\<rparr>)))"

text \<open>\<^verbatim>\<open>start\<close> up to the loop: the identity it uses, whether it writes it to the file, and the paths it serves. \<open>stored\<close> is the identity in the file, if there is a readable one.\<close>

definition ann_start ::
  "ip_tables \<Rightarrow> 'i option \<Rightarrow> 'i \<Rightarrow> ann_args \<Rightarrow> (ann_err, ann_args \<times> 'i \<times> bool \<times> string list) result" where
  "ann_start P stored new_identity a =
     (case ann_validate P a of
        Inl e \<Rightarrow> Inl e
      | Inr a' \<Rightarrow>
          (let (ident, saved) = (case stored of Some i \<Rightarrow> (i, False) | None \<Rightarrow> (new_identity, True)) in
           if an_mode a' = ''groups'' then
             if an_socket a' = None \<or> an_socket a' = Some [] then Inl NoTicketSocket
             else Inr (a', ident, saved, [''/catalog'', ''/challenge'', ''/issue''])
           else Inr (a', ident, saved, [])))"

section \<open>Advertisements\<close>

text \<open>The answer of the ticket authority: an exception, an error, or a value, here the member \<^verbatim>\<open>keyId\<close> of the catalog, if it has one.\<close>

datatype 'v answer = Raised | ErrorReply string | Value 'v

text \<open>\<^verbatim>\<open>ticket_request\<close> on what the exchange over the socket comes to: the status, the error header and up to 8193 bytes of the body.\<close>

definition ticket_request :: "(byte list \<Rightarrow> 'v option) \<Rightarrow> (nat \<times> string option \<times> byte list) option \<Rightarrow> 'v answer" where
  "ticket_request loads exchange =
     (case exchange of
        None \<Rightarrow> Raised
      | Some (status, header, body) \<Rightarrow>
          (let raw = take 8193 body in
           if length raw > 8192 then Raised
           else if status \<noteq> 200 then
             ErrorReply (case header of Some h \<Rightarrow> if h = [] then ''RELAY_AUTH_UNAVAILABLE'' else h | None \<Rightarrow> ''RELAY_AUTH_UNAVAILABLE'')
           else (case loads raw of None \<Rightarrow> Raised | Some v \<Rightarrow> Value v)))"

definition LEASE_SECONDS :: int where
  "LEASE_SECONDS = 600"

definition advertisement_payload :: "identity \<Rightarrow> string option answer \<Rightarrow> int \<Rightarrow> ann_args \<Rightarrow> byte list option" where
  "advertisement_payload I catalog now a =
     (case ip_address (an_host a) of
        None \<Rightarrow> None
      | Some host \<Rightarrow>
          (let enc = encode I host (an_port a) (an_server_name a) (an_cert a) (now + LEASE_SECONDS) (an_mode a) (an_groups a) in
           if an_mode a = ''groups'' then
             (case catalog of Value (Some ticket_key) \<Rightarrow> enc (Some ticket_key) | _ \<Rightarrow> None)
           else enc None))"

text \<open>\<^verbatim>\<open>json.dumps\<close> of an ASCII text, and the hint for old Hubs.\<close>

definition json_char :: "char \<Rightarrow> string" where
  "json_char c =
     (let n = of_char c :: nat; esc = (\<lambda>d. [CHR 0x5C, d]) in
      if n = 34 \<or> n = 92 then esc c
      else if n = 8 then esc CHR ''b'' else if n = 9 then esc CHR ''t'' else if n = 10 then esc CHR ''n''
      else if n = 12 then esc CHR ''f'' else if n = 13 then esc CHR ''r''
      else if 32 \<le> n \<and> n \<le> 126 then [c]
      else esc CHR ''u'' @ ''00'' @ [hex_digit (n div 16), hex_digit (n mod 16)])"

definition legacy_hint :: "int \<Rightarrow> ann_args \<Rightarrow> string" where
  "legacy_hint now a =
     (let q = (\<lambda>s. CHR 0x22 # concat (map json_char s) @ [CHR 0x22]) in
      ''{'' @ q ''v'' @ '':1,'' @ q ''h'' @ '':'' @ q (an_host a) @ '','' @ q ''p'' @ '':'' @ itoa (an_port a) @ '','' @ q ''s'' @ '':'' @ q (an_server_name a)
      @ '','' @ q ''c'' @ '':'' @ q (an_cert a) @ '','' @ q ''x'' @ '':'' @ itoa (now + LEASE_SECONDS) @ ''}'')"

text \<open>Two readings of the clock.\<close>

definition advertisement_payloads :: "identity \<Rightarrow> string option answer \<Rightarrow> int \<Rightarrow> int \<Rightarrow> ann_args \<Rightarrow> byte list list option" where
  "advertisement_payloads I catalog now now' a =
     (case advertisement_payload I catalog now a of
        None \<Rightarrow> None
      | Some payload \<Rightarrow> Some (payload # (if an_mode a = ''public'' then [to_bytes (legacy_hint now' a)] else [])))"

text \<open>\<^verbatim>\<open>announce\<close>: what is put on the air, the destination itself as an empty announcement, and whether it returns. \<open>sends\<close> tells how many announce calls return.\<close>

definition announce_once :: "nat \<Rightarrow> byte list list option \<Rightarrow> bool \<Rightarrow> ann_args \<Rightarrow> byte list list \<times> bool" where
  "announce_once sends payloads stopped a =
     (if stopped then ([], True)
      else (let own = (if an_mode a = ''groups'' then [[]] else []) in
        if length own > sends then ([], False)
        else case payloads of
            None \<Rightarrow> (own, False)
          | Some ps \<Rightarrow> (take sends (own @ ps), length (own @ ps) \<le> sends)))"

section \<open>The loop\<close>

text \<open>Per iteration, whether \<^verbatim>\<open>announce\<close> returns and whether the wait is cut short by a signal; the result is the delays.\<close>

fun run_announcements :: "nat \<Rightarrow> (bool \<times> bool) list \<Rightarrow> nat list" where
  "run_announcements retry_delay [] = []"
| "run_announcements retry_delay ((ok, stop) # rest) =
     (let delay = (if ok then 120 else retry_delay); retry' = (if ok then 5 else min (retry_delay * 2) 60) in
      delay # (if stop then [] else run_announcements retry' rest))"

section \<open>Queries, links and requests\<close>

text \<open>JSON values as far as they are looked at; \<open>PyNum\<close> is a number, truncated.\<close>

datatype py = PyNone | PyBool bool | PyNum int | PyStr string | PyList "py list" | PyDict "(string \<times> py) list"

text \<open>\<^verbatim>\<open>int(value.get("v") or 0)\<close>; \<open>int_str\<close> reads a string.\<close>

definition py_version :: "(string \<Rightarrow> int option) \<Rightarrow> py option \<Rightarrow> int option" where
  "py_version int_str v =
     (case v of
        Some (PyBool b) \<Rightarrow> Some (if b then 1 else 0)
      | Some (PyNum n) \<Rightarrow> Some n
      | Some (PyStr s) \<Rightarrow> if s = [] then Some 0 else int_str s
      | Some (PyList xs) \<Rightarrow> if xs = [] then Some 0 else None
      | Some (PyDict xs) \<Rightarrow> if xs = [] then Some 0 else None
      | _ \<Rightarrow> Some 0)"

text \<open>\<^verbatim>\<open>received_announce\<close>: whether the announcement is a query to be answered.\<close>

definition received_announce :: "(byte list \<Rightarrow> py option) \<Rightarrow> (string \<Rightarrow> int option) \<Rightarrow> byte list \<Rightarrow> byte list \<Rightarrow> byte list \<Rightarrow> bool" where
  "received_announce loads int_str local_hash destination_hash raw \<longleftrightarrow>
     destination_hash \<noteq> local_hash \<and> length raw \<le> 128
     \<and> (case loads raw of
          Some (PyDict d) \<Rightarrow> py_version int_str (map_of d ''v'') = Some 1 \<and> map_of d ''q'' = Some (PyBool True)
        | _ \<Rightarrow> False)"

text \<open>The shared state: the time of the last answer, the free slots for ticket requests, and the open links.\<close>

record ann_state =
  last_query_response_at :: time
  ticket_slots :: nat
  ticket_links :: "nat list"

definition ann_init :: ann_state where
  "ann_init = \<lparr>last_query_response_at = 0, ticket_slots = 8, ticket_links = []\<rparr>"

text \<open>\<^verbatim>\<open>answer_query\<close>: whether a response is scheduled.\<close>

definition answer_query :: "time \<Rightarrow> ann_state \<Rightarrow> ann_state \<times> bool" where
  "answer_query now s = (if now - last_query_response_at s < second then (s, False) else (s\<lparr>last_query_response_at := now\<rparr>, True))"

text \<open>\<^verbatim>\<open>send_query_response\<close>: the packets of a response.\<close>

definition send_query_response :: "byte list \<Rightarrow> byte list \<Rightarrow> byte list list option \<Rightarrow> byte list list" where
  "send_query_response response_hash query_hash payloads =
     (if response_hash \<noteq> query_hash then [] else case payloads of None \<Rightarrow> [] | Some ps \<Rightarrow> ps)"

text \<open>\<^verbatim>\<open>ticket_link_established\<close>: whether the link is kept; otherwise it is torn down. Then the callback of the end of a link.\<close>

definition ticket_link_established :: "nat \<Rightarrow> ann_state \<Rightarrow> ann_state \<times> bool" where
  "ticket_link_established l s =
     (if length (ticket_links s) \<ge> 64 then (s, False) else (s\<lparr>ticket_links := List.insert l (ticket_links s)\<rparr>, True))"

definition link_closed :: "nat \<Rightarrow> ann_state \<Rightarrow> ann_state" where
  "link_closed l s = s\<lparr>ticket_links := removeAll l (ticket_links s)\<rparr>"

text \<open>\<^verbatim>\<open>ticket_handler\<close>: taking a slot, the work with the slot, giving the slot back. A request that is not a byte string is \<open>None\<close>.\<close>

definition take_slot :: "ann_state \<Rightarrow> ann_state option" where
  "take_slot s = (if ticket_slots s = 0 then None else Some (s\<lparr>ticket_slots := ticket_slots s - 1\<rparr>))"

definition give_slot :: "ann_state \<Rightarrow> ann_state" where
  "give_slot s = s\<lparr>ticket_slots := ticket_slots s + 1\<rparr>"

definition handler_work :: "(byte list \<Rightarrow> py option) \<Rightarrow> (py \<Rightarrow> py answer) \<Rightarrow> byte list option \<Rightarrow> (string, py) result" where
  "handler_work loads request data =
     (case data of
        None \<Rightarrow> Inl ''RELAY_PROOF_INVALID''
      | Some raw \<Rightarrow>
          if length raw > 8192 then Inl ''RELAY_PROOF_INVALID''
          else (case loads raw of
            None \<Rightarrow> Inl ''RELAY_AUTH_UNAVAILABLE''
          | Some (PyDict d) \<Rightarrow>
              (case request (PyDict d) of Raised \<Rightarrow> Inl ''RELAY_AUTH_UNAVAILABLE'' | ErrorReply e \<Rightarrow> Inl e | Value v \<Rightarrow> Inr v)
          | Some _ \<Rightarrow> Inl ''RELAY_PROOF_INVALID''))"

definition ticket_handler ::
  "(byte list \<Rightarrow> py option) \<Rightarrow> (py \<Rightarrow> py answer) \<Rightarrow> byte list option \<Rightarrow> ann_state \<Rightarrow> ann_state \<times> (string, py) result" where
  "ticket_handler loads request data s =
     (case take_slot s of
        None \<Rightarrow> (s, Inl ''RELAY_AUTH_RATE_LIMITED'')
      | Some s' \<Rightarrow> (give_slot s', handler_work loads request data))"

text \<open>Runs: the calls of the threads of the Reticulum library in any interleaving, with the number of handlers at work, and the times of the answers, latest first.\<close>

inductive ann_run :: "ann_state \<times> nat \<times> time list \<Rightarrow> bool" where
  start: "ann_run (ann_init, 0, [])"
| query: "ann_run (s, n, ts) \<Longrightarrow> answer_query now s = (s', b) \<Longrightarrow> ann_run (s', n, if b then now # ts else ts)"
| link_up: "ann_run (s, n, ts) \<Longrightarrow> ticket_link_established l s = (s', b) \<Longrightarrow> ann_run (s', n, ts)"
| link_down: "ann_run (s, n, ts) \<Longrightarrow> ann_run (link_closed l s, n, ts)"
| enter: "ann_run (s, n, ts) \<Longrightarrow> take_slot s = Some s' \<Longrightarrow> ann_run (s', Suc n, ts)"
| leave: "ann_run (s, Suc n, ts) \<Longrightarrow> ann_run (give_slot s, n, ts)"

lemma ann_inv:
  "ann_run x \<Longrightarrow> case x of (s, n, ts) \<Rightarrow> ticket_slots s + n = 8 \<and> length (ticket_links s) \<le> 64 \<and> distinct (ticket_links s)
     \<and> sorted_wrt (\<lambda>t u. u + second \<le> t) ts \<and> (ts \<noteq> [] \<longrightarrow> last_query_response_at s = hd ts)"
proof (induction rule: ann_run.induct)
  case (query s n ts now s' b)
  then show ?case by (cases ts) (auto simp: answer_query_def split: if_splits)
next
  case (link_up s n ts l s' b)
  then show ?case by (auto simp: ticket_link_established_def List.insert_def split: if_splits)
next
  case (link_down s n ts l)
  then show ?case by (auto simp: link_closed_def distinct_removeAll intro: order.trans [OF length_removeAll_less_eq])
next
  case (enter s n ts s')
  then show ?case by (auto simp: take_slot_def split: if_splits)
qed (simp_all add: ann_init_def give_slot_def)

text \<open>C36: The announcer's load is bounded. In every interleaving of queries, links and ticket requests, at most eight requests are passed on to the ticket authority at a time, at most 64
  links are open, and any two answers to queries are at least a second apart. A request that finds no free slot is refused and changes nothing, and every other
  one gives its slot back, also when the request is malformed or the authority fails; what reaches the authority is a JSON object of at most 8192 bytes.\<close>

theorem announcer_bounded:
  assumes "ann_run (s, n, ts)"
  shows "n \<le> 8 \<and> length (ticket_links s) \<le> 64 \<and> sorted_wrt (\<lambda>t u. u + second \<le> t) ts
    \<and> fst (ticket_handler loads request data s) = s
    \<and> (n = 8 \<longrightarrow> snd (ticket_handler loads request data s) = Inl ''RELAY_AUTH_RATE_LIMITED'')
    \<and> (snd (ticket_handler loads request data s) = Inr v \<longrightarrow>
        n < 8 \<and> (\<exists>raw d. data = Some raw \<and> length raw \<le> 8192 \<and> loads raw = Some (PyDict d) \<and> request (PyDict d) = Value v))"
  using ann_inv [OF assms]
  by (auto simp: ticket_handler_def take_slot_def give_slot_def handler_work_def split: option.splits if_splits py.splits answer.splits)

section \<open>Refreshing the lease\<close>

text \<open>The delay after \<open>k\<close> failures in a row.\<close>

definition backoff :: "nat \<Rightarrow> nat" where
  "backoff k = min (5 * 2 ^ k) 60"

lemma backoff_next: "min (backoff k * 2) 60 = backoff (Suc k)"
  by (auto simp: backoff_def min_def)

lemma run_failures: "run_announcements (backoff k) (replicate n (False, False) @ rest) = map (\<lambda>i. backoff (k + i)) [0..<n] @ run_announcements (backoff (k + n)) rest"
proof (induction n arbitrary: k)
  case (Suc n)
  have "map (\<lambda>i. backoff (k + i)) [0..<Suc n] = backoff k # map (\<lambda>i. backoff (Suc k + i)) [0..<n]"
    by (simp add: upt_conv_Cons map_Suc_upt [symmetric] del: upt_Suc)
  then show ?case using Suc [of "Suc k"] by (simp add: backoff_next Let_def)
qed simp

lemma backoff_sum: "120 + sum_list (map backoff [0..<n]) < 600 \<longleftrightarrow> n \<le> 10"
proof -
  have mono: "sum_list (map backoff [0..<m]) \<le> sum_list (map backoff [0..<n])" if "m \<le> n" for m n
    using that by (induction n) (auto simp: le_Suc_eq)
  have "sum_list (map backoff [0..<10]) = 435" "sum_list (map backoff [0..<11]) = 495" by (simp_all add: backoff_def upt_rec)
  then show ?thesis using mono [of n 10] mono [of 11 n] by (cases "n \<le> 10") auto
qed

text \<open>A lease survives ten failed refreshes in a row. After a refresh that succeeds the loop waits two minutes, and then, as long as refreshes fail, 5, 10, 20 and 40 seconds and a minute each;
  the next success is followed by two minutes again, with the delays reset. The waits from one success to the next stay below the ten minutes of the lease exactly when at
  most ten refreshes fail between them.\<close>

theorem lease_survives:
  "run_announcements r ((True, False) # replicate n (False, False) @ (True, stop) # rest)
     = 120 # map backoff [0..<n] @ 120 # (if stop then [] else run_announcements 5 rest)
   \<and> list_all (\<lambda>d. 5 \<le> d \<and> d \<le> 60) (map backoff [0..<n])
   \<and> (int (120 + sum_list (map backoff [0..<n])) < LEASE_SECONDS \<longleftrightarrow> n \<le> 10)"
proof -
  have "backoff 0 = 5" by (simp add: backoff_def)
  moreover have "5 \<le> backoff k \<and> backoff k \<le> 60" for k by (simp add: backoff_def)
  moreover have "int (120 + sum_list (map backoff [0..<n])) < LEASE_SECONDS \<longleftrightarrow> n \<le> 10" using backoff_sum [of n] unfolding LEASE_SECONDS_def by linarith
  ultimately show ?thesis using run_failures [of 0 n "(True, stop) # rest"] by (simp add: list_all_iff Let_def)
qed

section \<open>What is announced\<close>

lemma lower_hex_digit:
  assumes "lower_hex c"
  obtains v where "v < 16" and "c = hex_digit v"
proof -
  have "''0123456789abcdef'' = map hex_digit [0..<16]" by code_simp
  then show ?thesis using assms that unfolding lower_hex_def by (metis atLeastLessThan_iff image_iff list.set_map set_upt)
qed

lemma fromhex_lower: "list_all lower_hex p \<Longrightarrow> even (length p) \<Longrightarrow> \<exists>b. p = hex_encode b"
proof (induction p rule: hex_decode.induct)
  case (3 c d s)
  then obtain b where b: "s = hex_encode b" by auto
  obtain v w where vw: "v < 16" "c = hex_digit v" "w < 16" "d = hex_digit w" using 3(2) lower_hex_digit [of c] lower_hex_digit [of d] by (metis list.pred_inject(2))
  define x :: byte where "x = word_of_nat (16 * v + w)"
  have "unat x = 16 * v + w" using vw(1,3) unfolding x_def unat_of_nat by simp
  then have "c # d # s = hex_encode (x # b)" using b vw by simp
  then show ?case by blast
qed (auto intro: exI [of _ "[]"])

lemma validated_parts:
  assumes "ann_validate g a0 = Inr a"
  obtains p host where "an_cert a = hex_encode p" and "ip_address (an_host a) = Some host"
    and "an_cert a = map py_lower (py_strip (an_cert a0))"
proof -
  obtain host where h: "ip_address (an_host a0) = Some host" "a = a0\<lparr>an_cert := map py_lower (py_strip (an_cert a0))\<rparr>"
    "list_all lower_hex (map py_lower (py_strip (an_cert a0)))" "length (map py_lower (py_strip (an_cert a0))) = 64"
    using assms by (auto simp: ann_validate_def Let_def split: option.splits if_splits)
  from fromhex_lower [OF h(3)] h(4) obtain p where "map py_lower (py_strip (an_cert a0)) = hex_encode p" by auto
  with h(1,2) show ?thesis by (intro that) simp_all
qed

lemma ip_address_valid: "ip_address s = Some a \<Longrightarrow> a \<noteq> NoAddr"
  by (auto simp: ip_address_def parse_addr_def parse_ipv4_def parse_ipv6_def v6_body_def v6_finish_def Let_def split: option.splits if_splits prod.splits)

text \<open>C12: What the announcer puts on the air is what the relay is. Once its arguments were accepted, the first advertisement is one that a Hub decodes, during its lease of ten minutes, to exactly the
  host, port, server name, certificate hash, access mode and groups of the arguments. A restricted relay sends nothing else: it never publishes the hint for old Hubs, and the key
  it names is the one of the ticket authority's own catalog at that moment; without a catalog nothing is sent. A public relay sends the hint as well.\<close>

theorem announcements_honest:
  assumes "ann_validate g a0 = Inr a" and sg: "signs_for verify I" and t: "now \<le> t" "t < now + 600" "t \<le> t'"
  shows "case advertisement_payloads I catalog now now' a of
      None \<Rightarrow> True
    | Some ps \<Rightarrow> \<exists>raw ad host. hd ps = raw \<and> decode verify t t' raw = Some ad \<and> ip_address (an_host a) = Some host
        \<and> ah ad = no_zone host \<and> int (ad_port ad) = an_port a \<and> ad_name ad = an_server_name a \<and> ad_cert ad = an_cert a
        \<and> int (ax ad) = now + 600 \<and> accessMode ad = an_mode a \<and> allowedGroupIds ad = sort (an_groups a)
        \<and> (if an_mode a = ''groups''
           then ps = [raw] \<and> (\<exists>k kb. catalog = Value (Some k) \<and> fromhex k = Some kb \<and> ticketKeyId ad = Some (hex_encode kb))
           else ps = [raw, to_bytes (legacy_hint now' a)] \<and> ticketKeyId ad = None)"
proof (cases "advertisement_payloads I catalog now now' a")
  case (Some ps)
  obtain p host where v: "an_cert a = hex_encode p" "ip_address (an_host a) = Some host" using validated_parts [OF assms(1)] .
  define tk where "tk = (if an_mode a = ''groups'' then case catalog of Value k \<Rightarrow> k | _ \<Rightarrow> None else None)"
  obtain raw where raw: "encode I host (an_port a) (an_server_name a) (an_cert a) (now + LEASE_SECONDS) (an_mode a) (an_groups a) tk = Some raw"
    "ps = raw # (if an_mode a = ''public'' then [to_bytes (legacy_hint now' a)] else [])"
    "an_mode a = ''groups'' \<Longrightarrow> \<exists>k. tk = Some k \<and> catalog = Value (Some k)"
    using Some v(2) by (auto simp: advertisement_payloads_def advertisement_payload_def Let_def tk_def split: option.splits if_splits answer.splits)
  from encode_parts [OF raw(1)] have e: "policy_ok (an_mode a) (sort (an_groups a))" "0 < an_port a" "0 \<le> now + LEASE_SECONDS"
    "tk \<noteq> None \<Longrightarrow> \<exists>kb. fromhex (the tk) = Some kb" by (metis option.sel)+
  have "host \<noteq> NoAddr" using v(2) by (rule ip_address_valid)
  from decode_announced [OF raw(1) sg this, of t t'] t e(2,3) v raw(2,3) e(1,4) show ?thesis
    by (auto simp: Some LEASE_SECONDS_def policy_ok_def tk_def)
qed simp

section \<open>The announcer of a running relay\<close>

lemma hex_plain: "n < 16 \<Longrightarrow> lower_hex (hex_digit n) \<and> py_lower (hex_digit n) = hex_digit n \<and> \<not> py_space (hex_digit n)"
proof -
  have "list_all (\<lambda>n. lower_hex (hex_digit n) \<and> py_lower (hex_digit n) = hex_digit n \<and> \<not> py_space (hex_digit n)) [0..<16]" by code_simp
  then show "n < 16 \<Longrightarrow> ?thesis" by (simp add: list_all_iff)
qed

lemma hex_encode_plain: "c \<in> set (hex_encode bs) \<Longrightarrow> lower_hex c \<and> py_lower c = c \<and> \<not> py_space c"
proof (induction bs)
  case (Cons b bs)
  have "unat b div 16 < 16" "unat b mod 16 < 16" using unat_byte_less [of b] by linarith+
  then show ?case using Cons hex_plain by auto
qed simp

lemma pin_kept: "map py_lower (py_strip (hex_encode bs)) = hex_encode bs" "list_all lower_hex (hex_encode bs)"
proof -
  have "dropWhile py_space s = s" if "\<forall>c \<in> set s. \<not> py_space c" for s using that by (cases s) auto
  then have "dropWhile py_space (hex_encode bs) = hex_encode bs" "dropWhile py_space (rev (hex_encode bs)) = rev (hex_encode bs)"
    using hex_encode_plain by (metis, metis set_rev)
  then have "py_strip (hex_encode bs) = hex_encode bs" by (simp add: py_strip_def)
  then show "map py_lower (py_strip (hex_encode bs)) = hex_encode bs" "list_all lower_hex (hex_encode bs)"
    using hex_encode_plain by (auto simp: list_all_iff intro: map_idI)
qed


section \<open>A worked announcer\<close>

definition demo_ann :: ann_args where
  "demo_ann = \<lparr>an_host = show_addr (ap_addr demo_public), an_port = uint (ap_port demo_public), an_server_name = ''relay'', an_cert = demo_pin,
     an_allow_local = AllowLocalAdvertise demo_start_cfg, an_mode = ''groups'', an_groups = group_ids demo_config, an_socket = Some ''s''\<rparr>"

abbreviation ip_all :: "bool \<Rightarrow> ip_tables" where
  "ip_all b \<equiv> \<lparr>is_global = (\<lambda>ip. b), py_is_loopback = (\<lambda>ip. False)\<rparr>"

lemma demo_ann_ok: "ann_validate (ip_all True) demo_ann = Inr demo_ann"
proof -
  have "parse_addr (show_addr (ap_addr demo_public)) = Some (ap_addr demo_public)" by (intro parse_show_addr) (simp add: demo_public_def)
  moreover have "length (sha256 demo_lib [1]) = 32" using demo_sha by blast
  ultimately show ?thesis
    by (simp add: ann_validate_def ip_address_def demo_ann_def demo_pin_def pin_kept label_char_def Let_def del: show_addr.simps) (simp add: demo_public_def)
qed


theorem announcements_honest_witness:
  "\<exists>raw ad. advertisement_payloads demo_identity (Value (Some (hex_encode (replicate 32 0)))) 400 400 demo_ann = Some [raw]
     \<and> decode (\<lambda>k sg m. True) 900 950 raw = Some ad \<and> ah ad = IPv4 93 184 216 34 \<and> accessMode ad = ''groups''"
proof -
  have v: "ip_address (an_host demo_ann) = Some (ap_addr demo_public)" unfolding demo_ann_def by (simp add: ip_address_def demo_public_def parse_show_addr del: show_addr.simps)
  obtain raw where raw: "demo_encode = Some raw" using demo_encoded by blast
  then have "advertisement_payloads demo_identity (Value (Some (hex_encode (replicate 32 0)))) 400 400 demo_ann = Some [raw]"
    using v by (simp add: advertisement_payloads_def advertisement_payload_def demo_ann_def demo_encode_def LEASE_SECONDS_def)
  then show ?thesis
    using announcements_honest [OF demo_ann_ok demo_signs, of 400 900 950 "Value (Some (hex_encode (replicate 32 0)))" 400] v
    by (auto simp: demo_ann_def demo_public_def)
qed

theorem announcer_bounded_witness:
  "snd (ticket_handler (\<lambda>raw. Some (PyDict [])) (\<lambda>v. Value v) (Some [1]) ann_init) = Inr (PyDict [])
   \<and> fst (ticket_handler (\<lambda>raw. Some (PyDict [])) (\<lambda>v. Value v) (Some [1]) ann_init) = ann_init"
  using announcer_bounded [OF ann_run.start, of "\<lambda>raw. Some (PyDict [])" "\<lambda>v. Value v" "Some [1]" "PyDict []"]
  by (simp add: ticket_handler_def take_slot_def ann_init_def handler_work_def)

end
