(* ===== verification/Masque_Client.thy ===== *)
theory Masque_Client
  imports Relay_Start
begin

text \<open>
  The client of \<^verbatim>\<open>internal/masque/client.go\<close>: \<^verbatim>\<open>Open\<close> with its checks and the verification of the relay's certificate, \<^verbatim>\<open>Send\<close>, \<^verbatim>\<open>Receive\<close> and
  \<^verbatim>\<open>Close\<close>. The transport is library code: it asks the dial function for an address, runs \<^verbatim>\<open>VerifyConnection\<close> on the certificates
  of the peer before anything is sent, and fails when that fails.
\<close>

section \<open>Opening a tunnel\<close>

abbreviation MaxDatagramBytes :: nat where
  "MaxDatagramBytes \<equiv> 1200"

record client_config =
  cRelayAddress :: string
  cRelayServerName :: string
  cRelayCertSHA256 :: string
  cTargetAddress :: string
  cTimeout :: duration

datatype client_err =
    NotLiteral string | NameRequired | BadPin | RequestErr | UnexpectedAddress string
  | NoCertificate | OutsideValidity | IdentityMismatch | PinMismatch | TransportErr

definition parseLiteralAddrPort :: "string \<Rightarrow> string \<Rightarrow> (client_err, addr_port) result" where
  "parseLiteralAddrPort name value =
     (case parse_addr_port value of
        None \<Rightarrow> Inl (NotLiteral name)
      | Some a \<Rightarrow> if \<not> is_valid (ap_addr a) \<or> ap_port a = 0 then Inl (NotLiteral name) else Inr a)"

text \<open>A certificate of the peer: its encoding and what it parses to.\<close>

type_synonym peer_cert = "byte list \<times> certificate"

definition VerifyConnection ::
  "(byte list \<Rightarrow> byte list) \<Rightarrow> time \<Rightarrow> string \<Rightarrow> byte list \<Rightarrow> peer_cert list \<Rightarrow> client_err option" where
  "VerifyConnection hash now name pn peers =
     (case peers of
        [] \<Rightarrow> Some NoCertificate
      | (raw, leaf) # _ \<Rightarrow>
          if now < NotBefore leaf \<or> NotAfter leaf < now then Some OutsideValidity
          else if \<not> VerifyHostname leaf name then Some IdentityMismatch
          else if hash raw \<noteq> pn then Some PinMismatch
          else None)"

text \<open>The surroundings: whether the request can be built, the address the transport asks for, the certificates of the peer, the clock
  when they are checked, and whether the rest of the handshake succeeds.\<close>

record dial_env =
  cd_request :: bool
  cd_address :: string
  cd_peers :: "peer_cert list"
  cd_now :: time
  cd_rest :: bool

definition open_timeout :: "client_config \<Rightarrow> duration" where
  "open_timeout cfg = (if cTimeout cfg \<le> 0 then 5 * second else cTimeout cfg)"

text \<open>The tunnel: the relay it goes through, its target, and the time limit of the handshake.\<close>

record tunnel =
  tn_relay :: addr_port
  tn_target :: addr_port
  tn_timeout :: duration

definition Open_Tunnel :: "(byte list \<Rightarrow> byte list) \<Rightarrow> dial_env \<Rightarrow> client_config \<Rightarrow> (client_err, tunnel) result" where
  "Open_Tunnel hash env cfg =
     (case parseLiteralAddrPort ''relayAddress'' (cRelayAddress cfg) of
        Inl e \<Rightarrow> Inl e
      | Inr relay \<Rightarrow>
        (case parseLiteralAddrPort ''targetAddress'' (cTargetAddress cfg) of
           Inl e \<Rightarrow> Inl e
         | Inr target \<Rightarrow>
             if cRelayServerName cfg = [] then Inl NameRequired
             else (case hex_decode (cRelayCertSHA256 cfg) of
                None \<Rightarrow> Inl BadPin
              | Some pn \<Rightarrow>
                  if length pn \<noteq> 32 then Inl BadPin
                  else if \<not> cd_request env then Inl RequestErr
                  else if cd_address env \<noteq> show_addr_port relay then Inl (UnexpectedAddress (cd_address env))
                  else (case VerifyConnection hash (cd_now env) (cRelayServerName cfg) pn (cd_peers env) of
                     Some e \<Rightarrow> Inl e
                   | None \<Rightarrow>
                       if \<not> cd_rest env then Inl TransportErr
                       else Inr \<lparr>tn_relay = relay, tn_target = target, tn_timeout = open_timeout cfg\<rparr>))))"

section \<open>Datagrams\<close>

text \<open>\<^verbatim>\<open>Send\<close>: what reaches the connection, and whether the call succeeds; \<open>w\<close> is the outcome of the write.\<close>

definition Send :: "bool \<Rightarrow> byte list \<Rightarrow> byte list option \<times> bool" where
  "Send w data = (if length data = 0 \<or> length data > MaxDatagramBytes then (None, False) else (Some data, w))"

text \<open>\<^verbatim>\<open>Receive\<close>: the deadline it sets and the result; \<open>arrived\<close> is the datagram, if one arrives before the
  deadline. A datagram longer than the buffer is cut.\<close>

definition Receive :: "time \<Rightarrow> bool \<Rightarrow> byte list option \<Rightarrow> duration \<Rightarrow> time \<times> byte list option" where
  "Receive now set_ok arrived timeout =
     (now + (if timeout \<le> 0 then 5 * second else timeout),
      if \<not> set_ok then None else map_option (take 1500) arrived)"

definition Tunnel_Close :: "string option \<Rightarrow> string option" where
  "Tunnel_Close conn_close = conn_close"

section \<open>The client trusts exactly the relay\<close>

lemma verify_iff:
  "VerifyConnection hash now name pn peers = None \<longleftrightarrow>
     (\<exists>raw leaf rest. peers = (raw, leaf) # rest \<and> NotBefore leaf \<le> now \<and> now \<le> NotAfter leaf
        \<and> VerifyHostname leaf name \<and> hash raw = pn)"
  by (auto simp: VerifyConnection_def not_less split: list.splits)

lemma literal_is: "parseLiteralAddrPort name value = (case literal_endpoint value of None \<Rightarrow> Inl (NotLiteral name) | Some a \<Rightarrow> Inr a)"
  by (simp add: parseLiteralAddrPort_def literal_endpoint_def split: option.splits)

text \<open>C7: From the metadata to the tunnel. A client configured with the metadata a started relay prints opens a tunnel exactly when the
  transport dials the relay's endpoint and the peer shows a certificate with the hash of the relay's, that is valid
  at the time and good for the server name. Nobody with another certificate gets a tunnel, and the relay's own certificate is
  accepted.\<close>

theorem client_trusts_relay:
  assumes start: "Start lib B X parse env cfg fs = (fs', cs, Inr (s, p, tickets, md))"
    and sha: "\<forall>m. length (sha256 lib m) = 32" and target: "literal_endpoint (cTargetAddress c) = Some t"
    and c: "cRelayAddress c = RelayAddress md" "cRelayServerName c = RelayServerName md" "cRelayCertSHA256 c = RelayCertSHA256 md"
  shows "\<exists>chain der. loadOrCreateCertificate X (st_cert env) (srv_config s) fs = (fs', Inr (chain, der))
    \<and> ((\<exists>tn. Open_Tunnel (sha256 lib) d c = Inr tn) \<longleftrightarrow>
        cd_request d \<and> cd_rest d \<and> cd_address d = RelayAddress md
        \<and> (\<exists>raw leaf rest. cd_peers d = (raw, leaf) # rest \<and> sha256 lib raw = sha256 lib der
            \<and> NotBefore leaf \<le> cd_now d \<and> cd_now d \<le> NotAfter leaf \<and> VerifyHostname leaf (ServerName cfg)))"
proof -
  obtain public chain der where st: "parse_addr_port (RelayAddress md) = Some public" "ap_port public \<noteq> 0"
      "loadOrCreateCertificate X (st_cert env) (srv_config s) fs = (fs', Inr (chain, der))"
      "RelayCertSHA256 md = hex_encode (sha256 lib der)" "RelayServerName md = ServerName cfg" "1 \<le> length (ServerName cfg)"
    and addr: "RelayAddress md = show_addr_port public" "ap_addr public \<noteq> NoAddr"
    using start_endpoint [OF start] start_facts [OF start] by (metis option.inject)
  have relay: "literal_endpoint (cRelayAddress c) = Some public"
    using st(1,2) addr(2) by (simp add: c literal_endpoint_def is_valid_def)
  have name: "ServerName cfg \<noteq> []" using st(6) by auto
  have "(\<exists>tn. Open_Tunnel (sha256 lib) d c = Inr tn) \<longleftrightarrow>
      cd_request d \<and> cd_rest d \<and> cd_address d = RelayAddress md
      \<and> VerifyConnection (sha256 lib) (cd_now d) (ServerName cfg) (sha256 lib der) (cd_peers d) = None"
    using relay target name sha st(4,5) addr(1)
    by (auto simp: Open_Tunnel_def literal_is c split: option.splits)
  then show ?thesis using st(3) unfolding verify_iff by blast
qed

text \<open>Datagrams pass whole. \<^verbatim>\<open>Send\<close> hands on exactly the datagrams of 1 to 1200 bytes, unchanged, and what it handed on is received
  uncut; nothing longer than 1500 bytes is ever returned, and a receive without a positive timeout waits five seconds.\<close>

theorem datagrams_whole:
  "(fst (Send w data) = (if 1 \<le> length data \<and> length data \<le> 1200 then Some data else None))
   \<and> (fst (Send w data) = Some sent \<longrightarrow> snd (Receive now True (Some sent) timeout) = Some data)
   \<and> (snd (Receive now ok arrived timeout) = Some got \<longrightarrow> length got \<le> 1500 \<and> (\<exists>d. arrived = Some d \<and> got = take 1500 d))
   \<and> fst (Receive now ok arrived timeout) = now + (if 0 < timeout then timeout else 5 * second)"
  by (auto simp: Send_def Receive_def Suc_le_eq split: if_splits)

section \<open>A worked example\<close>

definition demo_client :: client_config where
  "demo_client = \<lparr>cRelayAddress = show_addr_port demo_public, cRelayServerName = ''relay'', cRelayCertSHA256 = demo_pin,
     cTargetAddress = show_addr_port demo_public, cTimeout = 0\<rparr>"

definition demo_dial :: dial_env where
  "demo_dial = \<lparr>cd_request = True, cd_address = show_addr_port demo_public,
     cd_peers = [([1], encoded (template demo_cert_env demo_start_cfg))], cd_now = 0, cd_rest = True\<rparr>"

theorem client_trusts_relay_witness: "\<exists>tn. Open_Tunnel (sha256 demo_lib) demo_dial demo_client = Inr tn"
proof -
  let ?leaf = "encoded (template demo_cert_env demo_start_cfg)"
  have t: "literal_endpoint (cTargetAddress demo_client) = Some demo_public"
    by (simp add: demo_client_def literal_endpoint_def parse_show_addr_port demo_public_def is_valid_def)
  have sha: "\<forall>m. length (sha256 demo_lib m) = 32" by (simp add: demo_lib_def demo_lib0_def min_def)
  have start: "Start demo_lib rbt_bolt demo_x509 demo_parse (demo_start_env\<lparr>st_listen := True\<rparr>) demo_start_cfg [] =
     (demo_fs, [], Inr (new_server demo_start_cfg True, demo_start_policy, Some demo_start_auth,
        \<lparr>RelayAddress = show_addr_port demo_public, RelayServerName = ''relay'', RelayCertSHA256 = demo_pin\<rparr>))"
    using demo_start [of True] by simp
  have cert: "loadOrCreateCertificate demo_x509 (st_cert (demo_start_env\<lparr>st_listen := True\<rparr>)) (srv_config (new_server demo_start_cfg True)) []
      = (demo_fs, Inr ([[1]], [1]))"
    using demo_start_cert by (simp add: demo_start_env_def new_server_def)
  have "DNSNames ?leaf = [''relay'']" by (simp add: encoded_def template_def)
  then have "VerifyHostname ?leaf ''relay''" using VerifyHostname_own demo_usable by blast
  moreover have "NotBefore ?leaf \<le> 0" by (simp add: encoded_def template_def demo_cert_env_def)
  moreover have "0 \<le> NotAfter ?leaf" using template_after(1) [of demo_cert_env demo_start_cfg] by (simp add: demo_cert_env_def)
  ultimately show ?thesis
    using client_trusts_relay [OF start sha t, of demo_dial] cert by (auto simp: demo_client_def demo_dial_def)
qed

theorem datagrams_whole_witness: "snd (Receive 0 True (fst (Send True [1, 2])) 0) = Some [1, 2]"
  using datagrams_whole [of True "[1, 2]" "[1, 2]" 0 0 True "Some [1, 2]" "[1, 2]"] by simp

end
