(* ===== verification/Masque_Request.thy ===== *)
theory Masque_Request
  imports Masque_Client
begin

text \<open>
  The settings of the two ends, and the CONNECT-UDP request between client and relay: \<^verbatim>\<open>NewRequest\<close> of \<^verbatim>\<open>third_party/masque-go/request.go\<close> and \<^verbatim>\<open>ParseProxyRequest\<close> of
  \<^verbatim>\<open>third_party/masque-go/proxy_request.go\<close>.

  Arguments: the URI template both sides build from the relay's address (the record \<open>uri_template\<close>, library \<^verbatim>\<open>uritemplate\<close>), the URL of an expanded template, and the
  parser of structured header fields (library \<^verbatim>\<open>httpsfv\<close>).
\<close>

section \<open>Both sides\<close>

text \<open>\<open>ut_host\<close> is the host of the raw template as a URL, if it is one; \<open>ut_match\<close> gives the empty string for a variable without a match.\<close>

record uri_template =
  ut_host :: "string option"
  ut_expand :: "string \<Rightarrow> string \<Rightarrow> string option"
  ut_match :: "string \<Rightarrow> string \<times> string"

datatype sf_item = SfBool bool | SfOther

record http_request =
  hr_method :: string
  hr_proto :: string
  hr_host :: string
  hr_url :: string
  hr_capsule :: "string list option"

datatype request_err = SplitErr | ExpandErr | URLErr

text \<open>\<open>url_of\<close> gives the host of a URL and its text, \<open>capsule_true\<close> is the header value for the boolean true.\<close>

definition NewRequest ::
  "uri_template \<Rightarrow> (string \<Rightarrow> (string \<times> string) option) \<Rightarrow> string \<Rightarrow> string \<Rightarrow> (request_err, http_request) result" where
  "NewRequest proxyTemplate url_of capsule_true target =
     (case split_host_port target of
        None \<Rightarrow> Inl SplitErr
      | Some (host, port) \<Rightarrow>
          (case ut_expand proxyTemplate host port of
             None \<Rightarrow> Inl ExpandErr
           | Some str \<Rightarrow>
               (case url_of str of
                  None \<Rightarrow> Inl URLErr
                | Some (uhost, utext) \<Rightarrow>
                    Inr \<lparr>hr_method = ''CONNECT'', hr_proto = ''connect-udp'', hr_host = uhost, hr_url = utext,
                         hr_capsule = Some [capsule_true]\<rparr>)))"

record ProxyRequest =
  Target :: string
  Host :: string

text \<open>The error is the HTTP status it recommends.\<close>

definition ParseProxyRequest ::
  "(string list \<Rightarrow> sf_item option) \<Rightarrow> uri_template \<Rightarrow> http_request \<Rightarrow> (nat, ProxyRequest) result" where
  "ParseProxyRequest UnmarshalItem T r =
     (case ut_host T of
        None \<Rightarrow> Inl 500
      | Some uhost \<Rightarrow>
          if hr_method r \<noteq> ''CONNECT'' then Inl 405
          else if hr_proto r \<noteq> ''connect-udp'' then Inl 501
          else if hr_host r \<noteq> uhost then Inl 400
          else if (case hr_capsule r of None \<Rightarrow> False | Some vs \<Rightarrow> UnmarshalItem vs \<noteq> Some (SfBool True)) then Inl 400
          else (case ut_match T (hr_url r) of (targetHost, targetPortStr) \<Rightarrow>
            if targetHost = [] \<or> targetPortStr = [] then Inl 400
            else
              (let targetHost = (if CHR '':'' \<in> set targetHost then ''['' @ targetHost @ '']'' else targetHost) in
               case parse_int targetPortStr of
                 (_, Some e) \<Rightarrow> Inl 400
               | (targetPort, None) \<Rightarrow> Inr \<lparr>Target = targetHost @ '':'' @ itoa targetPort, Host = hr_host r\<rparr>)))"

text \<open>The texts of the templates: the relay builds its own from its public endpoint, the client from the address of the relay it dials.\<close>

definition relay_template :: "addr_port \<Rightarrow> string" where
  "relay_template public = ''https://'' @ show_addr_port public @ ''/.well-known/masque/udp/{target_host}/{target_port}/''"

definition client_template :: "tunnel \<Rightarrow> string" where
  "client_template tn = (let relayAddress = show_addr_port (tn_relay tn) in
     ''https://'' @ relayAddress @ ''/.well-known/masque/udp/{target_host}/{target_port}/'')"

text \<open>What the handler of the relay makes of a request.\<close>

definition request_target :: "(string list \<Rightarrow> sf_item option) \<Rightarrow> uri_template \<Rightarrow> http_request \<Rightarrow> string option" where
  "request_target UnmarshalItem T r = (case ParseProxyRequest UnmarshalItem T r of Inl _ \<Rightarrow> None | Inr p \<Rightarrow> Some (Target p))"

section \<open>Settings of the connection\<close>

text \<open>The settings of the HTTP/3 server that \<^verbatim>\<open>Start\<close> serves, and of the client's transport; durations in nanoseconds, TLS 1.3 is \<^verbatim>\<open>0x0304\<close>.\<close>

record transport_settings =
  MinVersion :: nat
  NextProtos :: "string list"
  QUIC_EnableDatagrams :: bool

record server_settings = transport_settings +
  MaxHeaderBytes :: nat
  MaxIdleTimeout :: duration
  MaxIncomingStreams :: nat
  KeepAlivePeriod :: duration
  HTTP3_EnableDatagrams :: bool

definition relay_settings :: server_settings where
  "relay_settings = \<lparr>MinVersion = 0x0304, NextProtos = [''h3''], QUIC_EnableDatagrams = True, MaxHeaderBytes = 8192, MaxIdleTimeout = 120 * second,
     MaxIncomingStreams = 512, KeepAlivePeriod = 30 * second, HTTP3_EnableDatagrams = True\<rparr>"

definition client_settings :: transport_settings where
  "client_settings = \<lparr>MinVersion = 0x0304, NextProtos = [''h3''], QUIC_EnableDatagrams = True\<rparr>"

text \<open>What \<^verbatim>\<open>dial\<close> of \<^verbatim>\<open>third_party/masque-go/client.go\<close> refuses once the settings of the server have arrived; an HTTP/3 server of the vendored library always enables extended CONNECT.\<close>

datatype dial_err = NoExtendedConnect | NoDatagrams | OpenStreamErr | SendHeaderErr | ReadResponseErr | BadStatus nat

text \<open>\<open>stream_opened\<close> and \<open>header_sent\<close> tell whether the stream can be opened and the header sent, \<open>rsp\<close> is the status of the response, if one is read.\<close>

definition dial_response :: "bool \<Rightarrow> server_settings \<Rightarrow> bool \<Rightarrow> bool \<Rightarrow> nat option \<Rightarrow> dial_err option" where
  "dial_response extended_connect s stream_opened header_sent rsp =
     (if \<not> extended_connect then Some NoExtendedConnect
      else if \<not> HTTP3_EnableDatagrams s then Some NoDatagrams
      else if \<not> stream_opened then Some OpenStreamErr
      else if \<not> header_sent then Some SendHeaderErr
      else (case rsp of
        None \<Rightarrow> Some ReadResponseErr
      | Some status \<Rightarrow> if status < 200 \<or> status > 299 then Some (BadStatus status) else None))"

text \<open>The status with which the handler of the relay answers; that of a tunnel is written by \<^verbatim>\<open>ProxyConnectedSocket\<close>.\<close>

fun outcome_status :: "bool \<Rightarrow> outcome \<Rightarrow> nat" where
  "outcome_status proxy_closed (Rejected (Deny r ch)) = (case r of Refused status code \<Rightarrow> status | _ \<Rightarrow> 200)"
| "outcome_status proxy_closed (Rejected (Allow account expires)) = 200"
| "outcome_status proxy_closed NoContent = 204"
| "outcome_status proxy_closed BadRequest = 400"
| "outcome_status proxy_closed TargetDenied = 403"
| "outcome_status proxy_closed RelayFull = 429"
| "outcome_status proxy_closed BadGateway = 502"
| "outcome_status proxy_closed (Tunnel source target) = (if proxy_closed then 503 else 200)"

section \<open>Splitting a printed endpoint\<close>

lemma bracket_notin_hex: "CHR ''['' \<notin> set (hex16 n)" "CHR '']'' \<notin> set (hex16 n)"
proof -
  have "\<not> is_hex CHR ''[''" "\<not> is_hex CHR '']''" by (simp_all add: hex_val_def)
  then show "CHR ''['' \<notin> set (hex16 n)" "CHR '']'' \<notin> set (hex16 n)" using hex16_hex by blast+
qed

lemma bracket_notin_list: "CHR ''['' \<notin> set (show_list us)" "CHR '']'' \<notin> set (show_list us)"
  by (induction us rule: induct_list012) (auto simp: bracket_notin_hex)

lemma udec_bracket [simp]: "CHR '']'' \<notin> set (udec n)"
proof -
  have "\<not> is_digit CHR '']''" by (simp add: is_digit_def)
  then show ?thesis using udec_digits by blast
qed

lemma bracket_notin_addr:
  "CHR ''['' \<in> set (show_addr a) \<longleftrightarrow> CHR ''['' \<in> set (zone a)" "CHR '']'' \<in> set (show_addr a) \<longleftrightarrow> CHR '']'' \<in> set (zone a)"
  using bracket_notin_list by (cases a; auto simp: show4_def show_groups_def split: prod.splits if_splits)+

lemma kind_in: "addr_kind s = Some c \<Longrightarrow> c \<in> set s"
  by (induction s) (auto split: if_splits)

lemma colon_addr: "a \<noteq> NoAddr \<Longrightarrow> CHR '':'' \<in> set (show_addr a) \<longleftrightarrow> \<not> is4 a"
proof (cases a)
  case (IPv6 w z)
  have "CHR '':'' \<in> set (show_groups (groups_of w))" using kind_in [OF addr_kind_groups [of "groups_of w" "[]"]] by simp
  then show ?thesis using IPv6 by simp
qed (simp_all add: show4_def)

lemma split_show:
  assumes "ap_addr ap \<noteq> NoAddr" and "CHR ''['' \<notin> set (zone (ap_addr ap))" and "CHR '']'' \<notin> set (zone (ap_addr ap))"
  shows "split_host_port (show_addr_port ap) = Some (show_addr (ap_addr ap), udec (unat (ap_port ap)))"
proof (cases "ap_addr ap")
  case (IPv4 x y u v)
  let ?t = "show_addr (ap_addr ap)" and ?p = "udec (unat (ap_port ap))"
  have "last_index CHR '':'' (?t @ CHR '':'' # ?p) = Some (length ?t)" by (rule last_index_append) simp
  moreover have "?t \<noteq> []" "CHR ''['' \<notin> set ?t" "CHR '']'' \<notin> set ?t" "CHR '':'' \<notin> set ?t"
    using bracket_notin_addr [of "ap_addr ap"] colon_addr [of "ap_addr ap"] IPv4 by (simp_all add: show4_def)
  moreover have "hd ?t \<noteq> CHR ''[''" using calculation(2,3) by (metis hd_in_set)
  ultimately show ?thesis using IPv4 by (simp add: split_host_port_def show_addr_port_def)
next
  case (IPv6 w z)
  let ?t = "show_addr (ap_addr ap)" and ?p = "udec (unat (ap_port ap))"
  have l: "last_index CHR '':'' ((CHR ''['' # ?t @ '']'') @ CHR '':'' # ?p) = Some (length (CHR ''['' # ?t @ '']''))" by (rule last_index_append) simp
  have b: "CHR ''['' \<notin> set ?t" "CHR '']'' \<notin> set ?t" using bracket_notin_addr [of "ap_addr ap"] assms by simp_all
  then have f: "first_index CHR '']'' ((CHR ''['' # ?t) @ CHR '']'' # CHR '':'' # ?p) = Some (length (CHR ''['' # ?t))" by (intro first_index_append) simp
  have s: "show_addr_port ap = CHR ''['' # ?t @ CHR '']'' # CHR '':'' # ?p" using IPv6 by (simp add: show_addr_port_def)
  show ?thesis using l f b unfolding s by (simp add: split_host_port_def)
qed (use assms in simp)

section \<open>The relay reads the target the client asked for\<close>

text \<open>The template as both sides rely on it: expanding it with a host and a port gives a URL of its host, from whose text the host and the port are matched again.\<close>

definition template_law :: "uri_template \<Rightarrow> (string \<Rightarrow> (string \<times> string) option) \<Rightarrow> bool" where
  "template_law T url_of \<longleftrightarrow>
     (\<forall>h p. h \<noteq> [] \<and> p \<noteq> [] \<and> CHR ''/'' \<notin> set h \<union> set p \<longrightarrow>
        (\<exists>str host utext. ut_expand T h p = Some str \<and> url_of str = Some (host, utext) \<and> ut_host T = Some host \<and> ut_match T utext = (h, p)))"

lemma slash_notin: "CHR ''/'' \<notin> set (udec n)" "CHR ''/'' \<notin> set (zone a) \<Longrightarrow> CHR ''/'' \<notin> set (show_addr a)"
proof -
  have "\<not> is_hex CHR ''/''" "\<not> is_digit CHR ''/''" by (simp_all add: hex_val_def is_digit_def)
  then have u: "CHR ''/'' \<notin> set (hex16 n)" "CHR ''/'' \<notin> set (udec n)" for n using hex16_hex udec_digits by blast+
  have "CHR ''/'' \<notin> set (show_list us)" for us by (induction us rule: induct_list012) (auto simp: u)
  then show "CHR ''/'' \<notin> set (udec n)" "CHR ''/'' \<notin> set (zone a) \<Longrightarrow> CHR ''/'' \<notin> set (show_addr a)"
    using u by (cases a; auto simp: show4_def show_groups_def split: prod.splits if_splits)+
qed

lemma show_addr_nonempty: "show_addr a \<noteq> []"
proof -
  have "show_groups (groups_of w) \<noteq> []" for w using kind_in [OF addr_kind_groups [of "groups_of w" "[]"]] by auto
  then show ?thesis by (cases a) (auto simp: show4_def)
qed

lemma request_target_iff:
  "request_target U T r = Some x \<Longrightarrow> hr_method r = ''CONNECT'' \<and> hr_proto r = ''connect-udp'' \<and> ut_host T = Some (hr_host r)
     \<and> (\<forall>vs. hr_capsule r = Some vs \<longrightarrow> U vs = Some (SfBool True))"
  by (auto simp: request_target_def ParseProxyRequest_def split: option.splits if_splits sum.splits)

lemma target_text:
  assumes "t \<noteq> NoAddr"
  shows "(if CHR '':'' \<in> set (show_addr t) then ''['' @ show_addr t @ '']'' else show_addr t) @ '':'' @ itoa (int (unat port)) = show_addr_port (AddrPort t port)"
  using colon_addr [OF assms] assms by (cases t) (auto simp: show_addr_port_def itoa_def simp del: show_addr.simps)

lemma request_roundtrip:
  assumes "ap_addr t \<noteq> NoAddr" and "set (zone (ap_addr t)) \<inter> {CHR ''['', CHR '']'', CHR ''/''} = {}"
    and "template_law T url_of" and "U [capsule_true] = Some (SfBool True)"
  obtains rq where "NewRequest T url_of capsule_true (show_addr_port t) = Inr rq" and "request_target U T rq = Some (show_addr_port t)"
proof -
  let ?h = "show_addr (ap_addr t)" and ?p = "udec (unat (ap_port t))"
  have "CHR ''/'' \<notin> set ?h \<union> set ?p" using slash_notin assms(2) by auto
  then obtain str host utext where u: "ut_expand T ?h ?p = Some str" "url_of str = Some (host, utext)" "ut_host T = Some host" "ut_match T utext = (?h, ?p)"
    using assms(3) show_addr_nonempty [of "ap_addr t"] unfolding template_law_def by (metis udec_nonempty)
  have split: "split_host_port (show_addr_port t) = Some (?h, ?p)" using assms(1,2) by (intro split_show) auto
  have port: "parse_int ?p = (int (unat (ap_port t)), None)"
  proof -
    define n where "n = unat (ap_port t)"
    have "n < 65536" using unsigned_less [of "ap_port t"] by (simp add: n_def)
    then have "parse_int (itoa (int n)) = (int n, None)" by (intro parse_int_itoa) simp_all
    then show ?thesis unfolding n_def [symmetric] by (simp add: itoa_def)
  qed
  let ?rq = "\<lparr>hr_method = ''CONNECT'', hr_proto = ''connect-udp'', hr_host = host, hr_url = utext, hr_capsule = Some [capsule_true]\<rparr>"
  have "NewRequest T url_of capsule_true (show_addr_port t) = Inr ?rq" using u split by (simp add: NewRequest_def)
  moreover have "request_target U T ?rq = Some (show_addr_port t)"
    using u port assms(4) show_addr_nonempty [of "ap_addr t"] target_text [OF assms(1), of "ap_port t"]
    by (simp add: request_target_def ParseProxyRequest_def Let_def del: show_addr.simps)
  ultimately show ?thesis by (rule that)
qed

lemma opened:
  assumes "Open_Tunnel hash d c = Inr tn"
  shows "parse_addr_port (cRelayAddress c) = Some (tn_relay tn)" and "parse_addr_port (cTargetAddress c) = Some (tn_target tn)"
    and "ap_addr (tn_target tn) \<noteq> NoAddr"
  using assms by (auto simp: Open_Tunnel_def parseLiteralAddrPort_def is_valid_def split: sum.splits option.splits if_splits)

text \<open>C8: The relay reads the target the client asked for. A client that opened a tunnel through the endpoint a relay announces can build its request for every target without odd characters in
  its zone; the relay parses it back to the very text of that target, and if its handler makes a tunnel of the request, the tunnel goes to that address and port.
  Of all other requests, the relay takes a target only from an extended CONNECT for \<^verbatim>\<open>connect-udp\<close> to its own host whose capsule header, if there is one, is true.\<close>

theorem request_reaches_target:
  assumes "Open_Tunnel hash d c = Inr tn" and "cRelayAddress c = show_addr_port public" and "ap_addr public \<noteq> NoAddr"
    and "set (zone (ap_addr (tn_target tn))) \<inter> {CHR ''['', CHR '']'', CHR ''/''} = {}"
    and "template_law (new_template (relay_template public)) url_of" and "U [capsule_true] = Some (SfBool True)"
  shows "(\<exists>rq. NewRequest (new_template (client_template tn)) url_of capsule_true (show_addr_port (tn_target tn)) = Inr rq
      \<and> request_target U (new_template (relay_template public)) rq = Some (show_addr_port (tn_target tn))
      \<and> (\<forall>st'. handle_connect_udp lib B env dial (h\<lparr>rq_target := request_target U (new_template (relay_template public)) rq\<rparr>) p (s, tickets, conn)
            = (st', Tunnel source target)
          \<longrightarrow> target = AddrPort (unmap (ap_addr (tn_target tn))) (ap_port (tn_target tn)) \<and> targetAllowed s target))
    \<and> (request_target U (new_template (relay_template public)) r = Some x \<longrightarrow>
        hr_method r = ''CONNECT'' \<and> hr_proto r = ''connect-udp'' \<and> ut_host (new_template (relay_template public)) = Some (hr_host r)
        \<and> (\<forall>vs. hr_capsule r = Some vs \<longrightarrow> U vs = Some (SfBool True)))"
proof -
  let ?T = "new_template (relay_template public)" and ?t = "tn_target tn"
  have "tn_relay tn = public" using opened(1) [OF assms(1)] assms(2) parse_show_addr_port [OF assms(3)] by simp
  then have same: "client_template tn = relay_template public" by (simp add: client_template_def relay_template_def)
  note valid = opened(3) [OF assms(1)]
  obtain rq where rq: "NewRequest ?T url_of capsule_true (show_addr_port ?t) = Inr rq" "request_target U ?T rq = Some (show_addr_port ?t)"
    using request_roundtrip [where U = U, OF valid assms(4-6)] .
  have "target = AddrPort (unmap (ap_addr ?t)) (ap_port ?t) \<and> targetAllowed s target"
    if tn: "handle_connect_udp lib B env dial (h\<lparr>rq_target := request_target U ?T rq\<rparr>) p (s, tickets, conn) = (st', Tunnel source target)" for st'
  proof -
    obtain s' tk' c' where st: "st' = (s', tk', c')" by (cases st') auto
    have "parse_target s (show_addr_port ?t) = Some target"
      using handler_tunnel [OF tn [unfolded st]] rq(2) by (metis option.inject udp_request.select_convs(4) udp_request.update_convs(4) udp_request.surjective)
    then show ?thesis using parse_show_addr_port [OF valid] by (auto simp: parse_target_def Let_def split: if_splits)
  qed
  then show ?thesis unfolding same using rq request_target_iff [of U ?T r x] by blast
qed

lemma denied_status: "authorize lib B env hdr p tickets conn = (tickets', conn', Deny r ch) \<Longrightarrow> \<exists>status code. r = Refused status code \<and> 400 \<le> status"
  by (auto simp: authorize_def accessError_def Let_def split: if_splits option.splits prod.splits sum.splits)

text \<open>The client learns what the relay decided. Against the settings of the relay, the client's dial returns a tunnel exactly when the handler made one of the request and the proxy is
  not being closed; only a request that asks for authorization alone is answered with success otherwise. Refusals by the ticket authority, malformed requests, denied targets, a
  full relay and targets that cannot be reached all reach the client as errors, with the status of the response. Both ends speak TLS 1.3 and HTTP/3 with datagrams.\<close>

theorem dial_tells_outcome:
  assumes "handle_connect_udp lib B env dial rq p (s, tickets, conn) = (st', out)"
  shows "(dial_response True relay_settings True True (Some (outcome_status proxy_closed out)) = None
      \<longleftrightarrow> out = NoContent \<or> (\<exists>source target. out = Tunnel source target) \<and> \<not> proxy_closed)
    \<and> (out = NoContent \<longrightarrow> rq_control rq = ''authorize'')
    \<and> transport_settings.truncate relay_settings = client_settings"
proof -
  have ok: "dial_response True relay_settings True True (Some n) = None \<longleftrightarrow> 200 \<le> n \<and> n \<le> 299" for n by (auto simp: dial_response_def relay_settings_def)
  have "out = Rejected a \<Longrightarrow> \<exists>status code ch. a = Deny (Refused status code) ch \<and> 400 \<le> status" for a
    using assms denied_status by (auto simp: handle_connect_udp_def Let_def split: prod.splits auth_reply.splits if_splits option.splits bool.splits) blast+
  then have "200 \<le> outcome_status proxy_closed out \<and> outcome_status proxy_closed out \<le> 299
      \<longleftrightarrow> out = NoContent \<or> (\<exists>source target. out = Tunnel source target) \<and> \<not> proxy_closed"
    by (cases out) fastforce+
  moreover have "out = NoContent \<longrightarrow> rq_control rq = ''authorize''"
    using assms by (auto simp: handle_connect_udp_def Let_def split: prod.splits auth_reply.splits if_splits option.splits bool.splits)
  ultimately show ?thesis unfolding ok by (simp add: transport_settings.defs relay_settings_def client_settings_def)
qed

section \<open>A worked request\<close>

definition demo_template :: uri_template where
  "demo_template = \<lparr>ut_host = Some ''relay'', ut_expand = (\<lambda>h p. Some (''https://relay/'' @ h @ ''/'' @ p @ ''/'')),
     ut_match = (\<lambda>u. case split_on CHR ''/'' (drop 14 u) of h # p # _ \<Rightarrow> (h, p) | _ \<Rightarrow> ([], []))\<rparr>"

definition demo_url_of :: "string \<Rightarrow> (string \<times> string) option" where
  "demo_url_of u = Some (''relay'', u)"

definition demo_unmarshal :: "string list \<Rightarrow> sf_item option" where
  "demo_unmarshal vs = (if vs = [''?1''] then Some (SfBool True) else if vs = [''?0''] then Some (SfBool False) else None)"

lemma demo_template_law: "template_law demo_template demo_url_of"
  by (auto simp: template_law_def demo_template_def demo_url_of_def split_on_first)

lemma demo_opened: "Open_Tunnel (\<lambda>m. replicate 32 0) demo_dial (demo_client\<lparr>cRelayCertSHA256 := hex_encode (replicate 32 0)\<rparr>)
    = Inr \<lparr>tn_relay = demo_public, tn_target = demo_public, tn_timeout = 5 * second\<rparr>"
proof -
  let ?leaf = "encoded (template demo_cert_env demo_start_cfg)"
  have "DNSNames ?leaf = [''relay'']" by (simp add: encoded_def template_def)
  then have "VerifyHostname ?leaf ''relay''" using VerifyHostname_own demo_usable by blast
  moreover have "NotBefore ?leaf \<le> 0" by (simp add: encoded_def template_def demo_cert_env_def)
  moreover have "0 \<le> NotAfter ?leaf" using template_after(1) [of demo_cert_env demo_start_cfg] by (simp add: demo_cert_env_def)
  ultimately have "VerifyConnection (\<lambda>m. replicate 32 0) (cd_now demo_dial) ''relay'' (replicate 32 0) (cd_peers demo_dial) = None"
    by (simp add: verify_iff demo_dial_def)
  moreover have "literal_endpoint (show_addr_port demo_public) = Some demo_public"
    by (simp add: literal_endpoint_def parse_show_addr_port demo_public_def is_valid_def)
  ultimately show ?thesis by (simp add: Open_Tunnel_def literal_is demo_client_def open_timeout_def) (simp add: demo_dial_def)
qed

theorem request_reaches_target_witness:
  "\<exists>rq. NewRequest demo_template demo_url_of ''?1'' (show_addr_port demo_public) = Inr rq
     \<and> request_target demo_unmarshal demo_template rq = Some (show_addr_port demo_public) \<and> targetAllowed demo_server demo_public"
proof -
  let ?tn = "\<lparr>tn_relay = demo_public, tn_target = demo_public, tn_timeout = 5 * second\<rparr>"
  have t: "cRelayAddress (demo_client\<lparr>cRelayCertSHA256 := hex_encode (replicate 32 0)\<rparr>) = show_addr_port demo_public" "ap_addr demo_public \<noteq> NoAddr"
    "set (zone (ap_addr (tn_target ?tn))) \<inter> {CHR ''['', CHR '']'', CHR ''/''} = {}"
    by (simp_all add: demo_public_def demo_client_def)
  have u: "demo_unmarshal [''?1''] = Some (SfBool True)" by (simp add: demo_unmarshal_def)
  have law: "template_law ((\<lambda>raw. demo_template) (relay_template demo_public)) demo_url_of" by (simp add: demo_template_law)
  obtain rq where rq: "NewRequest demo_template demo_url_of ''?1'' (show_addr_port demo_public) = Inr rq"
      "request_target demo_unmarshal demo_template rq = Some (show_addr_port demo_public)"
      "\<forall>st'. handle_connect_udp demo_lib rbt_bolt demo_auth_env True (demo_request\<lparr>rq_target := request_target demo_unmarshal demo_template rq\<rparr>) demo_policy
          (demo_server, Some demo_auth, Some demo_conn) = (st', Tunnel demo_source demo_public)
        \<longrightarrow> demo_public = AddrPort (unmap (ap_addr demo_public)) (ap_port demo_public) \<and> targetAllowed demo_server demo_public"
    using conjunct1 [OF request_reaches_target [where U = demo_unmarshal, OF demo_opened t law u]] unfolding tunnel.select_convs by blast
  have "demo_request\<lparr>rq_target := request_target demo_unmarshal demo_template rq\<rparr> = demo_request"
    using rq(2) by (simp add: demo_request_def)
  then show ?thesis using rq demo_tunnel by metis
qed

theorem dial_tells_outcome_witness: "dial_response True relay_settings True True (Some (outcome_status False (Tunnel demo_source demo_public))) = None"
  using dial_tells_outcome [OF demo_tunnel, of False] by blast

end
