(* ===== verification/Datagram_Stream.thy ===== *)
theory Datagram_Stream
  imports Datagram_Buffer
begin

text \<open>
  The receive side of an HTTP/3 datagram stream, \<^verbatim>\<open>third_party/quic-go/http3/state_tracking_stream.go\<close>: the queue behind \<^verbatim>\<open>enqueueDatagram\<close> and \<^verbatim>\<open>ReceiveDatagram\<close>, the
  channel that wakes the receiver, and the two directions that end separately. A run is any interleaving of arrivals, ends of the directions, and the
  iterations of one receiver; every step is a critical section of the stream's mutex, or a receive on the channel. The result is that the receiver is never left
  asleep with something to receive.
\<close>

section \<open>The stream\<close>

text \<open>\<open>st_hasData\<close> is the content of the channel of capacity one, \<open>st_cleared\<close> counts the calls of \<^verbatim>\<open>clearStream\<close>.\<close>

record stream =
  st_queue :: Queue
  st_sendErr :: "string option"
  st_recvErr :: "string option"
  st_hasData :: bool
  st_cleared :: nat

definition newStateTrackingStream :: stream where
  "newStateTrackingStream = \<lparr>st_queue = New 32, st_sendErr = None, st_recvErr = None, st_hasData = False, st_cleared = 0\<rparr>"

definition closeSend :: "string \<Rightarrow> stream \<Rightarrow> stream" where
  "closeSend e s =
     (if st_sendErr s = None
      then (if st_recvErr s \<noteq> None then s\<lparr>st_cleared := st_cleared s + 1\<rparr> else s)\<lparr>st_sendErr := Some e\<rparr>
      else s)"

definition signalHasDatagram :: "stream \<Rightarrow> stream" where
  "signalHasDatagram s = s\<lparr>st_hasData := True\<rparr>"

definition closeReceive :: "string \<Rightarrow> stream \<Rightarrow> stream" where
  "closeReceive e s =
     (if st_recvErr s = None
      then signalHasDatagram
        ((if st_sendErr s \<noteq> None then s\<lparr>st_cleared := st_cleared s + 1\<rparr> else s)
           \<lparr>st_recvErr := Some e, st_queue := fst (Close_queue (st_queue s))\<rparr>)
      else s)"

text \<open>The error \<^verbatim>\<open>SendDatagram\<close> returns before it hands the datagram on, if any.\<close>

definition SendDatagram :: "(byte list \<Rightarrow> string option) \<Rightarrow> byte list \<Rightarrow> stream \<Rightarrow> string option" where
  "SendDatagram send b s = (case st_sendErr s of Some e \<Rightarrow> Some e | None \<Rightarrow> send b)"

definition enqueueDatagram :: "moment \<Rightarrow> byte list \<Rightarrow> stream \<Rightarrow> stream option" where
  "enqueueDatagram m bs s =
     (if st_recvErr s \<noteq> None then Some s
      else (case m of (a1, a2, now) \<Rightarrow>
        (case Push a1 a2 bs now (st_queue s) of
           None \<Rightarrow> None
         | Some (q, ok, _) \<Rightarrow> Some (if ok then signalHasDatagram (s\<lparr>st_queue := q\<rparr>) else s\<lparr>st_queue := q\<rparr>))))"

text \<open>One iteration of \<^verbatim>\<open>ReceiveDatagram\<close> up to the wait.\<close>

datatype rx = Polling | Waiting | Got "byte list" | Failed string | Cancelled

definition ReceiveDatagram :: "time \<Rightarrow> stream \<Rightarrow> (stream \<times> rx) option" where
  "ReceiveDatagram now s =
     (case Pop now (st_queue s) of
        None \<Rightarrow> None
      | Some (q, r, _) \<Rightarrow>
          Some (s\<lparr>st_queue := q\<rparr>,
            case r of
              Some bs \<Rightarrow> Got bs
            | None \<Rightarrow> (case st_recvErr s of Some e \<Rightarrow> Failed e | None \<Rightarrow> Waiting)))"

section \<open>Runs\<close>

inductive stream_run :: "stream \<times> rx \<Rightarrow> bool" where
  start: "stream_run (newStateTrackingStream, Polling)"
| arrival: "stream_run (s, r) \<Longrightarrow> enqueueDatagram m bs s = Some s' \<Longrightarrow> stream_run (s', r)"
| send_ends: "stream_run (s, r) \<Longrightarrow> stream_run (closeSend e s, r)"
| receive_ends: "stream_run (s, r) \<Longrightarrow> stream_run (closeReceive e s, r)"
| admitted: "stream_run (s, r) \<Longrightarrow> stream_run (s\<lparr>st_queue := EnableBurst (st_queue s)\<rparr>, r)"
| poll: "stream_run (s, Polling) \<Longrightarrow> ReceiveDatagram now s = Some (s', r') \<Longrightarrow> stream_run (s', r')"
| wake: "stream_run (s, Waiting) \<Longrightarrow> st_hasData s \<Longrightarrow> stream_run (s\<lparr>st_hasData := False\<rparr>, Polling)"
| cancel: "stream_run (s, Waiting) \<Longrightarrow> stream_run (s, Cancelled)"
| again: "stream_run (s, r) \<Longrightarrow> r \<notin> {Waiting} \<Longrightarrow> stream_run (s, Polling)"

definition stream_inv :: "stream \<Rightarrow> rx \<Rightarrow> bool" where
  "stream_inv s r \<longleftrightarrow> wf_queue (st_queue s) \<and> (st_recvErr s \<noteq> None \<longrightarrow> q_closed (st_queue s))
     \<and> st_cleared s = (if st_sendErr s \<noteq> None \<and> st_recvErr s \<noteq> None then 1 else 0)
     \<and> (r = Waiting \<and> (contents (st_queue s) \<noteq> [] \<or> st_recvErr s \<noteq> None) \<longrightarrow> st_hasData s)"

lemma inv_arrival:
  assumes "stream_inv s r" and "enqueueDatagram m bs s = Some s'"
  shows "stream_inv s' r"
proof (cases "st_recvErr s")
  case (Some e)
  then show ?thesis using assms by (simp add: enqueueDatagram_def)
next
  case None
  obtain a1 a2 now where m: "m = (a1, a2, now)" by (cases m)
  have wf: "wf_queue (st_queue s)" using assms(1) by (simp add: stream_inv_def)
  obtain q ok as where p: "Push a1 a2 bs now (st_queue s) = Some (q, ok, as)" "wf_queue q"
    "contents q = fresh now (st_queue s) @ (if ok then [\<lparr>e_data = bs, e_at = now\<rparr>] else [])"
    using push_ok [OF wf, of a1 a2 bs now] by (elim exE conjE) (rule that)
  have "contents q \<noteq> [] \<Longrightarrow> ok \<or> contents (st_queue s) \<noteq> []" using p(3) by (auto simp: fresh_def)
  then show ?thesis
    using assms None p(1,2) by (cases ok) (auto simp: enqueueDatagram_def m stream_inv_def signalHasDatagram_def)
qed

lemma inv_receive:
  assumes "stream_inv s Polling" and "ReceiveDatagram now s = Some (s', r')"
  shows "stream_inv s' r'"
proof -
  have wf: "wf_queue (st_queue s)" using assms(1) by (simp add: stream_inv_def)
  obtain q r as where p: "Pop now (st_queue s) = Some (q, r, as)" "wf_queue q" "same_profile (st_queue s) q"
    "case fresh now (st_queue s) of [] \<Rightarrow> r = None \<and> contents q = [] | e # es \<Rightarrow> r = Some (e_data e) \<and> contents q = es"
    using pop_ok [OF wf, of now] by (elim exE conjE) (rule that)
  have "r = None \<Longrightarrow> contents q = []" using p(4) by (cases "fresh now (st_queue s)") auto
  then show ?thesis
    using assms p(1-3) by (auto simp: ReceiveDatagram_def stream_inv_def same_profile_def split: option.splits)
qed

lemma run_stream_inv: "stream_run sr \<Longrightarrow> stream_inv (fst sr) (snd sr)"
proof (induction rule: stream_run.induct)
  case start
  then show ?case using new_ok [of 32] by (simp add: stream_inv_def newStateTrackingStream_def)
next
  case (arrival s r m bs s')
  then show ?case using inv_arrival by simp
next
  case (send_ends s r e)
  then show ?case by (auto simp: stream_inv_def closeSend_def)
next
  case (receive_ends s r e)
  then show ?case using close_ok [of "st_queue s"]
    by (cases "Close_queue (st_queue s)") (auto simp: stream_inv_def closeReceive_def signalHasDatagram_def)
next
  case (admitted s r)
  then show ?case using burst_ok [of "st_queue s"] by (auto simp: stream_inv_def EnableBurst_def)
next
  case (poll s now s' r')
  then show ?case using inv_receive by simp
qed (auto simp: stream_inv_def)

text \<open>C17: No datagram and no end of a stream is slept through. In every interleaving of arrivals, ends of either direction, admissions and receptions, a
  waiting receiver has a wake-up pending as soon as a datagram is queued or the receive side has ended; its next iteration then yields a datagram, the error, or finds that
  every datagram has expired. The stream is handed back exactly once, when both directions have ended, and once the receive side has
  ended its queue holds no memory.\<close>

theorem stream_wakes:
  assumes "stream_run (s, r)"
  shows "(r = Waiting \<and> (contents (st_queue s) \<noteq> [] \<or> st_recvErr s \<noteq> None) \<longrightarrow> st_hasData s)
    \<and> (\<exists>s' r'. ReceiveDatagram now s = Some (s', r')
        \<and> (case fresh now (st_queue s) of
             e # es \<Rightarrow> r' = Got (e_data e)
           | [] \<Rightarrow> r' = (case st_recvErr s of Some e \<Rightarrow> Failed e | None \<Rightarrow> Waiting)))
    \<and> st_cleared s = (if st_sendErr s \<noteq> None \<and> st_recvErr s \<noteq> None then 1 else 0)
    \<and> (st_recvErr s \<noteq> None \<longrightarrow> held (st_queue s) = 0)"
proof -
  have inv: "stream_inv s r" using run_stream_inv [OF assms] by simp
  then have wf: "wf_queue (st_queue s)" by (simp add: stream_inv_def)
  obtain q x as where p: "Pop now (st_queue s) = Some (q, x, as)"
    "case fresh now (st_queue s) of [] \<Rightarrow> x = None \<and> contents q = [] | e # es \<Rightarrow> x = Some (e_data e) \<and> contents q = es"
    using pop_ok [OF wf, of now] by (elim exE conjE) (rule that)
  have "\<exists>s' r'. ReceiveDatagram now s = Some (s', r')
        \<and> (case fresh now (st_queue s) of
             e # es \<Rightarrow> r' = Got (e_data e)
           | [] \<Rightarrow> r' = (case st_recvErr s of Some e \<Rightarrow> Failed e | None \<Rightarrow> Waiting))"
    using p by (cases "fresh now (st_queue s)") (auto simp: ReceiveDatagram_def)
  moreover have "q_closed (st_queue s) \<Longrightarrow> held (st_queue s) = 0" using wf wf_closed [OF wf] by (auto simp: wf_queue_def held_def)
  ultimately show ?thesis using inv by (simp add: stream_inv_def)
qed

section \<open>A worked stream\<close>

definition demo_stream :: stream where
  "demo_stream = closeReceive ''EOF'' newStateTrackingStream"

theorem stream_wakes_witness: "st_hasData demo_stream \<and> held (st_queue demo_stream) = 0"
proof -
  have "ReceiveDatagram 0 newStateTrackingStream = Some (newStateTrackingStream, Waiting)"
    by (simp add: ReceiveDatagram_def newStateTrackingStream_def Pop_def New_def expire_queue.simps)
  then have "stream_run (newStateTrackingStream, Waiting)" using stream_run.poll [OF stream_run.start] by blast
  then have "stream_run (demo_stream, Waiting)" unfolding demo_stream_def by (rule stream_run.receive_ends)
  moreover have "st_recvErr demo_stream \<noteq> None"
    by (simp add: demo_stream_def closeReceive_def newStateTrackingStream_def signalHasDatagram_def)
  ultimately show ?thesis using stream_wakes [of demo_stream Waiting] by blast
qed

end
