(* ===== verification/Quic_Varint.thy ===== *)
theory Quic_Varint
  imports Wire_Code
begin

unbundle bit_operations_syntax

text \<open>
  The variable-length integers of QUIC, \<^verbatim>\<open>third_party/quic-go/quicvarint/varint.go\<close>: \<^verbatim>\<open>Append\<close>, \<^verbatim>\<open>Parse\<close> and \<^verbatim>\<open>Len\<close> on 64-bit words. Every datagram of a tunnel starts with
  one. \<^verbatim>\<open>Parse\<close> inverts \<^verbatim>\<open>Append\<close> whatever follows, so the integers are a \<open>prefix_code\<close>.
\<close>

section \<open>Encoding and decoding\<close>

text \<open>\<open>None\<close> is the panic for a number that does not fit into 62 bits.\<close>

definition vi_Append :: "64 word \<Rightarrow> byte list option" where
  "vi_Append i =
     (if i \<le> 63 then Some [ucast i]
      else if i \<le> 16383 then Some [ucast (drop_bit 8 i) OR 0x40, ucast i]
      else if i \<le> 1073741823 then Some [ucast (drop_bit 24 i) OR 0x80, ucast (drop_bit 16 i), ucast (drop_bit 8 i), ucast i]
      else if i \<le> 4611686018427387903 then
        Some [ucast (drop_bit 56 i) OR 0xc0, ucast (drop_bit 48 i), ucast (drop_bit 40 i), ucast (drop_bit 32 i),
              ucast (drop_bit 24 i), ucast (drop_bit 16 i), ucast (drop_bit 8 i), ucast i]
      else None)"

definition vi_Len :: "64 word \<Rightarrow> nat option" where
  "vi_Len i =
     (if i \<le> 63 then Some 1 else if i \<le> 16383 then Some 2 else if i \<le> 1073741823 then Some 4
      else if i \<le> 4611686018427387903 then Some 8 else None)"

text \<open>\<^verbatim>\<open>binary.BigEndian.Uint64\<close>.\<close>

definition be_uint64 :: "byte list \<Rightarrow> 64 word" where
  "be_uint64 b = ucast (b ! 7) OR push_bit 8 (ucast (b ! 6)) OR push_bit 16 (ucast (b ! 5)) OR push_bit 24 (ucast (b ! 4))
     OR push_bit 32 (ucast (b ! 3)) OR push_bit 40 (ucast (b ! 2)) OR push_bit 48 (ucast (b ! 1)) OR push_bit 56 (ucast (b ! 0))"

datatype varint_err = EOF | UnexpectedEOF

definition vi_Parse :: "byte list \<Rightarrow> (varint_err, 64 word \<times> nat) result" where
  "vi_Parse b =
     (case b of
        [] \<Rightarrow> Inl EOF
      | first # _ \<Rightarrow>
          let kind = drop_bit 6 first in
          if kind = 0 then Inr (ucast (first AND 0x3f), 1)
          else if kind = 1 then
            if length b < 2 then Inl UnexpectedEOF
            else Inr (ucast (b ! 1) OR push_bit 8 (ucast (first AND 0x3f)), 2)
          else if kind = 2 then
            if length b < 4 then Inl UnexpectedEOF
            else Inr (ucast (b ! 3) OR push_bit 8 (ucast (b ! 2)) OR push_bit 16 (ucast (b ! 1)) OR push_bit 24 (ucast (first AND 0x3f)), 4)
          else if length b < 8 then Inl UnexpectedEOF
          else Inr (be_uint64 b AND 0x3fffffffffffffff, 8))"

section \<open>Round trip\<close>

lemma small_bits:
  assumes "(i :: 64 word) < 2 ^ k" and "k < 64" and "bit i n"
  shows "n < k"
proof (rule ccontr)
  assume "\<not> n < k"
  then have "(2 :: int) ^ k \<le> 2 ^ n" by simp
  moreover have "uint i < 2 ^ k"
  proof -
    have "uint (2 ^ k :: 64 word) = 2 ^ k" using assms(2) by (intro uint_2p) (simp add: word_gt_0)
    then show ?thesis using assms(1) by (simp add: word_less_def)
  qed
  ultimately have "uint i < 2 ^ n" by (rule order.strict_trans2 [rotated])
  then have "uint i div 2 ^ n = 0" by (intro div_pos_pos_trivial) simp_all
  moreover have "bit (uint i) n" using assms(3) bit_imp_le_length [OF assms(3)] by (simp add: bit_uint_iff)
  ultimately show False by (simp add: bit_iff_odd)
qed

lemma fits:
  "i \<le> 63 \<Longrightarrow> bit (i :: 64 word) n \<Longrightarrow> n < 6" "i \<le> 16383 \<Longrightarrow> bit (i :: 64 word) n \<Longrightarrow> n < 14"
  "i \<le> 1073741823 \<Longrightarrow> bit (i :: 64 word) n \<Longrightarrow> n < 30" "i \<le> 4611686018427387903 \<Longrightarrow> bit (i :: 64 word) n \<Longrightarrow> n < 62"
proof -
  have *: "i \<le> 63 \<Longrightarrow> i < 2 ^ 6" "i \<le> 16383 \<Longrightarrow> i < 2 ^ 14" "i \<le> 1073741823 \<Longrightarrow> i < 2 ^ 30" "i \<le> 4611686018427387903 \<Longrightarrow> i < 2 ^ 62"
    by (auto elim!: le_less_trans)
  show "i \<le> 63 \<Longrightarrow> bit i n \<Longrightarrow> n < 6" "i \<le> 16383 \<Longrightarrow> bit i n \<Longrightarrow> n < 14" "i \<le> 1073741823 \<Longrightarrow> bit i n \<Longrightarrow> n < 30"
    "i \<le> 4611686018427387903 \<Longrightarrow> bit i n \<Longrightarrow> n < 62"
    using small_bits [OF *(1)] small_bits [OF *(2)] small_bits [OF *(3)] small_bits [OF *(4)] by simp_all
qed

lemma const_bits:
  "bit (0x3f :: int) n \<longleftrightarrow> n < 6" "bit (0x40 :: int) n \<longleftrightarrow> n = 6" "bit (0x80 :: int) n \<longleftrightarrow> n = 7" "bit (0xc0 :: int) n \<longleftrightarrow> n = 6 \<or> n = 7"
  "bit (0x3fffffffffffffff :: int) n \<longleftrightarrow> n < 62"
proof -
  have c: "(0x3f :: int) = mask 6" "(0x40 :: int) = push_bit 6 1" "(0x80 :: int) = push_bit 7 1" "(0xc0 :: int) = push_bit 6 1 OR push_bit 7 1"
    "(0x3fffffffffffffff :: int) = mask 62" by (simp_all add: mask_eq_exp_minus_1)
  show "bit (0x3f :: int) n \<longleftrightarrow> n < 6" "bit (0x40 :: int) n \<longleftrightarrow> n = 6" "bit (0x80 :: int) n \<longleftrightarrow> n = 7" "bit (0xc0 :: int) n \<longleftrightarrow> n = 6 \<or> n = 7"
    "bit (0x3fffffffffffffff :: int) n \<longleftrightarrow> n < 62"
    unfolding c by (auto simp only: bit_simps) simp_all
qed

text \<open>The first byte tells the length, and the bytes give back the number.\<close>

lemma kinds:
  fixes i :: "64 word"
  shows "i \<le> 63 \<Longrightarrow> drop_bit 6 (ucast i :: byte) = 0"
    and "i \<le> 16383 \<Longrightarrow> drop_bit 6 (ucast (drop_bit 8 i) OR 0x40 :: byte) = 1"
    and "i \<le> 1073741823 \<Longrightarrow> drop_bit 6 (ucast (drop_bit 24 i) OR 0x80 :: byte) = 2"
    and "i \<le> 4611686018427387903 \<Longrightarrow> drop_bit 6 (ucast (drop_bit 56 i) OR 0xc0 :: byte) = 3"
proof -
  have three: "(3 :: byte) = push_bit 0 1 OR push_bit 1 1" by simp
  show "i \<le> 63 \<Longrightarrow> drop_bit 6 (ucast i :: byte) = 0"
  proof (rule bit_word_eqI)
    fix n assume "i \<le> 63"
    then show "bit (drop_bit 6 (ucast i :: byte)) n = bit (0 :: byte) n" using fits(1) [of i "6 + n"] by (auto simp: bit_simps)
  qed
  show "i \<le> 16383 \<Longrightarrow> drop_bit 6 (ucast (drop_bit 8 i) OR 0x40 :: byte) = 1"
  proof (rule bit_word_eqI)
    fix n assume "i \<le> 16383"
    then show "bit (drop_bit 6 (ucast (drop_bit 8 i) OR 0x40 :: byte)) n = bit (1 :: byte) n" using fits(2) [of i "14 + n"] by (auto simp: bit_simps const_bits)
  qed
  show "i \<le> 1073741823 \<Longrightarrow> drop_bit 6 (ucast (drop_bit 24 i) OR 0x80 :: byte) = 2"
  proof (rule bit_word_eqI)
    fix n assume "i \<le> 1073741823"
    then show "bit (drop_bit 6 (ucast (drop_bit 24 i) OR 0x80 :: byte)) n = bit (2 :: byte) n" using fits(3) [of i "30 + n"] by (auto simp: bit_simps const_bits)
  qed
  show "i \<le> 4611686018427387903 \<Longrightarrow> drop_bit 6 (ucast (drop_bit 56 i) OR 0xc0 :: byte) = 3"
  proof (rule bit_word_eqI)
    fix n assume "i \<le> 4611686018427387903"
    then show "bit (drop_bit 6 (ucast (drop_bit 56 i) OR 0xc0 :: byte)) n = bit (3 :: byte) n"
      using fits(4) [of i "62 + n"] unfolding three by (auto simp: bit_simps const_bits)
  qed
qed

lemma value_1: "i \<le> 63 \<Longrightarrow> ucast ((ucast (i :: 64 word) :: byte) AND 0x3f) = i"
  apply (rule bit_word_eqI)
  subgoal for n using fits(1) [of i n] by (auto simp: bit_simps const_bits)
  done

lemma value_2: "i \<le> 16383 \<Longrightarrow> ucast (ucast (i :: 64 word) :: byte) OR push_bit 8 (ucast ((ucast (drop_bit 8 i) OR 0x40 :: byte) AND 0x3f)) = i"
  apply (rule bit_word_eqI)
  subgoal for n using fits(2) [of i n] by (auto simp: bit_simps const_bits)
  done

lemma value_4:
  "i \<le> 1073741823 \<Longrightarrow> ucast (ucast (i :: 64 word) :: byte) OR push_bit 8 (ucast (ucast (drop_bit 8 i) :: byte)) OR push_bit 16 (ucast (ucast (drop_bit 16 i) :: byte))
     OR push_bit 24 (ucast ((ucast (drop_bit 24 i) OR 0x80 :: byte) AND 0x3f)) = i"
  apply (rule bit_word_eqI)
  subgoal for n using fits(3) [of i n] by (auto simp: bit_simps const_bits)
  done

lemma byte_bits: "k \<le> 56 \<Longrightarrow> bit (push_bit k (ucast (ucast (drop_bit k i) :: byte)) :: 64 word) n \<longleftrightarrow> k \<le> n \<and> n < k + 8 \<and> bit (i :: 64 word) n"
  using bit_imp_le_length [of i n] by (auto simp: bit_simps)

lemma top_bits: "bit (push_bit 56 (ucast (ucast (drop_bit 56 i) OR 0xc0 :: byte)) AND 0x3fffffffffffffff :: 64 word) n \<longleftrightarrow> 56 \<le> n \<and> n < 62 \<and> bit (i :: 64 word) n"
   using bit_imp_le_length [of i n] by (auto simp: bit_simps const_bits)

lemma mask_bits: "bit (0x3fffffffffffffff :: 64 word) n \<longleftrightarrow> n < 62"
  by (auto simp: bit_simps const_bits)

lemma be_uint64_Cons: "be_uint64 (b0 # b1 # b2 # b3 # b4 # b5 # b6 # b7 # r) = ucast b7 OR push_bit 8 (ucast b6) OR push_bit 16 (ucast b5) OR push_bit 24 (ucast b4)
     OR push_bit 32 (ucast b3) OR push_bit 40 (ucast b2) OR push_bit 48 (ucast b1) OR push_bit 56 (ucast b0)"
  by (simp add: be_uint64_def)

lemma value_8:
  assumes "(i :: 64 word) \<le> 4611686018427387903"
  shows "be_uint64 ([ucast (drop_bit 56 i) OR 0xc0, ucast (drop_bit 48 i), ucast (drop_bit 40 i), ucast (drop_bit 32 i),
    ucast (drop_bit 24 i), ucast (drop_bit 16 i), ucast (drop_bit 8 i), ucast i] @ rest) AND 0x3fffffffffffffff = i" (is "be_uint64 ?b AND ?m = i")
proof (rule bit_word_eqI)
  fix n
  have bits: "bit (push_bit k (ucast (ucast (drop_bit k i) :: byte)) AND ?m) n \<longleftrightarrow> k \<le> n \<and> n < k + 8 \<and> bit i n" if "k \<le> 48" for k
    using that byte_bits [of k i n] mask_bits [of n] unfolding bit_and_iff by auto
  have lowm: "bit (ucast (ucast i :: byte) AND ?m) n \<longleftrightarrow> n < 8 \<and> bit i n" using bits [of 0] by simp
  have le: "(8 :: nat) \<le> 48" "(16 :: nat) \<le> 48" "(24 :: nat) \<le> 48" "(32 :: nat) \<le> 48" "(40 :: nat) \<le> 48" "(48 :: nat) \<le> 48" by simp_all
  show "bit (be_uint64 ?b AND ?m) n = bit i n"
    unfolding append_Cons be_uint64_Cons bit.conj_disj_distrib2 bit_or_iff top_bits 
    lowm bits [OF le(1)] bits [OF le(2)] bits [OF le(3)] bits [OF le(4)] bits [OF le(5)] bits [OF le(6)]
    using fits(4) [OF assms, of n] by (cases "bit i n") (simp_all only: simp_thms, arith)
qed

lemma parse_kinds:
  "drop_bit 6 b0 = 0 \<Longrightarrow> vi_Parse (b0 # r) = Inr (ucast (b0 AND 0x3f), 1)"
  "drop_bit 6 b0 = 1 \<Longrightarrow> vi_Parse (b0 # b1 # r) = Inr (ucast b1 OR push_bit 8 (ucast (b0 AND 0x3f)), 2)"
  "drop_bit 6 b0 = 2 \<Longrightarrow> vi_Parse (b0 # b1 # b2 # b3 # r)
     = Inr (ucast b3 OR push_bit 8 (ucast b2) OR push_bit 16 (ucast b1) OR push_bit 24 (ucast (b0 AND 0x3f)), 4)"
  "drop_bit 6 b0 = 3 \<Longrightarrow> 7 \<le> length r \<Longrightarrow> vi_Parse (b0 # r) = Inr (be_uint64 (b0 # r) AND 0x3fffffffffffffff, 8)"
  by (simp_all add: vi_Parse_def Let_def nth_Cons')

lemma vi_Parse_Append:
  assumes "vi_Append i = Some b"
  shows "vi_Parse (b @ rest) = Inr (i, length b)"
proof -
  consider "i \<le> 63" | "\<not> i \<le> 63" "i \<le> 16383" | "\<not> i \<le> 63" "\<not> i \<le> 16383" "i \<le> 1073741823"
    | "\<not> i \<le> 63" "\<not> i \<le> 16383" "\<not> i \<le> 1073741823" "i \<le> 4611686018427387903"
    using assms by (auto simp only: vi_Append_def split: if_splits)
  then show ?thesis
  proof cases
    case 1
    then have b: "b = [ucast i]" using assms by (simp add: vi_Append_def)
    show ?thesis unfolding b append_Cons parse_kinds(1) [OF kinds(1) [OF 1]] value_1 [OF 1] by simp
  next
    case 2
    then have b: "b = [ucast (drop_bit 8 i) OR 0x40, ucast i]" using assms by (simp add: vi_Append_def)
    show ?thesis unfolding b append_Cons parse_kinds(2) [OF kinds(2) [OF 2(2)]] value_2 [OF 2(2)] by simp
  next
    case 3
    then have b: "b = [ucast (drop_bit 24 i) OR 0x80, ucast (drop_bit 16 i), ucast (drop_bit 8 i), ucast i]" using assms by (simp add: vi_Append_def)
    show ?thesis unfolding b append_Cons parse_kinds(3) [OF kinds(3) [OF 3(3)]] value_4 [OF 3(3)] by simp
  next
    case 4
    then have b: "b = [ucast (drop_bit 56 i) OR 0xc0, ucast (drop_bit 48 i), ucast (drop_bit 40 i), ucast (drop_bit 32 i),
      ucast (drop_bit 24 i), ucast (drop_bit 16 i), ucast (drop_bit 8 i), ucast i]" using assms by (simp add: vi_Append_def)
    have "vi_Parse (b @ rest) = Inr (be_uint64 (b @ rest) AND 0x3fffffffffffffff, 8)"
      unfolding b append_Cons by (rule parse_kinds(4) [OF kinds(4) [OF 4(4)]]) simp
    then show ?thesis unfolding b value_8 [OF 4(4)] by simp
  qed
qed

lemma vi_Append_total: "(\<exists>b. vi_Append i = Some b) \<longleftrightarrow> i \<le> 4611686018427387903"
proof -
  have "i \<le> 4611686018427387903" if "i \<le> 63 \<or> i \<le> 16383 \<or> i \<le> 1073741823"
    using that by (elim disjE) (erule order.trans, simp)+
  then show ?thesis by (auto simp: vi_Append_def split: if_splits)
qed

lemma vi_Len_Append: "vi_Len i = map_option length (vi_Append i)"
  by (simp add: vi_Len_def vi_Append_def)

text \<open>The integers as the fields of a wire format.\<close>

definition vi_enc :: "64 word \<Rightarrow> byte list" where
  "vi_enc i = (case vi_Append i of Some b \<Rightarrow> b | None \<Rightarrow> [])"

definition vi_dec :: "byte list \<Rightarrow> (64 word \<times> byte list) option" where
  "vi_dec b = (case vi_Parse b of Inr (i, n) \<Rightarrow> Some (i, drop n b) | Inl _ \<Rightarrow> None)"

interpretation vi: prefix_code vi_enc vi_dec "\<lambda>i. i \<le> 4611686018427387903"
proof
  fix i :: "64 word" and rest
  assume "i \<le> 4611686018427387903"
  then obtain b where "vi_Append i = Some b" using vi_Append_total by blast
  then show "vi_dec (vi_enc i @ rest) = Some (i, rest)"
    using vi_Parse_Append [of i b rest] by (simp add: vi_dec_def vi_enc_def)
qed

text \<open>
  An integer below 2^62 is written in \<^verbatim>\<open>Len\<close> bytes and read back by \<^verbatim>\<open>Parse\<close>, which consumes exactly those bytes whatever follows them; a larger one is refused by
  \<^verbatim>\<open>Append\<close> and \<^verbatim>\<open>Len\<close> alike. A sequence of integers is read back as that sequence.
\<close>

theorem varint_roundtrip:
  assumes "list_all (\<lambda>j. vi_Append j \<noteq> None) js"
  shows "(case vi_Append i of
      Some b \<Rightarrow> vi_Len i = Some (length b) \<and> vi_Parse (b @ rest) = Inr (i, length b)
    | None \<Rightarrow> vi_Len i = None \<and> 2 ^ 62 \<le> i)
   \<and> dec_many vi_dec (length js) (concat (map vi_enc js) @ rest) = Some (js, rest)"
proof -
  have "list_all (\<lambda>i. i \<le> 4611686018427387903) js"
    using assms vi_Append_total by (auto simp: list_all_iff)
  note many = vi.dec_many_enc [OF this, of rest]
  show ?thesis
  proof (cases "vi_Append i")
    case None
    then have "\<not> i \<le> 4611686018427387903" using vi_Append_total [of i] by simp
    then have "2 ^ 62 \<le> i" using inc_le [of 4611686018427387903 i] by simp
    then show ?thesis using None many by (simp add: vi_Len_Append)
  next
    case (Some b)
    then show ?thesis using many vi_Parse_Append [OF Some] by (simp add: vi_Len_Append)
  qed
qed

theorem varint_roundtrip_witness:
  "vi_Len 15293 = Some 2 \<and> vi_Parse ([0x7b, 0xbd] @ [7]) = Inr (15293, 2)
   \<and> dec_many vi_dec 2 (concat (map vi_enc [37, 494878333]) @ [7]) = Some ([37, 494878333], [7])"
proof -
  have "vi_Append 15293 = Some [0x7b, 0xbd]" by code_simp
  moreover have "list_all (\<lambda>j. vi_Append j \<noteq> None) [37, 494878333]" by code_simp
  ultimately show ?thesis using varint_roundtrip [of "[37, 494878333]" 15293 "[7]"] by (simp add: numeral_2_eq_2)
qed

end
