(* ===== verification/Masque_Flow.thy ===== *)
theory Masque_Flow
  imports Datagram_Stream Quic_Varint Masque_Client
begin

text \<open>
  The path of a datagram between the client and the target: \<^verbatim>\<open>Conn.WriteTo\<close> and \<^verbatim>\<open>Conn.ReadFrom\<close> of \<^verbatim>\<open>third_party/masque-go/conn.go\<close>, \<^verbatim>\<open>proxyConnSend\<close> and
  \<^verbatim>\<open>proxyConnReceive\<close> of \<^verbatim>\<open>third_party/masque-go/proxy.go\<close>, and between them \<^verbatim>\<open>sendDatagram\<close> and \<^verbatim>\<open>receiveDatagrams\<close> of \<^verbatim>\<open>third_party/quic-go/http3/conn.go\<close>, which share one
  QUIC connection among its streams.

  A loop takes the list of what its blocking calls return, one entry per iteration, and stops where the list ends. The QUIC connection may lose and reorder
  datagrams: the theorems hold for every list of arrivals.
\<close>

section \<open>Streams on one connection\<close>

text \<open>A stream identifier is a non-negative \<^verbatim>\<open>int64\<close>; that of a request is a multiple of four.\<close>

definition sendDatagram :: "nat \<Rightarrow> byte list \<Rightarrow> byte list option" where
  "sendDatagram streamID b = map_option (\<lambda>data. data @ b) (vi_Append (word_of_nat (streamID div 4)))"

datatype dg_end = Reading | DatagramError

fun receiveDatagrams :: "(moment \<times> byte list) list \<Rightarrow> (nat, stream) gomap \<Rightarrow> ((nat, stream) gomap \<times> dg_end) option" where
  "receiveDatagrams [] streams = Some (streams, Reading)"
| "receiveDatagrams ((m, b) # rest) streams =
     (case vi_Parse b of
        Inl _ \<Rightarrow> Some (streams, DatagramError)
      | Inr (quarterStreamID, n) \<Rightarrow>
          if quarterStreamID > 1152921504606846975 then Some (streams, DatagramError)
          else
            (let streamID = 4 * unat quarterStreamID in
             case get_map streams streamID of
               None \<Rightarrow> receiveDatagrams rest streams
             | Some dg \<Rightarrow>
                 (case enqueueDatagram m (drop n b) dg of
                    None \<Rightarrow> None
                  | Some dg' \<Rightarrow> receiveDatagrams rest (set_map streamID dg' streams))))"

section \<open>The two ends of a tunnel\<close>

definition contextIDZero :: "byte list" where
  "contextIDZero = [0]"

abbreviation maxUDPPayloadSize :: nat where
  "maxUDPPayloadSize \<equiv> 1500"

text \<open>\<^verbatim>\<open>WriteTo\<close>: the datagram it hands to the stream.\<close>

definition WriteTo :: "byte list \<Rightarrow> byte list" where
  "WriteTo p = contextIDZero @ p"

datatype received = Datagram "byte list" | RecvEOF | RecvErr string | RecvCanceled

text \<open>\<^verbatim>\<open>ReadFrom\<close> with a buffer of \<open>len\<close> bytes. Next to what \<^verbatim>\<open>ReceiveDatagram\<close> returned stands whether the deadline is, when that is looked at, in the future.\<close>

datatype read_result = Read "byte list" | ReadFailed received | Malformed varint_err | DeadlineExceeded | StillReading

fun ReadFrom :: "nat \<Rightarrow> (received \<times> bool) list \<Rightarrow> read_result" where
  "ReadFrom len [] = StillReading"
| "ReadFrom len ((RecvCanceled, before) # rest) = (if before then ReadFrom len rest else DeadlineExceeded)"
| "ReadFrom len ((Datagram data, before) # rest) =
     (case vi_Parse data of
        Inl e \<Rightarrow> Malformed e
      | Inr (contextID, n) \<Rightarrow> if contextID \<noteq> 0 then ReadFrom len rest else Read (take len (drop n data)))"
| "ReadFrom len ((e, before) # rest) = ReadFailed e"

text \<open>\<^verbatim>\<open>proxyConnSend\<close>: what it writes to the socket and, once it has returned, whether without an error. Next to what \<^verbatim>\<open>ReceiveDatagram\<close> returned stands
  whether the write succeeds.\<close>

fun proxyConnSend :: "(received \<times> bool) list \<Rightarrow> byte list list \<times> bool option" where
  "proxyConnSend [] = ([], None)"
| "proxyConnSend ((RecvEOF, ok) # rest) = ([], Some True)"
| "proxyConnSend ((Datagram data, ok) # rest) =
     (case vi_Parse data of
        Inl e \<Rightarrow> ([], Some False)
      | Inr (contextID, n) \<Rightarrow>
          if contextID \<noteq> 0 then proxyConnSend rest
          else if length (drop n data) > maxUDPPayloadSize then proxyConnSend rest
          else if \<not> ok then ([], Some False)
          else (case proxyConnSend rest of (ws, r) \<Rightarrow> (drop n data # ws, r)))"
| "proxyConnSend ((e, ok) # rest) = ([], Some False)"

text \<open>\<^verbatim>\<open>proxyConnReceive\<close>: the datagrams it hands to the stream. A read returns at most as many bytes as the buffer has after the context identifier, one more than
  the largest payload; the buffer is used again for every packet.\<close>

datatype sock_read = Packet "byte list" | SockEOF | SockErr

fun proxyConnReceive :: "byte list \<Rightarrow> (sock_read \<times> bool) list \<Rightarrow> byte list list \<times> bool option" where
  "proxyConnReceive b [] = ([], None)"
| "proxyConnReceive b ((SockEOF, ok) # rest) = ([], Some True)"
| "proxyConnReceive b ((SockErr, ok) # rest) = ([], Some False)"
| "proxyConnReceive b ((Packet p, ok) # rest) =
     (let h = length contextIDZero; got = take (length b - h) p; n = length got; b' = take h b @ got @ drop (h + n) b in
      if n > maxUDPPayloadSize then proxyConnReceive b' rest
      else if \<not> ok then ([], Some False)
      else (case proxyConnReceive b' rest of (ds, r) \<Rightarrow> (take (h + n) b' # ds, r)))"

definition receive_buffer :: "byte list" where
  "receive_buffer = contextIDZero @ replicate (maxUDPPayloadSize + 1) 0"

text \<open>\<^verbatim>\<open>Conn.SendDatagram\<close> of \<^verbatim>\<open>third_party/quic-go/connection.go\<close>: whether the connection takes the datagram; \<open>maxDataLen\<close> is what fits into a packet now.\<close>

definition conn_SendDatagram :: "bool \<Rightarrow> nat \<Rightarrow> byte list \<Rightarrow> bool" where
  "conn_SendDatagram supported maxDataLen p \<longleftrightarrow> supported \<and> length p \<le> maxDataLen"

section \<open>What each stream gets\<close>

fun addressed :: "nat \<Rightarrow> (moment \<times> byte list) list \<Rightarrow> (moment \<times> byte list) list" where
  "addressed k [] = []"
| "addressed k ((m, b) # rest) =
     (case vi_Parse b of
        Inl _ \<Rightarrow> []
      | Inr (q, n) \<Rightarrow>
          if q > 1152921504606846975 then []
          else if 4 * unat q = k then (m, drop n b) # addressed k rest
          else addressed k rest)"

fun enqueue_all :: "(moment \<times> byte list) list \<Rightarrow> stream \<Rightarrow> stream option" where
  "enqueue_all [] s = Some s"
| "enqueue_all ((m, b) # rest) s = (case enqueueDatagram m b s of None \<Rightarrow> None | Some s' \<Rightarrow> enqueue_all rest s')"

lemma enqueue_ok:
  assumes "wf_queue (st_queue s)"
  shows "\<exists>s'. enqueueDatagram m b s = Some s' \<and> wf_queue (st_queue s')"
proof -
  obtain a1 a2 now where m: "m = (a1, a2, now)" by (cases m)
  obtain q ok as where "Push a1 a2 b now (st_queue s) = Some (q, ok, as)" "wf_queue q"
    using push_ok [OF assms, of a1 a2 b now] by (elim exE conjE) (rule that)
  then show ?thesis using assms by (simp add: enqueueDatagram_def m signalHasDatagram_def)
qed

lemma receive_splits:
  assumes "\<forall>k s. get_map S k = Some s \<longrightarrow> wf_queue (st_queue s)"
  shows "\<exists>S' e. receiveDatagrams arr S = Some (S', e)
    \<and> (\<forall>k. get_map S' k = (case get_map S k of None \<Rightarrow> None | Some s \<Rightarrow> enqueue_all (addressed k arr) s))"
  using assms
proof (induction arr S rule: receiveDatagrams.induct)
  case (1 S)
  then show ?case by (simp split: option.splits)
next
  case (2 m b rest S)
  show ?case
  proof (cases "vi_Parse b")
    case (Inl e)
    then show ?thesis by (simp split: option.splits)
  next
    case (Inr qn)
    obtain q n where qn: "vi_Parse b = Inr (q, n)" using Inr by (cases qn) simp
    show ?thesis
    proof (cases "q > 1152921504606846975")
      case True
      then show ?thesis using qn by (simp split: option.splits)
    next
      case False
      show ?thesis
      proof (cases "get_map S (4 * unat q)")
        case None
        from 2(1) [OF qn refl False refl None 2(3)] obtain S' e where r: "receiveDatagrams rest S = Some (S', e)"
          "\<And>k. get_map S' k = (case get_map S k of None \<Rightarrow> None | Some s \<Rightarrow> enqueue_all (addressed k rest) s)" by blast
        have "get_map S' k = (case get_map S k of None \<Rightarrow> None | Some s \<Rightarrow> enqueue_all (addressed k ((m, b) # rest)) s)" for k
          using r(2) [of k] None qn False by (cases "4 * unat q = k") (auto split: option.split)
        then show ?thesis using r(1) None qn False by simp
      next
        case (Some s)
        obtain s' where s': "enqueueDatagram m (drop n b) s = Some s'" "wf_queue (st_queue s')" using enqueue_ok 2(3) Some by blast
        have "\<forall>k t. get_map (set_map (4 * unat q) s' S) k = Some t \<longrightarrow> wf_queue (st_queue t)" using 2(3) s'(2) by (simp add: update_conv)
        from 2(2) [OF qn refl False refl Some s'(1) this] obtain S' e where r: "receiveDatagrams rest (set_map (4 * unat q) s' S) = Some (S', e)"
          "\<And>k. get_map S' k = (case get_map (set_map (4 * unat q) s' S) k of None \<Rightarrow> None | Some s \<Rightarrow> enqueue_all (addressed k rest) s)" by blast
        have "get_map S' k = (case get_map S k of None \<Rightarrow> None | Some s \<Rightarrow> enqueue_all (addressed k ((m, b) # rest)) s)" for k
          using r(2) [of k] Some s'(1) qn False by (cases "4 * unat q = k") (auto simp: update_conv split: option.split)
        then show ?thesis using r(1) Some s'(1) qn False by simp
      qed
    qed
  qed
qed

lemma receive_ends:
  "receiveDatagrams arr S = Some (S', e) \<Longrightarrow>
     e = Reading \<longleftrightarrow> (\<forall>(m, b) \<in> set arr. \<exists>q n. vi_Parse b = Inr (q, n) \<and> q \<le> 1152921504606846975)"
  by (induction arr S rule: receiveDatagrams.induct) (auto simp: Let_def split: sum.splits prod.splits if_splits option.splits)

text \<open>C13: Tunnels on one connection do not mix. For every list of datagrams that arrive on a connection, the dispatch ends without a panic, and each of its streams
  is left as if exactly the datagrams that name it had been enqueued on it alone, in their order, each without its stream prefix; a stream that
  is not there is not created. The first datagram whose prefix cannot be read or is out of range ends the dispatch.\<close>

theorem datagrams_isolated:
  assumes "\<forall>k s. get_map S k = Some s \<longrightarrow> wf_queue (st_queue s)"
  shows "\<exists>S' e. receiveDatagrams arr S = Some (S', e)
    \<and> (\<forall>k. get_map S' k = (case get_map S k of None \<Rightarrow> None | Some s \<Rightarrow> enqueue_all (addressed k arr) s))
    \<and> (e = Reading \<longleftrightarrow> (\<forall>(m, b) \<in> set arr. \<exists>q n. vi_Parse b = Inr (q, n) \<and> q \<le> 1152921504606846975))"
proof -
  obtain S' e where r: "receiveDatagrams arr S = Some (S', e)"
    "\<forall>k. get_map S' k = (case get_map S k of None \<Rightarrow> None | Some s \<Rightarrow> enqueue_all (addressed k arr) s)"
    using receive_splits [OF assms, of arr] by (elim exE conjE) (rule that)
  show ?thesis by (intro exI conjI, rule r(1), rule r(2), rule receive_ends [OF r(1)])
qed

section \<open>What the target gets\<close>

lemma context_zero: "vi_Parse (contextIDZero @ p) = Inr (0, 1)" "contextIDZero = vi_enc 0"
  using vi_Parse_Append [of 0 "[0]" p] by (simp_all add: contextIDZero_def vi_enc_def vi_Append_def)

lemma send_writes: "list_all (\<lambda>d. length d \<le> 1500) ds \<Longrightarrow> proxyConnSend (map (\<lambda>d. (Datagram (WriteTo d), True)) ds) = (ds, None)"
proof (induction ds)
  case (Cons d ds)
  then show ?case using context_zero(1) [of d] by (simp add: WriteTo_def) (simp add: contextIDZero_def)
qed simp

lemma quarter:
  assumes "4 dvd k" and "k < 2 ^ 62"
  obtains b where "vi_Append (word_of_nat (k div 4)) = Some b" and "unat (word_of_nat (k div 4) :: 64 word) = k div 4"
    and "(word_of_nat (k div 4) :: 64 word) \<le> 1152921504606846975"
proof -
  have u: "unat (word_of_nat (k div 4) :: 64 word) = k div 4" using assms(2) by (simp add: unat_of_nat)
  have le: "(word_of_nat (k div 4) :: 64 word) \<le> 1152921504606846975" using assms(2) u by (simp add: word_le_nat_alt)
  then have "(word_of_nat (k div 4) :: 64 word) \<le> 4611686018427387903" by (rule order.trans) simp
  then show ?thesis using vi_Append_total u le that by blast
qed

lemma frame_addressed:
  assumes "4 dvd k" and "k < 2 ^ 62"
  shows "addressed j ((m, the (sendDatagram k b)) # rest) = (if k = j then [(m, b)] else []) @ addressed j rest"
proof -
  obtain h where h: "vi_Append (word_of_nat (k div 4)) = Some h" "unat (word_of_nat (k div 4) :: 64 word) = k div 4"
    "(word_of_nat (k div 4) :: 64 word) \<le> 1152921504606846975" using quarter [OF assms] .
  have "4 * (k div 4) = k" using assms(1) by simp
  then show ?thesis using h vi_Parse_Append [OF h(1), of b] by (simp add: sendDatagram_def)
qed

text \<open>What the clients of a connection put on the wire: a stream and the data given to \<^verbatim>\<open>Send\<close>, when they arrive at the relay.\<close>

definition frames :: "(moment \<times> nat \<times> byte list) list \<Rightarrow> (moment \<times> byte list) list" where
  "frames sent = map (\<lambda>(m, k, d). (m, the (sendDatagram k (WriteTo d)))) sent"

definition sent_on :: "nat \<Rightarrow> (moment \<times> nat \<times> byte list) list \<Rightarrow> byte list list" where
  "sent_on k sent = map (snd \<circ> snd) (filter (\<lambda>(m, j, d). j = k) sent)"

lemma addressed_frames:
  assumes "\<forall>(m, k, d) \<in> set sent. 4 dvd k \<and> k < 2 ^ 62"
  shows "map snd (addressed k (frames sent)) = map WriteTo (sent_on k sent)"
  using assms
proof (induction sent)
  case (Cons x sent)
  obtain m j d where x: "x = (m, j, d)" by (cases x) auto
  have "addressed k (frames (x # sent)) = (if j = k then [(m, WriteTo d)] else []) @ addressed k (frames sent)"
    using frame_addressed [of j k m "WriteTo d" "frames sent"] Cons.prems by (simp add: x frames_def)
  then show ?case using Cons by (simp add: x sent_on_def)
qed (simp add: frames_def sent_on_def)

lemma subseq_map_image: "subseq ys (map f xs) \<Longrightarrow> \<exists>zs. ys = map f zs \<and> subseq zs xs"
proof (induction xs arbitrary: ys)
  case (Cons x xs)
  from Cons.prems show ?case
  proof (cases rule: list_emb.cases)
    case list_emb_Nil
    then show ?thesis by simp
  next
    case (list_emb_Cons zs y)
    then show ?thesis using Cons.IH [of ys] by (blast intro: list_emb.list_emb_Cons)
  next
    case (list_emb_Cons2 a b as)
    then obtain zs where "as = map f zs" "subseq zs xs" using Cons.IH by blast
    then have "ys = map f (x # zs) \<and> subseq (x # zs) (x # xs)" using list_emb_Cons2 by simp
    then show ?thesis by blast
  qed
qed (auto elim: list_emb.cases)

text \<open>C9: What the target gets is what the client sent. Whatever the clients of one connection gave to \<^verbatim>\<open>Send\<close> arrives at the relay, in any order and with any loss
  on the way; stream \<open>k\<close> enqueues what is addressed to it, loses what its queue cannot hold, and \<^verbatim>\<open>proxyConnSend\<close> copies what it receives. Then the
  relay writes to the target of stream \<open>k\<close> exactly the data it received, each datagram with the bytes the client gave to \<^verbatim>\<open>Send\<close> on that stream and on no other one,
  none of them twice and none out of order of arrival, and the copying goes on.\<close>

theorem tunnel_carries:
  assumes sent: "\<forall>(m, k, d) \<in> set sent. 4 dvd k \<and> k < 2 ^ 62 \<and> fst (Send True d) = Some d"
    and queue: "arrivals evs = map snd (addressed k (frames sent))"
  shows "\<exists>q ds. deliver dq_push dq_pop dq_other evs (New 32) = Some (q, map WriteTo ds)
    \<and> proxyConnSend (map (\<lambda>b. (Datagram b, True)) (map WriteTo ds)) = (ds, None) \<and> subseq ds (sent_on k sent)"
proof -
  have k: "\<forall>(m, k, d) \<in> set sent. 4 dvd k \<and> k < 2 ^ 62" using sent by fast
  have wf: "wf_queue (New 32)" "contents (New 32) = []" using new_ok [of 32] by simp_all
  obtain q out where d: "deliver dq_push dq_pop dq_other evs (New 32) = Some (q, out)"
    "subseq (out @ map e_data (contents q)) (map e_data (contents (New 32)) @ arrivals evs)"
    using dq.in_order [OF wf(1), of evs] by (elim exE conjE) (rule that)
  have "subseq out (out @ map e_data (contents q))" by (simp add: prefix_imp_subseq)
  then have "subseq out (map WriteTo (sent_on k sent))"
    using d(2) wf(2) subseq_order.trans unfolding queue addressed_frames [OF k] by auto
  then obtain ds where ds: "out = map WriteTo ds" "subseq ds (sent_on k sent)" using subseq_map_image by blast
  have "\<forall>d \<in> set (sent_on k sent). length d \<le> 1500"
    using sent by (auto simp: sent_on_def Send_def split: if_splits)
  moreover have "set ds \<subseteq> set (sent_on k sent)" using list_emb_set [OF ds(2)] by blast
  ultimately have "list_all (\<lambda>d. length d \<le> 1500) ds" by (auto simp: list_all_iff)
  then have "proxyConnSend (map (\<lambda>b. (Datagram b, True)) (map WriteTo ds)) = (ds, None)" using send_writes by (simp add: comp_def)
  then show ?thesis using d(1) ds by blast
qed

section \<open>What the client gets back\<close>

definition reply_fits :: "nat \<Rightarrow> nat \<Rightarrow> byte list \<Rightarrow> bool" where
  "reply_fits k maxDataLen p \<longleftrightarrow> conn_SendDatagram True maxDataLen (the (sendDatagram k (WriteTo p)))"

lemma receive_forwards:
  assumes "length b = 1502" and "take 1 b = contextIDZero"
  shows "proxyConnReceive b (map (\<lambda>p. (Packet p, f p)) ps)
    = (map WriteTo (takeWhile f (filter (\<lambda>p. length p \<le> 1500) ps)), if list_all f (filter (\<lambda>p. length p \<le> 1500) ps) then None else Some False)"
  using assms
proof (induction ps arbitrary: b)
  case (Cons p ps)
  let ?b = "take 1 b @ take 1501 p @ drop (1 + length (take 1501 p)) b"
  have h: "length contextIDZero = 1" by (simp add: contextIDZero_def)
  have b': "length ?b = 1502" "take 1 ?b = contextIDZero" using Cons.prems h by (simp_all add: min_def)
  show ?case
  proof (cases "length p \<le> 1500")
    case True
    then have "take (1 + length p) ?b = WriteTo p" using Cons.prems(2) h by (simp add: WriteTo_def min_def)
    then show ?thesis using Cons.IH [OF b'] True Cons.prems h by (auto simp: Let_def min_def WriteTo_def)
  next
    case False
    then show ?thesis using Cons.IH [OF b'] Cons.prems h by (simp add: Let_def min_def)
  qed
qed simp

lemma vi_Append_length: "vi_Append i = Some b \<Longrightarrow> 1 \<le> length b \<and> length b \<le> 8"
  by (auto simp: vi_Append_def split: if_splits)

text \<open>C35: What the client gets back. Of the packets the target answers with, those of at most 1500 bytes are forwarded whole and in order, and the client reads each with
  exactly its bytes; but only up to the first that does not fit into a packet of the QUIC connection. There \<^verbatim>\<open>proxyConnReceive\<close> returns with an error, and everything the target
  sends afterwards is lost, however small. Only on a connection whose packets take 1509 bytes of datagram does that never happen.\<close>

theorem replies_until_oversized:
  assumes "4 dvd k" and "k < 2 ^ 62"
  shows "proxyConnReceive receive_buffer (map (\<lambda>p. (Packet p, reply_fits k maxDataLen p)) ps)
      = (map WriteTo (takeWhile (reply_fits k maxDataLen) (filter (\<lambda>p. length p \<le> 1500) ps)),
         if list_all (reply_fits k maxDataLen) (filter (\<lambda>p. length p \<le> 1500) ps) then None else Some False)
    \<and> (length p \<le> 1500 \<longrightarrow> ReadFrom 1500 [(Datagram (WriteTo p), before)] = Read p)
    \<and> (length p \<le> 1500 \<and> 1509 \<le> maxDataLen \<longrightarrow> reply_fits k maxDataLen p)
    \<and> (maxDataLen < length p + 2 \<longrightarrow> \<not> reply_fits k maxDataLen p)"
proof -
  obtain h where h: "vi_Append (word_of_nat (k div 4)) = Some h" using quarter [OF assms] .
  then have f: "reply_fits k L p \<longleftrightarrow> length h + 1 + length p \<le> L" for L p
    by (auto simp: reply_fits_def conn_SendDatagram_def sendDatagram_def WriteTo_def contextIDZero_def)
  have "length receive_buffer = 1502" "take 1 receive_buffer = contextIDZero" by (simp_all add: receive_buffer_def contextIDZero_def)
  then show ?thesis using receive_forwards [of receive_buffer "reply_fits k maxDataLen" ps] vi_Append_length [OF h] context_zero(1) [of p]
    by (auto simp: f WriteTo_def) (simp_all add: contextIDZero_def)
qed

section \<open>A worked flow\<close>

abbreviation noon :: moment where
  "noon \<equiv> (True, True, 0)"

definition demo_sent :: "(moment \<times> nat \<times> byte list) list" where
  "demo_sent = [(noon, 0, [1]), (noon, 4, [2, 3]), (noon, 0, [4])]"

lemma demo_addressed: "addressed 4 (frames demo_sent) = [(noon, [0, 2, 3])]" "addressed 0 (frames demo_sent) = [(noon, [0, 1]), (noon, [0, 4])]"
  by code_simp+

theorem datagrams_isolated_witness:
  "\<exists>S' e. receiveDatagrams (frames demo_sent) [(4, newStateTrackingStream)] = Some (S', e) \<and> get_map S' 0 = None
     \<and> get_map S' 4 = enqueue_all [(noon, [0, 2, 3])] newStateTrackingStream"
proof -
  have "\<forall>k s. get_map [(4 :: nat, newStateTrackingStream)] k = Some s \<longrightarrow> wf_queue (st_queue s)"
    using new_ok [of 32] by (simp add: newStateTrackingStream_def)
  from datagrams_isolated [OF this, of "frames demo_sent"] obtain S' e where
    r: "receiveDatagrams (frames demo_sent) [(4, newStateTrackingStream)] = Some (S', e)"
    "\<forall>k. get_map S' k = (case get_map [(4, newStateTrackingStream)] k of None \<Rightarrow> None | Some s \<Rightarrow> enqueue_all (addressed k (frames demo_sent)) s)"
    by (elim exE conjE) (rule that)
  show ?thesis using r(1) r(2) [rule_format, of 0] r(2) [rule_format, of 4] by (simp add: demo_addressed)
qed

theorem tunnel_carries_witness:
  "\<exists>q ds. deliver dq_push dq_pop dq_other [Arrive noon [0, 1], Arrive noon [0, 4], Take noon] (New 32) = Some (q, map WriteTo ds)
     \<and> proxyConnSend (map (\<lambda>b. (Datagram b, True)) (map WriteTo ds)) = (ds, None) \<and> subseq ds [[1], [4]]"
proof -
  have s: "sent_on 0 demo_sent = [[1], [4]]" by (simp add: sent_on_def demo_sent_def)
  have "\<forall>(m, k, d) \<in> set demo_sent. 4 dvd k \<and> k < 2 ^ 62 \<and> fst (Send True d) = Some d" by (simp add: demo_sent_def Send_def)
  moreover have "arrivals [Arrive noon [0, 1], Arrive noon [0, 4], Take noon] = map snd (addressed 0 (frames demo_sent))" by (simp add: demo_addressed)
  ultimately show ?thesis unfolding s [symmetric] by (rule tunnel_carries)
qed

theorem replies_until_oversized_witness:
  "proxyConnReceive receive_buffer (map (\<lambda>p. (Packet p, reply_fits 0 1200 p)) [[5], replicate 1400 6, [7]]) = ([[0, 5]], Some False)"
proof -
  have f: "reply_fits 0 1200 [5]" "\<not> reply_fits 0 1200 (replicate 1400 6)"
    by (simp_all add: reply_fits_def conn_SendDatagram_def sendDatagram_def vi_Append_def WriteTo_def contextIDZero_def)
  show ?thesis using replies_until_oversized [of 0 1200 "[[5], replicate 1400 6, [7]]" "[]" True] f by (simp add: WriteTo_def contextIDZero_def)
qed

end
