(* ===== verification/Masque_Proxy.thy ===== *)
theory Masque_Proxy
  imports Relay_Prelude
begin

text \<open>
  The flows of a proxy, \<^verbatim>\<open>Proxy\<close> of \<^verbatim>\<open>third_party/masque-go/proxy.go\<close>: \<^verbatim>\<open>ProxyConnectedSocket\<close> from its registration to its end, and \<^verbatim>\<open>Close\<close>, which tells all flows to end and waits for them.
  The copying of a flow is in \<open>Masque_Flow\<close>. A run is any interleaving of flows that start and end with one call of \<^verbatim>\<open>Close\<close>.
\<close>

text \<open>An entry is a number; \<open>px_refCount\<close> is the counter of the wait group.\<close>

record proxy =
  px_closed :: bool
  px_closers :: "nat list"
  px_refCount :: nat

text \<open>The critical section at the start of \<^verbatim>\<open>ProxyConnectedSocket\<close>; \<open>None\<close> is the answer 503. Then its end.\<close>

definition proxy_enter :: "nat \<Rightarrow> proxy \<Rightarrow> proxy option" where
  "proxy_enter e s = (if px_closed s then None else Some (s\<lparr>px_closers := List.insert e (px_closers s), px_refCount := px_refCount s + 1\<rparr>))"

definition proxy_leave :: "nat \<Rightarrow> proxy \<Rightarrow> proxy" where
  "proxy_leave e s = s\<lparr>px_closers := removeAll e (px_closers s), px_refCount := px_refCount s - 1\<rparr>"

text \<open>The critical section of \<^verbatim>\<open>Close\<close>, with the entries it closes, and what follows the wait.\<close>

definition proxy_close :: "proxy \<Rightarrow> proxy \<times> nat list" where
  "proxy_close s = (s\<lparr>px_closed := True\<rparr>, px_closers s)"

definition proxy_closed :: "proxy \<Rightarrow> proxy option" where
  "proxy_closed s = (if px_refCount s = 0 then Some (s\<lparr>px_closers := []\<rparr>) else None)"

text \<open>A run: the proxy, the flows that run, those that were closed by \<^verbatim>\<open>Close\<close>, and whether \<^verbatim>\<open>Close\<close> has returned.\<close>

inductive proxy_run :: "proxy \<times> nat list \<times> nat set \<times> bool \<Rightarrow> bool" where
  start: "proxy_run (\<lparr>px_closed = False, px_closers = [], px_refCount = 0\<rparr>, [], {}, False)"
| enter: "proxy_run (s, fl, told, ret) \<Longrightarrow> e \<notin> set fl \<Longrightarrow> proxy_enter e s = Some s' \<Longrightarrow> proxy_run (s', e # fl, told, ret)"
| leave: "proxy_run (s, fl, told, ret) \<Longrightarrow> e \<in> set fl \<Longrightarrow> proxy_run (proxy_leave e s, removeAll e fl, told, ret)"
| close: "proxy_run (s, fl, told, ret) \<Longrightarrow> proxy_close s = (s', es) \<Longrightarrow> proxy_run (s', fl, told \<union> set es, ret)"
| return: "proxy_run (s, fl, told, ret) \<Longrightarrow> px_closed s \<Longrightarrow> proxy_closed s = Some s' \<Longrightarrow> proxy_run (s', fl, told, True)"

definition flows_ok :: "proxy \<Rightarrow> nat list \<Rightarrow> nat set \<Rightarrow> bool \<Rightarrow> bool" where
  "flows_ok s fl told ret \<longleftrightarrow> distinct fl \<and> px_refCount s = length fl \<and> set (px_closers s) = set fl
     \<and> (px_closed s \<longrightarrow> set fl \<subseteq> told) \<and> (ret \<longrightarrow> px_closed s \<and> fl = [])"

lemma enter_ok:
  assumes "flows_ok s fl told ret" and "e \<notin> set fl" and "proxy_enter e s = Some s'"
  shows "flows_ok s' (e # fl) told ret"
proof -
  have s': "s' = s\<lparr>px_closers := List.insert e (px_closers s), px_refCount := px_refCount s + 1\<rparr>" and "\<not> px_closed s"
    using assms(3) by (simp_all add: proxy_enter_def split: if_splits)
  then show ?thesis using assms(1,2) unfolding s' by (simp add: flows_ok_def)
qed

lemma leave_ok:
  assumes "flows_ok s fl told ret" and "e \<in> set fl"
  shows "flows_ok (proxy_leave e s) (removeAll e fl) told ret"
proof -
  have "distinct fl" using assms(1) by (simp add: flows_ok_def)
  then have "length (removeAll e fl) = length fl - 1"
    using length_remove1 [of e fl] assms(2) unfolding distinct_remove1_removeAll [OF \<open>distinct fl\<close>] by simp
  then show ?thesis using assms by (auto simp: flows_ok_def proxy_leave_def distinct_removeAll)
qed

lemma proxy_inv: "proxy_run x \<Longrightarrow> case x of (s, fl, told, ret) \<Rightarrow> flows_ok s fl told ret"
proof (induction rule: proxy_run.induct)
  case (enter s fl told ret e s')
  then show ?case using enter_ok by simp
next
  case (leave s fl told ret e)
  then show ?case using leave_ok by simp
next
  case (close s fl told ret s' es)
  then have "s' = s\<lparr>px_closed := True\<rparr>" "es = px_closers s" by (simp_all add: proxy_close_def)
  then show ?case using close by (simp add: flows_ok_def)
next
  case (return s fl told ret s')
  then have "s' = s\<lparr>px_closers := []\<rparr>" "px_refCount s = 0" by (simp_all add: proxy_closed_def split: if_splits)
  then show ?case using return by (simp add: flows_ok_def)
qed (simp add: flows_ok_def)

text \<open>When the proxy is closed, every flow that still runs has been told to end, no flow starts any more, and \<^verbatim>\<open>Close\<close> has returned only if none is left;
  the entries kept for it are exactly the flows that run.\<close>

theorem proxy_close_final:
  assumes "proxy_run (s, fl, told, ret)"
  shows "set (px_closers s) = set fl \<and> (px_closed s \<longrightarrow> set fl \<subseteq> told \<and> proxy_enter e s = None)
    \<and> (ret \<longrightarrow> fl = []) \<and> (px_closed s \<and> fl = [] \<longrightarrow> proxy_closed s \<noteq> None)"
  using proxy_inv [OF assms] by (auto simp: flows_ok_def proxy_enter_def proxy_closed_def)

theorem proxy_close_final_witness: "proxy_enter 1 (fst (proxy_close \<lparr>px_closed = False, px_closers = [], px_refCount = 0\<rparr>)) = None"
proof -
  have "proxy_run (\<lparr>px_closed = True, px_closers = [], px_refCount = 0\<rparr>, [], {} \<union> set [], False)"
    by (rule proxy_run.close [OF proxy_run.start]) (simp add: proxy_close_def)
  from proxy_close_final [OF this] show ?thesis by (simp add: proxy_close_def)
qed

end
