(* ===== verification/Conn_Queue.thy ===== *)
theory Conn_Queue
  imports Datagram_Stream
begin

text \<open>
  The datagram queues of one QUIC connection, \<^verbatim>\<open>third_party/quic-go/datagram_queue.go\<close>: the send queue, a growing ring of \<^verbatim>\<open>third_party/quic-go/internal/utils/ringbuffer/ringbuffer.go\<close>
  that is kept below 32 frames by making \<^verbatim>\<open>Add\<close> wait, and the receive queue of \<open>Datagram_Buffer\<close>. A run is any interleaving of senders, the packer, arriving frames,
  receivers' iterations and the end of the connection; every step is a critical section of one of the two mutexes, or a receive on a channel.
\<close>

section \<open>The ring\<close>

text \<open>\<open>r_store\<close> is the storage up to the capacity, \<open>r_len\<close> the length of the slice. \<open>zero\<close> is the zero value of the elements.\<close>

record 'a ring =
  r_store :: "'a list"
  r_len :: nat
  r_head :: nat

definition ring_empty :: "'a ring" where
  "ring_empty = \<lparr>r_store = [], r_len = 0, r_head = 0\<rparr>"

definition ring_grow :: "'a \<Rightarrow> 'a ring \<Rightarrow> 'a ring" where
  "ring_grow zero r =
     (let newSize = (if 2 * length (r_store r) = 0 then 1 else 2 * length (r_store r));
          old = take (r_len r) (r_store r) in
      \<lparr>r_store = take (r_len r) (drop (r_head r) old @ take (r_head r) old) @ replicate (newSize - r_len r) zero,
       r_len = r_len r, r_head = 0\<rparr>)"

definition PushBack :: "'a \<Rightarrow> 'a \<Rightarrow> 'a ring \<Rightarrow> 'a ring" where
  "PushBack zero t r0 =
     (let r = (if r_len r0 = length (r_store r0) then ring_grow zero r0 else r0);
          tailPos = r_head r + r_len r;
          tailPos = (if tailPos \<ge> length (r_store r) then tailPos - length (r_store r) else tailPos) in
      r\<lparr>r_store := (r_store r)[tailPos := t], r_len := r_len r + 1\<rparr>)"

text \<open>\<open>None\<close> is the panic.\<close>

definition PopFront :: "'a \<Rightarrow> 'a ring \<Rightarrow> ('a ring \<times> 'a) option" where
  "PopFront zero r =
     (if r_len r = 0 then None
      else Some (r\<lparr>r_store := (r_store r)[r_head r := zero], r_len := r_len r - 1,
                   r_head := (if r_head r + 1 = length (r_store r) then 0 else r_head r + 1)\<rparr>, r_store r ! r_head r))"

definition PeekFront :: "'a ring \<Rightarrow> 'a option" where
  "PeekFront r = (if r_len r = 0 then None else Some (r_store r ! r_head r))"

definition wf_ring :: "'a ring \<Rightarrow> bool" where
  "wf_ring r \<longleftrightarrow> r_len r \<le> length (r_store r) \<and> (r_head r < length (r_store r) \<or> r_store r = [] \<and> r_head r = 0)"

definition elems :: "'a ring \<Rightarrow> 'a list" where
  "elems r = map (\<lambda>i. r_store r ! ((r_head r + i) mod length (r_store r))) [0..<r_len r]"

lemma length_elems [simp]: "length (elems r) = r_len r"
  by (simp add: elems_def)

lemma elems_empty [simp]: "wf_ring ring_empty" "elems ring_empty = []"
  by (simp_all add: wf_ring_def ring_empty_def elems_def)

lemma ring_grow_ok:
  assumes "wf_ring r" and "r_len r = length (r_store r)"
  shows "wf_ring (ring_grow zero r)" and "elems (ring_grow zero r) = elems r" and "r_len (ring_grow zero r) < length (r_store (ring_grow zero r))"
proof -
  let ?s = "r_store r" and ?h = "r_head r"
  have rot: "take (length ?s) (drop ?h ?s @ take ?h ?s) = rotate ?h ?s"
    using assms(1) by (cases "?s = []") (auto simp: wf_ring_def rotate_drop_take)
  then have g: "ring_grow zero r = \<lparr>r_store = rotate ?h ?s @ replicate ((if ?s = [] then 1 else 2 * length ?s) - length ?s) zero, r_len = length ?s, r_head = 0\<rparr>"
    unfolding ring_grow_def Let_def assms(2) take_all [OF order.refl] rot by simp
  show "wf_ring (ring_grow zero r)" "r_len (ring_grow zero r) < length (r_store (ring_grow zero r))" by (auto simp: g wf_ring_def)
  show "elems (ring_grow zero r) = elems r" using assms(2) by (auto simp: g elems_def nth_append nth_rotate)
qed

lemma push_ring:
  assumes "wf_ring r"
  shows "wf_ring (PushBack zero t r)" and "elems (PushBack zero t r) = elems r @ [t]"
proof -
  define r1 where "r1 = (if r_len r = length (r_store r) then ring_grow zero r else r)"
  have r1: "wf_ring r1" "elems r1 = elems r" "r_len r1 < length (r_store r1)"
    using assms ring_grow_ok [OF assms] by (auto simp: r1_def wf_ring_def)
  let ?n = "length (r_store r1)" and ?h = "r_head r1" and ?l = "r_len r1"
  have h: "?h < ?n" using r1(1,3) by (auto simp: wf_ring_def)
  have p: "PushBack zero t r = r1\<lparr>r_store := (r_store r1)[(?h + ?l) mod ?n := t], r_len := ?l + 1\<rparr>"
    using wrap [OF h r1(3)] unfolding PushBack_def r1_def [symmetric] by (auto simp: Let_def)
  show "wf_ring (PushBack zero t r)" using r1 h by (simp add: p wf_ring_def)
  have "(r_store r1)[(?h + ?l) mod ?n := t] ! ((?h + i) mod ?n) = r_store r1 ! ((?h + i) mod ?n)" if "i < ?l" for i
    using wrap_inject [OF h, of i ?l] that r1(3) by simp
  moreover have "(?h + ?l) mod ?n < ?n" using h by (intro mod_less_divisor) linarith
  ultimately have "elems (PushBack zero t r) = elems r1 @ [t]" by (simp add: p elems_def)
  then show "elems (PushBack zero t r) = elems r @ [t]" using r1(2) by simp
qed

lemma pop_ring:
  assumes "wf_ring r"
  shows "case elems r of
      [] \<Rightarrow> PopFront zero r = None \<and> PeekFront r = None
    | x # xs \<Rightarrow> PeekFront r = Some x \<and> (\<exists>r'. PopFront zero r = Some (r', x) \<and> wf_ring r' \<and> elems r' = xs)"
proof (cases "r_len r")
  case 0
  then show ?thesis by (simp add: elems_def PopFront_def PeekFront_def)
next
  case (Suc l)
  let ?n = "length (r_store r)" and ?h = "r_head r"
  have h: "?h < ?n" "Suc l \<le> ?n" using assms Suc by (auto simp: wf_ring_def)
  let ?r = "r\<lparr>r_store := (r_store r)[?h := zero], r_len := l, r_head := (?h + 1) mod ?n\<rparr>"
  have "PopFront zero r = Some (?r, r_store r ! ?h)" using Suc h(1) by (auto simp: PopFront_def mod_if)
  moreover have "(?h + 1) mod ?n < ?n" using h(1) by (intro mod_less_divisor) linarith
  then have "wf_ring ?r" using h by (simp add: wf_ring_def)
  moreover have "(r_store r)[?h := zero] ! (((?h + 1) mod ?n + i) mod ?n) = r_store r ! ((?h + Suc i) mod ?n)" if "i < l" for i
  proof -
    have "Suc i < ?n" "0 < ?n" using that h by linarith+
    from wrap_inject [OF h(1) this] have "(?h + Suc i) mod ?n \<noteq> (?h + 0) mod ?n" by (metis nat.distinct(1))
    moreover have "((?h + 1) mod ?n + i) mod ?n = (?h + Suc i) mod ?n" by (simp add: mod_simps)
    ultimately show ?thesis using h(1) by simp
  qed
  then have "elems r = r_store r ! ?h # elems ?r" using Suc h(1) by (simp add: elems_def upt_conv_Cons map_Suc_upt [symmetric] del: upt_Suc)
  ultimately show ?thesis using Suc by (auto simp: PeekFront_def)
qed

section \<open>The queues of a connection\<close>

text \<open>A frame is its data. \<open>cq_sent\<close> and \<open>cq_rcvd\<close> are the contents of the channels of capacity one, \<open>cq_closed\<close> is the error once the channel \<^verbatim>\<open>closed\<close> is closed.\<close>

record cqueue =
  cq_send :: "byte list ring"
  cq_sent :: bool
  cq_rcv :: Queue
  cq_rcvd :: bool
  cq_closed :: "string option"

definition newDatagramQueue :: cqueue where
  "newDatagramQueue = \<lparr>cq_send = ring_empty, cq_sent = False, cq_rcv = New 128, cq_rcvd = False, cq_closed = None\<rparr>"

text \<open>One iteration of \<^verbatim>\<open>Add\<close> up to the wait: whether the frame was queued.\<close>

definition Add_frame :: "byte list \<Rightarrow> cqueue \<Rightarrow> cqueue \<times> bool" where
  "Add_frame f h = (if r_len (cq_send h) < 32 then (h\<lparr>cq_send := PushBack [] f (cq_send h)\<rparr>, True) else (h\<lparr>cq_sent := False\<rparr>, False))"

definition Peek_frame :: "cqueue \<Rightarrow> byte list option" where
  "Peek_frame h = (if r_len (cq_send h) = 0 then None else PeekFront (cq_send h))"

definition Pop_frame :: "cqueue \<Rightarrow> cqueue option" where
  "Pop_frame h = (case PopFront [] (cq_send h) of None \<Rightarrow> None | Some (r, _) \<Rightarrow> Some (h\<lparr>cq_send := r, cq_sent := True\<rparr>))"

definition HandleDatagramFrame :: "moment \<Rightarrow> byte list \<Rightarrow> cqueue \<Rightarrow> cqueue option" where
  "HandleDatagramFrame m bs h =
     (case m of (a1, a2, now) \<Rightarrow>
        (case Push a1 a2 bs now (cq_rcv h) of
           None \<Rightarrow> None
         | Some (q, ok, _) \<Rightarrow> Some (h\<lparr>cq_rcv := q, cq_rcvd := cq_rcvd h \<or> ok\<rparr>)))"

text \<open>One iteration of \<^verbatim>\<open>Receive\<close> up to the wait.\<close>

definition Receive_frame :: "time \<Rightarrow> cqueue \<Rightarrow> (cqueue \<times> rx) option" where
  "Receive_frame now h =
     (case Pop now (cq_rcv h) of
        None \<Rightarrow> None
      | Some (q, r, _) \<Rightarrow> Some (h\<lparr>cq_rcv := q\<rparr>, case r of Some bs \<Rightarrow> Got bs | None \<Rightarrow> Waiting))"

text \<open>Closing a closed channel panics.\<close>

definition CloseWithError :: "string \<Rightarrow> cqueue \<Rightarrow> cqueue option" where
  "CloseWithError e h =
     (if cq_closed h \<noteq> None then None else Some (h\<lparr>cq_rcv := fst (Close_queue (cq_rcv h)), cq_closed := Some e\<rparr>))"

text \<open>What the packer does with the next frame: it sends it if it fits, and drops it if it does not and the packet has no acknowledgement. The result has the frames taken out and those of them sent;
  \<open>frame_len\<close> is the length of a frame with its header.\<close>

definition pack_frame :: "(byte list \<Rightarrow> nat) \<Rightarrow> nat \<Rightarrow> bool \<Rightarrow> cqueue \<Rightarrow> (cqueue \<times> byte list list \<times> byte list list) option" where
  "pack_frame frame_len space has_ack h =
     (case Peek_frame h of
        None \<Rightarrow> Some (h, [], [])
      | Some f \<Rightarrow>
          if frame_len f \<le> space then map_option (\<lambda>h'. (h', [f], [f])) (Pop_frame h)
          else if \<not> has_ack then map_option (\<lambda>h'. (h', [f], [])) (Pop_frame h)
          else Some (h, [], []))"

section \<open>Runs\<close>

text \<open>Besides the queue: the calls of \<^verbatim>\<open>Add\<close> that wait and those about to take the mutex, the receiver, the frames added and the frames taken out by the packer.\<close>

record qrun =
  qr_queue :: cqueue
  qr_waiting :: nat
  qr_trying :: nat
  qr_rx :: rx
  qr_added :: "byte list list"
  qr_taken :: "byte list list"

inductive queue_run :: "qrun \<Rightarrow> bool" where
  start: "queue_run \<lparr>qr_queue = newDatagramQueue, qr_waiting = 0, qr_trying = 0, qr_rx = Polling, qr_added = [], qr_taken = []\<rparr>"
| call: "queue_run x \<Longrightarrow> queue_run (x\<lparr>qr_trying := qr_trying x + 1\<rparr>)"
| added: "queue_run x \<Longrightarrow> 0 < qr_trying x \<Longrightarrow> Add_frame f (qr_queue x) = (h, True) \<Longrightarrow>
    queue_run (x\<lparr>qr_queue := h, qr_trying := qr_trying x - 1, qr_added := qr_added x @ [f]\<rparr>)"
| blocked: "queue_run x \<Longrightarrow> 0 < qr_trying x \<Longrightarrow> Add_frame f (qr_queue x) = (h, False) \<Longrightarrow>
    queue_run (x\<lparr>qr_queue := h, qr_trying := qr_trying x - 1, qr_waiting := qr_waiting x + 1\<rparr>)"
| woken: "queue_run x \<Longrightarrow> 0 < qr_waiting x \<Longrightarrow> cq_sent (qr_queue x) \<Longrightarrow>
    queue_run (x\<lparr>qr_queue := (qr_queue x)\<lparr>cq_sent := False\<rparr>, qr_waiting := qr_waiting x - 1, qr_trying := qr_trying x + 1\<rparr>)"
| ended: "queue_run x \<Longrightarrow> 0 < qr_waiting x \<Longrightarrow> cq_closed (qr_queue x) \<noteq> None \<Longrightarrow> queue_run (x\<lparr>qr_waiting := qr_waiting x - 1\<rparr>)"
| packed: "queue_run x \<Longrightarrow> pack_frame frame_len space has_ack (qr_queue x) = Some (h, fs, out) \<Longrightarrow>
    queue_run (x\<lparr>qr_queue := h, qr_taken := qr_taken x @ fs\<rparr>)"
| arrived: "queue_run x \<Longrightarrow> HandleDatagramFrame m bs (qr_queue x) = Some h \<Longrightarrow> queue_run (x\<lparr>qr_queue := h\<rparr>)"
| admitted: "queue_run x \<Longrightarrow> queue_run (x\<lparr>qr_queue := (qr_queue x)\<lparr>cq_rcv := EnableBurst (cq_rcv (qr_queue x))\<rparr>\<rparr>)"
| poll: "queue_run x \<Longrightarrow> qr_rx x = Polling \<Longrightarrow> Receive_frame now (qr_queue x) = Some (h, r) \<Longrightarrow> queue_run (x\<lparr>qr_queue := h, qr_rx := r\<rparr>)"
| wake: "queue_run x \<Longrightarrow> qr_rx x = Waiting \<Longrightarrow> cq_rcvd (qr_queue x) \<Longrightarrow>
    queue_run (x\<lparr>qr_queue := (qr_queue x)\<lparr>cq_rcvd := False\<rparr>, qr_rx := Polling\<rparr>)"
| failed: "queue_run x \<Longrightarrow> qr_rx x = Waiting \<Longrightarrow> cq_closed (qr_queue x) = Some e \<Longrightarrow> queue_run (x\<lparr>qr_rx := Failed e\<rparr>)"
| again: "queue_run x \<Longrightarrow> qr_rx x \<noteq> Waiting \<Longrightarrow> queue_run (x\<lparr>qr_rx := Polling\<rparr>)"
| closed: "queue_run x \<Longrightarrow> CloseWithError e (qr_queue x) = Some h \<Longrightarrow> queue_run (x\<lparr>qr_queue := h\<rparr>)"

definition queue_inv :: "qrun \<Rightarrow> bool" where
  "queue_inv x \<longleftrightarrow> (let h = qr_queue x in
     wf_ring (cq_send h) \<and> r_len (cq_send h) \<le> 32 \<and> wf_queue (cq_rcv h)
     \<and> qr_taken x @ elems (cq_send h) = qr_added x
     \<and> (0 < qr_waiting x \<and> r_len (cq_send h) = 0 \<longrightarrow> cq_sent h \<or> 0 < qr_trying x)
     \<and> (qr_rx x = Waiting \<and> contents (cq_rcv h) \<noteq> [] \<longrightarrow> cq_rcvd h))"

lemma pop_frame:
  assumes "wf_ring (cq_send h)" and "elems (cq_send h) = f # fs"
  obtains r where "Peek_frame h = Some f" and "Pop_frame h = Some (h\<lparr>cq_send := r, cq_sent := True\<rparr>)" and "wf_ring r" and "elems r = fs"
proof -
  have l: "r_len (cq_send h) \<noteq> 0" using length_elems [of "cq_send h"] assms(2) by simp
  obtain r where r: "PeekFront (cq_send h) = Some f" "PopFront [] (cq_send h) = Some (r, f)" "wf_ring r" "elems r = fs"
    using pop_ring [OF assms(1), of "[]"] assms(2) by auto
  show ?thesis by (rule that [of r]) (use r l in \<open>simp_all add: Peek_frame_def Pop_frame_def\<close>)
qed

lemma inv_packed:
  assumes "queue_inv x" and "Peek_frame (qr_queue x) = Some f" and "Pop_frame (qr_queue x) = Some h"
  shows "queue_inv (x\<lparr>qr_queue := h, qr_taken := qr_taken x @ [f]\<rparr>)"
proof -
  let ?r = "cq_send (qr_queue x)"
  have wf: "wf_ring ?r" and l: "r_len ?r \<le> 32" using assms(1) by (simp_all add: queue_inv_def Let_def)
  have "r_len ?r \<noteq> 0" using assms(2) by (simp add: Peek_frame_def split: if_splits)
  then obtain g fs where e: "elems ?r = g # fs" using length_elems [of ?r] by (cases "elems ?r") auto
  obtain r where r: "Peek_frame (qr_queue x) = Some g" "Pop_frame (qr_queue x) = Some ((qr_queue x)\<lparr>cq_send := r, cq_sent := True\<rparr>)" "wf_ring r" "elems r = fs"
    using pop_frame [OF wf e] .
  have "r_len r \<le> 32" using l e r(4) length_elems [of ?r] length_elems [of r] by simp
  then show ?thesis using assms r e by (auto simp: queue_inv_def Let_def)
qed

lemma inv_arrived:
  assumes "queue_inv x" and "HandleDatagramFrame m bs (qr_queue x) = Some h"
  shows "queue_inv (x\<lparr>qr_queue := h\<rparr>)"
proof -
  let ?q = "cq_rcv (qr_queue x)"
  obtain a1 a2 now where m: "m = (a1, a2, now)" by (cases m)
  have wf: "wf_queue ?q" using assms(1) by (simp add: queue_inv_def Let_def)
  obtain q ok as where p: "Push a1 a2 bs now ?q = Some (q, ok, as)" "wf_queue q"
    "contents q = fresh now ?q @ (if ok then [\<lparr>e_data = bs, e_at = now\<rparr>] else [])"
    using push_ok [OF wf, of a1 a2 bs now] by (elim exE conjE) (rule that)
  have h: "h = (qr_queue x)\<lparr>cq_rcv := q, cq_rcvd := cq_rcvd (qr_queue x) \<or> ok\<rparr>" using assms(2) p(1) by (simp add: HandleDatagramFrame_def m)
  have "contents q \<noteq> [] \<Longrightarrow> ok \<or> contents ?q \<noteq> []" using p(3) by (auto simp: fresh_def)
  then show ?thesis using assms(1) p(2) by (auto simp: queue_inv_def Let_def h)
qed

lemma inv_poll:
  assumes "queue_inv x" and "Receive_frame now (qr_queue x) = Some (h, r)"
  shows "queue_inv (x\<lparr>qr_queue := h, qr_rx := r\<rparr>)"
proof -
  let ?q = "cq_rcv (qr_queue x)"
  have wf: "wf_queue ?q" using assms(1) by (simp add: queue_inv_def Let_def)
  obtain q d as where p: "Pop now ?q = Some (q, d, as)" "wf_queue q"
    "case fresh now ?q of [] \<Rightarrow> d = None \<and> contents q = [] | e # es \<Rightarrow> d = Some (e_data e) \<and> contents q = es"
    using pop_ok [OF wf, of now] by (elim exE conjE) (rule that)
  have "d = None \<Longrightarrow> contents q = []" using p(3) by (cases "fresh now ?q") auto
  then show ?thesis using assms p(1,2) by (auto simp: queue_inv_def Let_def Receive_frame_def split: option.splits)
qed

lemma inv_closed:
  assumes "queue_inv x" and "CloseWithError e (qr_queue x) = Some h"
  shows "queue_inv (x\<lparr>qr_queue := h\<rparr>)"
proof -
  have wf: "wf_queue (cq_rcv (qr_queue x))" using assms(1) by (simp add: queue_inv_def Let_def)
  have h: "h = (qr_queue x)\<lparr>cq_rcv := fst (Close_queue (cq_rcv (qr_queue x))), cq_closed := Some e\<rparr>"
    using assms(2) by (simp add: CloseWithError_def split: if_splits)
  have "wf_queue (fst (Close_queue (cq_rcv (qr_queue x))))" "contents (fst (Close_queue (cq_rcv (qr_queue x)))) = []"
    using close_ok [OF wf] by (cases "Close_queue (cq_rcv (qr_queue x))", auto)+
  then show ?thesis using assms(1) by (auto simp: queue_inv_def Let_def h)
qed

lemma run_queue_inv: "queue_run x \<Longrightarrow> queue_inv x"
proof (induction rule: queue_run.induct)
  case start
  then show ?case using new_ok [of 128] by (simp add: queue_inv_def newDatagramQueue_def ring_empty_def wf_ring_def elems_def)
next
  case (added x f h)
  then show ?case using push_ring [of "cq_send (qr_queue x)" "[]" f] length_elems [of "PushBack [] f (cq_send (qr_queue x))"]
    by (auto simp: queue_inv_def Let_def Add_frame_def split: if_splits)
next
  case (blocked x f h)
  then show ?case by (auto simp: queue_inv_def Let_def Add_frame_def split: if_splits)
next
  case (packed x frame_len space has_ack h fs out)
  then show ?case using inv_packed [of x] by (auto simp: pack_frame_def split: option.splits if_splits)
next
  case (arrived x m bs h)
  then show ?case using inv_arrived by blast
next
  case (admitted x)
  then show ?case using burst_ok [of "cq_rcv (qr_queue x)"] by (auto simp: queue_inv_def Let_def)
next
  case (poll x now h r)
  then show ?case using inv_poll by blast
next
  case (closed x e h)
  then show ?case using inv_closed by blast
qed (auto simp: queue_inv_def Let_def)

text \<open>C16: The queues of a connection neither lose track nor fall asleep. In every interleaving of any number of senders with the packer, arrivals, a receiver and the end of the connection: the frames the packer took out,
  followed by those still queued, are the frames whose \<^verbatim>\<open>Add\<close> succeeded, in that order, and at most 32 are queued; a call of \<^verbatim>\<open>Add\<close> never waits in vain, for it has been or is being
  woken unless frames are queued, and then the packer can take one out, which wakes a sender; and a receiver that sleeps while a datagram is there has been woken.\<close>

theorem queues_never_stuck:
  assumes "queue_run x"
  shows "qr_taken x @ elems (cq_send (qr_queue x)) = qr_added x \<and> length (elems (cq_send (qr_queue x))) \<le> 32
    \<and> (0 < qr_waiting x \<longrightarrow> cq_sent (qr_queue x) \<or> 0 < qr_trying x
        \<or> (\<exists>f h. Peek_frame (qr_queue x) = Some f \<and> Pop_frame (qr_queue x) = Some h \<and> cq_sent h))
    \<and> (qr_rx x = Waiting \<and> contents (cq_rcv (qr_queue x)) \<noteq> [] \<longrightarrow> cq_rcvd (qr_queue x))"
proof -
  let ?h = "qr_queue x"
  have inv: "queue_inv x" using run_queue_inv [OF assms] .
  then have wf: "wf_ring (cq_send ?h)" by (simp add: queue_inv_def Let_def)
  have "\<exists>f h. Peek_frame ?h = Some f \<and> Pop_frame ?h = Some h \<and> cq_sent h" if ne: "r_len (cq_send ?h) \<noteq> 0"
  proof -
    obtain f fs where "elems (cq_send ?h) = f # fs" using ne length_elems [of "cq_send ?h"] by (cases "elems (cq_send ?h)") auto
    then show ?thesis using pop_frame [OF wf] by (metis cqueue.select_convs(2) cqueue.surjective cqueue.update_convs(2))
  qed
  then show ?thesis using inv by (auto simp: queue_inv_def Let_def)
qed

theorem queues_never_stuck_witness:
  "\<exists>x. queue_run x \<and> qr_added x = [[7]] \<and> elems (cq_send (qr_queue x)) = [[7]]"
proof -
  let ?x0 = "\<lparr>qr_queue = newDatagramQueue, qr_waiting = 0, qr_trying = 0, qr_rx = Polling, qr_added = [], qr_taken = []\<rparr>"
  let ?x1 = "?x0\<lparr>qr_trying := qr_trying ?x0 + 1\<rparr>"
  let ?h = "fst (Add_frame [7] (qr_queue ?x1))"
  have "queue_run ?x1" by (intro queue_run.intros)
  moreover have "Add_frame [7] (qr_queue ?x1) = (?h, True)" by (simp add: Add_frame_def newDatagramQueue_def ring_empty_def)
  ultimately have "queue_run (?x1\<lparr>qr_queue := ?h, qr_trying := qr_trying ?x1 - 1, qr_added := qr_added ?x1 @ [[7]]\<rparr>)" (is "queue_run ?x2")
    by (intro queue_run.added) simp_all
  then show ?thesis using queues_never_stuck [of ?x2] by (intro exI [of _ ?x2]) simp
qed

end
