(* ===== verification/Datagram_Pool.thy ===== *)
theory Datagram_Pool
  imports Datagram_Buffer
begin

text \<open>
  All receive queues of the process together: the shared counters of \<^verbatim>\<open>third_party/quic-go/internal/datagrambuffer/buffer.go\<close> and the interleavings of the
  queues' accesses to them. Any number of queues is created and operated on by concurrent goroutines; each access of an operation is atomic, and
  accesses of different queues mix in any order. The result is that the budget is kept and that the counters are exact.
\<close>

section \<open>The shared counters\<close>

record globals =
  g_used :: int
  g_peak :: int
  g_full :: "64 word"
  g_budget :: "64 word"
  g_expired :: "64 word"
  g_rawPacketDrops :: "64 word"

text \<open>The loop of \<^verbatim>\<open>reserve\<close>, over what its iterations meet: the value that was loaded, and whether the swap succeeded.\<close>

fun reserve :: "int \<Rightarrow> (int \<times> bool) list \<Rightarrow> bool option" where
  "reserve charge [] = None"
| "reserve charge ((n, swapped) # rest) =
     (if n + charge > GlobalLimit then Some False
      else if swapped then Some True
      else reserve charge rest)"

text \<open>The loop that lifts \<^verbatim>\<open>peak\<close>; the result is the value of \<^verbatim>\<open>peak\<close> when it ends.\<close>

fun lift_peak :: "int \<Rightarrow> (int \<times> bool) list \<Rightarrow> int option" where
  "lift_peak v [] = None"
| "lift_peak v ((p, swapped) # rest) = (if v > p then if swapped then Some v else lift_peak v rest else Some p)"

text \<open>Only the last iteration of these loops has an effect, so a call takes place at its last iteration.\<close>

lemma reserve_last: "reserve c tries = Some b \<Longrightarrow> \<exists>pre n s post. tries = pre @ (n, s) # post \<and> reserve c [(n, s)] = Some b \<and> list_all (\<lambda>t. \<not> snd t) pre"
proof (induction c tries rule: reserve.induct)
  case (2 c n s rest)
  show ?case
  proof (cases "reserve c [(n, s)]")
    case None
    then have *: "\<not> n + c > GlobalLimit" "\<not> s" by (auto split: if_splits)
    with 2(2) have "reserve c rest = Some b" by simp
    from 2(1) [OF * this] obtain pre m t post where "rest = pre @ (m, t) # post" "reserve c [(m, t)] = Some b" "list_all (\<lambda>t. \<not> snd t) pre" by blast
    then show ?thesis using * by (intro exI [of _ "(n, s) # pre"] exI [of _ m] exI [of _ t] exI [of _ post]) simp
  next
    case (Some b')
    then have "b' = b" using 2(2) by (auto split: if_splits)
    then show ?thesis using Some by (intro exI [of _ "[]"]) simp
  qed
qed simp

fun apply_access :: "access \<Rightarrow> globals \<Rightarrow> globals option" where
  "apply_access (Reserve c granted) g =
     (if reserve c [(g_used g, granted)] = Some granted then Some (if granted then g\<lparr>g_used := g_used g + c\<rparr> else g) else None)"
| "apply_access (Release c) g = Some (g\<lparr>g_used := g_used g - c\<rparr>)"
| "apply_access (Drop k) g =
     Some (case k of
             Full \<Rightarrow> g\<lparr>g_full := g_full g + 1\<rparr>
           | Budget \<Rightarrow> g\<lparr>g_budget := g_budget g + 1\<rparr>
           | Expired \<Rightarrow> g\<lparr>g_expired := g_expired g + 1\<rparr>)"
| "apply_access (Raise v) g = map_option (\<lambda>p. g\<lparr>g_peak := p\<rparr>) (lift_peak v [(g_peak g, True)])"

definition RecordRawPacketDrop :: "globals \<Rightarrow> globals" where
  "RecordRawPacketDrop g = g\<lparr>g_rawPacketDrops := g_rawPacketDrops g + 1\<rparr>"

definition GlobalStats :: "globals \<Rightarrow> buffer_stats" where
  "GlobalStats g = zero_stats\<lparr>QueuedBytes := g_used g, PeakBytes := g_peak g, DroppedFull := g_full g, DroppedBudget := g_budget g,
     DroppedExpired := g_expired g, RawPacketDrops := g_rawPacketDrops g\<rparr>"

section \<open>Runs\<close>

text \<open>A pool: the counters, the queues created so far, the accesses each queue's current operation still has to make, and the largest value
  \<^verbatim>\<open>used\<close> has had.\<close>

record pool =
  pg :: globals
  pn :: nat
  pq :: "nat \<Rightarrow> Queue"
  pend :: "nat \<Rightarrow> access list"
  p_top :: int

definition empty_pool :: pool where
  "empty_pool = \<lparr>pg = \<lparr>g_used = 0, g_peak = 0, g_full = 0, g_budget = 0, g_expired = 0, g_rawPacketDrops = 0\<rparr>, pn = 0,
     pq = (\<lambda>_. New 32), pend = (\<lambda>_. []), p_top = 0\<rparr>"

datatype qop = DoPush bool bool "byte list" time | DoPop time | DoClose | DoBurst

fun run_op :: "qop \<Rightarrow> Queue \<Rightarrow> (Queue \<times> access list) option" where
  "run_op (DoPush a1 a2 bs now) q = map_option (\<lambda>(q', ok, as). (q', as)) (Push a1 a2 bs now q)"
| "run_op (DoPop now) q = map_option (\<lambda>(q', r, as). (q', as)) (Pop now q)"
| "run_op DoClose q = Some (Close_queue q)"
| "run_op DoBurst q = Some (EnableBurst q, [])"

text \<open>A granted \<^verbatim>\<open>reserve\<close> goes on to lift \<^verbatim>\<open>peak\<close> to the value it swapped in.\<close>

fun afterwards :: "access \<Rightarrow> globals \<Rightarrow> access list" where
  "afterwards (Reserve c granted) g = (if granted then [Raise (g_used g)] else [])"
| "afterwards _ g = []"

text \<open>The limits are those of the queues of a QUIC connection (128) and of an HTTP/3 stream (32).\<close>

inductive pool_run :: "pool \<Rightarrow> bool" where
  start: "pool_run empty_pool"
| create: "pool_run p \<Longrightarrow> lim \<in> {32, 128} \<Longrightarrow> pool_run (p\<lparr>pq := (pq p)(pn p := New lim), pn := pn p + 1\<rparr>)"
| begin_op: "pool_run p \<Longrightarrow> i < pn p \<Longrightarrow> pend p i = [] \<Longrightarrow> run_op oper (pq p i) = Some (q', as) \<Longrightarrow>
    pool_run (p\<lparr>pq := (pq p)(i := q'), pend := (pend p)(i := as)\<rparr>)"
| accessed: "pool_run p \<Longrightarrow> pend p i = a # as \<Longrightarrow> apply_access a (pg p) = Some g \<Longrightarrow>
    pool_run (p\<lparr>pg := g, pend := (pend p)(i := afterwards a g @ as), p_top := max (p_top p) (g_used g)\<rparr>)"
| raw_drop: "pool_run p \<Longrightarrow> pool_run (p\<lparr>pg := RecordRawPacketDrop (pg p)\<rparr>)"

section \<open>The budget is kept and the counters are exact\<close>

definition g_drops :: "drop_kind \<Rightarrow> globals \<Rightarrow> 64 word" where
  "g_drops k g = (case k of Full \<Rightarrow> g_full g | Budget \<Rightarrow> g_budget g | Expired \<Rightarrow> g_expired g)"

text \<open>What queue \<open>i\<close> has reserved, and dropped, as far as the shared counters know.\<close>

definition share :: "pool \<Rightarrow> nat \<Rightarrow> int" where
  "share p i = held (pq p i) - net (pend p i)"

definition counted :: "drop_kind \<Rightarrow> pool \<Rightarrow> nat \<Rightarrow> 64 word" where
  "counted k p i = dropped k (pq p i) - drops k (pend p i)"

fun due :: "pool \<Rightarrow> access \<Rightarrow> bool" where
  "due p (Release c) = (0 \<le> c)"
| "due p (Raise v) = (v \<le> p_top p)"
| "due p _ = True"

lemma due_fair: "fair a \<Longrightarrow> due p a"
  by (cases a) auto

lemma due_mono: "due p a \<Longrightarrow> p_top p \<le> p_top p' \<Longrightarrow> due p' a"
  by (cases a) auto

lemma list_due_mono: "list_all (due p) as \<Longrightarrow> p_top p \<le> p_top p' \<Longrightarrow> list_all (due p') as"
  by (auto simp: list_all_iff intro: due_mono)

definition queue_inv :: "pool \<Rightarrow> nat \<Rightarrow> bool" where
  "queue_inv p i \<longleftrightarrow> wf_queue (pq p i) \<and> ledger_ok (share p i) (pend p i) \<and> list_all (due p) (pend p i)"

definition pool_inv :: "pool \<Rightarrow> bool" where
  "pool_inv p \<longleftrightarrow> (\<forall>i<pn p. queue_inv p i) \<and> (\<forall>i\<ge>pn p. pend p i = [])
     \<and> g_used (pg p) = (\<Sum>i<pn p. share p i) \<and> (\<forall>k. g_drops k (pg p) = (\<Sum>i<pn p. counted k p i))
     \<and> g_used (pg p) \<le> p_top p \<and> p_top p \<le> GlobalLimit \<and> g_peak (pg p) \<le> p_top p
     \<and> (p_top p \<le> g_peak (pg p) \<or> (\<exists>i. Raise (p_top p) \<in> set (pend p i)))"

lemma run_op_ok:
  assumes wf: "wf_queue q"
  shows "\<exists>q' as. run_op oper q = Some (q', as) \<and> wf_queue q' \<and> books q as q'"
proof (cases oper)
  case (DoPush a1 a2 bs now)
  from push_ok [OF wf, of a1 a2 bs now] obtain q' ok as where "Push a1 a2 bs now q = Some (q', ok, as)" "wf_queue q'" "books q as q'"
    by (elim exE conjE) (rule that)
  then show ?thesis unfolding DoPush by simp
next
  case (DoPop now)
  from pop_ok [OF wf, of now] obtain q' r as where "Pop now q = Some (q', r, as)" "wf_queue q'" "books q as q'"
    by (elim exE conjE) (rule that)
  then show ?thesis unfolding DoPop by simp
next
  case DoClose
  obtain q' as where c: "Close_queue q = (q', as)" by (cases "Close_queue q")
  then show ?thesis unfolding DoClose using close_ok [OF wf c] by simp
next
  case DoBurst
  then show ?thesis unfolding DoBurst using burst_ok [OF wf] by simp
qed

lemma ledger_nonneg: "ledger_ok h as \<Longrightarrow> 0 \<le> h"
  by (cases as) auto

lemma sum_upd:
  fixes f :: "nat \<Rightarrow> 'a :: ab_group_add"
  assumes "i < n" and "\<And>j. j \<noteq> i \<Longrightarrow> f' j = f j"
  shows "(\<Sum>j<n. f' j) = (\<Sum>j<n. f j) + (f' i - f i)"
proof -
  have "(\<Sum>j<n. f' j) = f' i + (\<Sum>j\<in>{..<n} - {i}. f' j)" "(\<Sum>j<n. f j) = f i + (\<Sum>j\<in>{..<n} - {i}. f j)"
    using assms(1) by (auto intro: sum.remove)
  moreover have "(\<Sum>j\<in>{..<n} - {i}. f' j) = (\<Sum>j\<in>{..<n} - {i}. f j)" using assms(2) by (intro sum.cong) auto
  ultimately show ?thesis by simp
qed

lemma inv_empty: "pool_inv empty_pool"
  by (simp add: pool_inv_def empty_pool_def g_drops_def split: drop_kind.splits)

text \<open>The part of the invariant that only concerns the counters and their sums.\<close>

lemma pool_inv_frame:
  assumes "pool_inv p" and "\<forall>i<pn p'. queue_inv p' i" and "\<forall>i\<ge>pn p'. pend p' i = []"
    and "(\<Sum>i<pn p'. share p' i) = (\<Sum>i<pn p. share p i)" and "\<And>k. (\<Sum>i<pn p'. counted k p' i) = (\<Sum>i<pn p. counted k p i)"
    and "pg p' = pg p" and "p_top p' = p_top p" and "\<And>i v. Raise v \<in> set (pend p i) \<Longrightarrow> \<exists>j. Raise v \<in> set (pend p' j)"
  shows "pool_inv p'"
  using assms(1) unfolding pool_inv_def assms(4-7)
  by (elim conjE disjE) (intro conjI assms(2,3); (assumption | blast dest: assms(8)))+

lemma inv_create:
  assumes "pool_inv p" and "lim \<in> {32, 128}"
  shows "pool_inv (p\<lparr>pq := (pq p)(pn p := New lim), pn := pn p + 1\<rparr>)"
proof -
  define p' where "p' = p\<lparr>pq := (pq p)(pn p := New lim), pn := pn p + 1\<rparr>"
  have pr: "pn p' = Suc (pn p)" "pend p' = pend p" "pg p' = pg p" "p_top p' = p_top p" "pq p' (pn p) = New lim" by (simp_all add: p'_def)
  have new: "wf_queue (New lim)" "held (New lim) = 0" "dropped k (New lim) = 0" for k using new_ok [of lim] assms(2) by auto
  have e: "pend p (pn p) = []" using assms(1) by (simp add: pool_inv_def)
  have old: "share p' i = share p i" "counted k p' i = counted k p i" "queue_inv p' i = queue_inv p i" if "i < pn p" for i k
    using that pr list_due_mono [of p' "pend p i" p] list_due_mono [of p "pend p i" p'] by (auto simp: share_def counted_def queue_inv_def p'_def)
  have added: "share p' (pn p) = 0" "counted k p' (pn p) = 0" "queue_inv p' (pn p)" for k
    using new e by (simp_all add: share_def counted_def queue_inv_def pr)
  have "(\<Sum>i<pn p'. share p' i) = (\<Sum>i<pn p. share p i)" "(\<Sum>i<pn p'. counted k p' i) = (\<Sum>i<pn p. counted k p i)" for k
    using old(1,2) by (simp_all add: pr added)
  moreover have "\<forall>i<pn p'. queue_inv p' i" using old(3) added(3) assms(1) by (simp add: pool_inv_def pr less_Suc_eq)
  moreover have "\<forall>i\<ge>pn p'. pend p' i = []" using assms(1) by (simp add: pool_inv_def pr)
  ultimately have "pool_inv p'" using pr by (intro pool_inv_frame [OF assms(1)]) auto
  then show ?thesis by (simp add: p'_def)
qed

lemma inv_begin:
  assumes inv: "pool_inv p" and i: "i < pn p" "pend p i = []" and oper: "run_op oper (pq p i) = Some (q', as)"
  shows "pool_inv (p\<lparr>pq := (pq p)(i := q'), pend := (pend p)(i := as)\<rparr>)"
proof -
  define p' where "p' = p\<lparr>pq := (pq p)(i := q'), pend := (pend p)(i := as)\<rparr>"
  have pr: "pn p' = pn p" "pg p' = pg p" "p_top p' = p_top p" "pq p' i = q'" "pend p' i = as"
    "\<And>j. j \<noteq> i \<Longrightarrow> pq p' j = pq p j \<and> pend p' j = pend p j" by (simp_all add: p'_def)
  have q: "wf_queue (pq p i)" using inv i(1) by (simp add: pool_inv_def queue_inv_def)
  have q': "wf_queue q'" "books (pq p i) as q'" using run_op_ok [OF q, of oper] oper by auto
  have same: "share p' j = share p j" "counted k p' j = counted k p j" for j k
    using q'(2) i(2) pr(6) [of j] by (cases "j = i"; simp add: share_def counted_def books_def pr(4,5))+
  have "queue_inv p' j" if "j < pn p" for j
  proof (cases "j = i")
    case True
    then show ?thesis using q' i(2) by (auto simp: queue_inv_def same(1) pr share_def books_def list_all_iff intro: due_fair)
  next
    case False
    then show ?thesis using that inv pr(3) pr(6) [OF False] list_due_mono [of p "pend p j" p'] by (auto simp: pool_inv_def queue_inv_def same(1))
  qed
  moreover have "\<exists>j. Raise v \<in> set (pend p' j)" if "Raise v \<in> set (pend p j)" for j v
  proof -
    have "j \<noteq> i" using that i(2) by auto
    then show ?thesis using that pr(6) by (intro exI [of _ j]) simp
  qed
  moreover have "\<forall>j\<ge>pn p. pend p' j = []" using inv i(1) by (simp add: pool_inv_def p'_def)
  ultimately have "pool_inv p'" by (intro pool_inv_frame [OF inv]) (simp_all add: pr(1-3) same)
  then show ?thesis by (simp add: p'_def)
qed

lemma access_effect:
  assumes "apply_access a g = Some g'" and "due p a"
  shows "g_used g' = g_used g + delta a" "g_drops k g' = g_drops k g + (if a = Drop k then 1 else 0)"
    "g_used g \<le> GlobalLimit \<Longrightarrow> g_used g' \<le> GlobalLimit"
    "g_peak g' = (case a of Raise v \<Rightarrow> max (g_peak g) v | _ \<Rightarrow> g_peak g)"
    "net (afterwards a g') = 0" "drops k (afterwards a g') = 0"
    "set (afterwards a g') = (if \<exists>c. a = Reserve c True then {Raise (g_used g')} else {})"
  using assms by (cases a; auto simp: g_drops_def split: if_splits drop_kind.splits)+

text \<open>The largest value of \<^verbatim>\<open>used\<close> has reached \<^verbatim>\<open>peak\<close> or is about to.\<close>

lemma high_water:
  assumes inv: "pool_inv p" and a: "pend p i = a # as" and step: "apply_access a (pg p) = Some g" and da: "due p a"
    and p': "pend p' i = afterwards a g @ as" "\<And>j. j \<noteq> i \<Longrightarrow> pend p' j = pend p j"
  shows "max (p_top p) (g_used g) \<le> g_peak g \<or> (\<exists>j. Raise (max (p_top p) (g_used g)) \<in> set (pend p' j))"
proof (cases "g_used g \<le> p_top p")
  case False
  note e = access_effect [OF step da]
  have "g_used (pg p) \<le> p_top p" using inv by (simp add: pool_inv_def)
  then have "\<exists>c. a = Reserve c True" using False e(1) da by (cases a) (auto split: if_splits)
  then show ?thesis using False e(7) by (intro disjI2 exI [of _ i]) (simp add: p'(1))
next
  case True
  then have top: "max (p_top p) (g_used g) = p_top p" by simp
  note e = access_effect(4) [OF step da]
  from inv consider "p_top p \<le> g_peak (pg p)" | j where "Raise (p_top p) \<in> set (pend p j)" unfolding pool_inv_def by blast
  then show ?thesis
  proof cases
    case 1
    then show ?thesis by (cases a) (auto simp: top e)
  next
    case (2 j)
    then show ?thesis
      using p'(2) [of j] by (cases "j = i"; cases "a = Raise (p_top p)") (auto simp: top a e p'(1) intro: exI [of _ j] exI [of _ i])
  qed
qed

lemma inv_accessed:
  assumes inv: "pool_inv p" and a: "pend p i = a # as" and step: "apply_access a (pg p) = Some g"
  shows "pool_inv (p\<lparr>pg := g, pend := (pend p)(i := afterwards a g @ as), p_top := max (p_top p) (g_used g)\<rparr>)"
proof -
  define p' where "p' = p\<lparr>pg := g, pend := (pend p)(i := afterwards a g @ as), p_top := max (p_top p) (g_used g)\<rparr>"
  have pr: "pn p' = pn p" "pg p' = g" "p_top p' = max (p_top p) (g_used g)" "pq p' = pq p" "pend p' i = afterwards a g @ as"
    "\<And>j. j \<noteq> i \<Longrightarrow> pend p' j = pend p j" by (simp_all add: p'_def)
  note I = inv [unfolded pool_inv_def]
  have i: "i < pn p" using I a by (metis list.distinct(1) not_le)
  have qi: "queue_inv p i" using I i by blast
  have mono: "p_top p \<le> p_top p'" by (simp add: pr)
  have da: "due p a" using qi a by (simp add: queue_inv_def)
  note e = access_effect [OF step da]
  have sh: "share p' i = share p i + delta a" "counted k p' i = counted k p i + (if a = Drop k then 1 else 0)" for k
    by (simp_all add: share_def counted_def pr e(5,6) a)
  have other: "share p' j = share p j" "counted k p' j = counted k p j" if "j \<noteq> i" for j k
    using that by (simp_all add: share_def counted_def pr)
  have sums: "(\<Sum>j<pn p'. share p' j) = g_used g" "(\<Sum>j<pn p'. counted k p' j) = g_drops k g" for k
    using I sum_upd [OF i, of "share p'" "share p"] sum_upd [OF i, of "counted k p'" "counted k p"] other sh e(1) e(2) [of k] by (simp_all add: pr(1))
  have "ledger_ok (share p i + delta a) as" using qi by (simp add: queue_inv_def a)
  then have led: "ledger_ok (share p' i) (pend p' i)" using ledger_nonneg by (cases a) (auto simp: sh pr split: if_splits)
  have "list_all (due p') (pend p' i)"
    using qi list_due_mono [OF _ mono, of as] e(7) by (auto simp: queue_inv_def a pr list_all_iff split: if_splits)
  then have "queue_inv p' i" using led qi by (simp add: queue_inv_def pr)
  moreover have "queue_inv p' j" if "j < pn p" "j \<noteq> i" for j
    using I that list_due_mono [OF _ mono, of "pend p j"] by (simp add: queue_inv_def other pr)
  ultimately have qs: "\<forall>j<pn p'. queue_inv p' j" using pr(1) by metis
  have lim: "g_used (pg p) \<le> GlobalLimit" "p_top p \<le> GlobalLimit" "g_peak (pg p) \<le> p_top p" using I by auto
  have peak: "g_peak g \<le> p_top p'" using lim(3) da mono by (cases a) (auto simp: e(4))
  have high: "p_top p' \<le> g_peak g \<or> (\<exists>j. Raise (p_top p') \<in> set (pend p' j))"
    using high_water [OF inv a step da, of p'] pr by simp
  have "pool_inv p'" unfolding pool_inv_def
    using qs I i sums peak high e(3) [OF lim(1)] lim(2) by (simp add: pr(1-3,6))
  then show ?thesis by (simp add: p'_def)
qed

lemma run_inv: "pool_run p \<Longrightarrow> pool_inv p"
proof (induction rule: pool_run.induct)
  case start
  then show ?case by (rule inv_empty)
next
  case (create p lim)
  then show ?case using inv_create by blast
next
  case (begin_op p i oper q' as)
  then show ?case using inv_begin by blast
next
  case (accessed p i a as g)
  then show ?case using inv_accessed by blast
next
  case (raw_drop p)
  have "g_drops k (RecordRawPacketDrop (pg p)) = g_drops k (pg p)" for k
    by (simp add: g_drops_def RecordRawPacketDrop_def split: drop_kind.splits)
  moreover have "queue_inv (p\<lparr>pg := g\<rparr>) i \<longleftrightarrow> queue_inv p i" for g i
    using list_due_mono [of p _ "p\<lparr>pg := g\<rparr>"] list_due_mono [of "p\<lparr>pg := g\<rparr>" _ p] by (auto simp: queue_inv_def share_def)
  moreover have "share (p\<lparr>pg := g\<rparr>) = share p" "counted k (p\<lparr>pg := g\<rparr>) = counted k p" for g k by (auto simp: share_def counted_def)
  ultimately show ?case using raw_drop(2) unfolding pool_inv_def by (simp add: RecordRawPacketDrop_def)
qed

definition idle :: "pool \<Rightarrow> bool" where
  "idle p \<longleftrightarrow> (\<forall>i<pn p. pend p i = [])"

lemma idle_exact:
  assumes "pool_inv p" and "idle p"
  shows "g_used (pg p) = (\<Sum>i<pn p. held (pq p i))" "g_peak (pg p) = p_top p" "g_drops k (pg p) = (\<Sum>i<pn p. dropped k (pq p i))"
proof -
  have all: "pend p i = []" for i using assms by (cases "i < pn p") (auto simp: pool_inv_def idle_def)
  then show "g_used (pg p) = (\<Sum>i<pn p. held (pq p i))" "g_drops k (pg p) = (\<Sum>i<pn p. dropped k (pq p i))" "g_peak (pg p) = p_top p"
    using assms(1) by (auto simp: pool_inv_def share_def counted_def)
qed

lemma used_nonneg: "pool_inv p \<Longrightarrow> 0 \<le> g_used (pg p)"
  using ledger_nonneg by (auto simp: pool_inv_def queue_inv_def intro!: sum_nonneg)

text \<open>C15: All receive queues together keep the budget, and the books are exact. In every interleaving of the operations of any number of queues, the memory in
  \<^verbatim>\<open>used\<close> is never negative and never above 32 MiB, nor is \<^verbatim>\<open>peak\<close>; no operation on any queue panics. Whenever no operation
  is in progress, \<^verbatim>\<open>GlobalStats\<close> reports exactly what the queues hold, the largest amount that was ever reserved, and the sums of their drop counters; and
  when all queues are closed, nothing is reserved.\<close>

theorem budget_exact:
  assumes "pool_run p"
  shows "0 \<le> g_used (pg p) \<and> g_used (pg p) \<le> 32 * 1024 * 1024 \<and> g_peak (pg p) \<le> 32 * 1024 * 1024
    \<and> (\<forall>i oper. i < pn p \<longrightarrow> run_op oper (pq p i) \<noteq> None)
    \<and> (idle p \<longrightarrow>
         QueuedBytes (GlobalStats (pg p)) = (\<Sum>i<pn p. QueuedBytes (Queue_Stats (pq p i)))
       \<and> PeakBytes (GlobalStats (pg p)) = p_top p
       \<and> DroppedFull (GlobalStats (pg p)) = (\<Sum>i<pn p. DroppedFull (Queue_Stats (pq p i)))
       \<and> DroppedBudget (GlobalStats (pg p)) = (\<Sum>i<pn p. DroppedBudget (Queue_Stats (pq p i)))
       \<and> DroppedExpired (GlobalStats (pg p)) = (\<Sum>i<pn p. DroppedExpired (Queue_Stats (pq p i)))
       \<and> ((\<forall>i<pn p. q_closed (pq p i)) \<longrightarrow> g_used (pg p) = 0))"
proof -
  have inv: "pool_inv p" by (rule run_inv [OF assms])
  have wf: "wf_queue (pq p i)" if "i < pn p" for i using inv that by (simp add: pool_inv_def queue_inv_def)
  have noerr: "run_op oper (pq p i) \<noteq> None" if "i < pn p" for i oper using run_op_ok [OF wf [OF that], of oper] by auto
  have stats: "QueuedBytes (Queue_Stats q) = held q" "DroppedFull (Queue_Stats q) = dropped Full q" "DroppedBudget (Queue_Stats q) = dropped Budget q"
    "DroppedExpired (Queue_Stats q) = dropped Expired q" for q by (simp_all add: Queue_Stats_def held_def dropped_def)
  have gstats: "QueuedBytes (GlobalStats g) = g_used g" "PeakBytes (GlobalStats g) = g_peak g" "DroppedFull (GlobalStats g) = g_drops Full g"
    "DroppedBudget (GlobalStats g) = g_drops Budget g" "DroppedExpired (GlobalStats g) = g_drops Expired g" for g
    by (simp_all add: GlobalStats_def g_drops_def)
  have closed: "held (pq p i) = 0" if "i < pn p" "q_closed (pq p i)" for i
    using wf [OF that(1)] that(2) wf_closed [OF wf [OF that(1)] that(2)] by (auto simp: wf_queue_def held_def)
  show ?thesis
    using inv used_nonneg [OF inv] noerr idle_exact [OF inv] closed unfolding stats gstats by (auto simp: pool_inv_def)
qed

section \<open>A worked run\<close>

text \<open>The next access of a queue, and the begin of an operation, as functions.\<close>

definition next_access :: "nat \<Rightarrow> pool \<Rightarrow> pool" where
  "next_access i p =
     (case pend p i of
        [] \<Rightarrow> p
      | a # as \<Rightarrow>
          (case apply_access a (pg p) of
             None \<Rightarrow> p
           | Some g \<Rightarrow> p\<lparr>pg := g, pend := (pend p)(i := afterwards a g @ as), p_top := max (p_top p) (g_used g)\<rparr>))"

lemma next_access_run: "pool_run p \<Longrightarrow> pool_run (next_access i p)"
  using pool_run.accessed by (auto simp: next_access_def split: list.splits option.splits)

definition demo_push :: Queue where
  "demo_push = (New 32)\<lparr>q_items := \<lparr>e_data = [1, 2, 3], e_at = 0\<rparr> # replicate 7 zero_entry, q_count := 1, q_bytes := 67, q_ringCharge := 512,
     q_stats := zero_stats\<lparr>PeakBytes := 579\<rparr>\<rparr>"

definition demo_began :: pool where
  "demo_began = empty_pool\<lparr>pq := (\<lambda>_. New 32)(0 := demo_push), pn := 1,
     pend := (\<lambda>_. [])(0 := [Reserve 67 True, Reserve 512 True, Release 0])\<rparr>"

lemma demo_push_ok: "Push True True [1, 2, 3] 0 (New 32) = Some (demo_push, True, [Reserve 67 True, Reserve 512 True, Release 0])"
proof -
  have "replicate 8 zero_entry = zero_entry # replicate 7 zero_entry" by (simp add: eval_nat_numeral)
  then show ?thesis
    by (simp add: Push_def New_def expire_queue.simps charge_of_def grow_def grown_def place_def zero_stats_def demo_push_def Let_def)
qed

lemma demo_began_run: "pool_run demo_began"
proof -
  have "pool_run (empty_pool\<lparr>pq := (\<lambda>_. New 32)(0 := New 32), pn := 1\<rparr>)"
    using pool_run.create [OF pool_run.start, of 32] by (simp add: empty_pool_def)
  from pool_run.begin_op [OF this, of 0 "DoPush True True [1, 2, 3] 0" demo_push] demo_push_ok show ?thesis
    by (simp add: demo_began_def empty_pool_def)
qed

abbreviation demo_pool :: pool where
  "demo_pool \<equiv> next_access 0 (next_access 0 (next_access 0 (next_access 0 (next_access 0 demo_began))))"

lemma demo_pool_eq: "pg demo_pool = \<lparr>g_used = 579, g_peak = 579, g_full = 0, g_budget = 0, g_expired = 0, g_rawPacketDrops = 0\<rparr>" "idle demo_pool" "pn demo_pool = 1"
  by (simp_all add: next_access_def demo_began_def empty_pool_def idle_def)

theorem budget_exact_witness:
  "pool_run demo_pool \<and> 579 = (\<Sum>i<pn demo_pool. QueuedBytes (Queue_Stats (pq demo_pool i)))"
proof -
  have run: "pool_run demo_pool" by (intro next_access_run demo_began_run)
  have "QueuedBytes (GlobalStats (pg demo_pool)) = (\<Sum>i<pn demo_pool. QueuedBytes (Queue_Stats (pq demo_pool i)))"
    using budget_exact [OF run] demo_pool_eq(2) by blast
  then show ?thesis using run by (simp add: GlobalStats_def demo_pool_eq(1))
qed

end
